(* ===== verification/Prelude.thy ===== *)
theory Prelude
  imports Main "HOL-Library.AList" "HOL-Library.Word" "HOL-Library.List_Lexorder"
begin

text \<open>
  The shared vocabulary of the development: machine integers, the identity of an iroh endpoint
  with its order, the hash and ordered maps of the Rust standard library as association lists,
  the file a store lives in, and the errors the daemon reports. The lemmas here are about maps
  and lists only; nothing in this theory models a decision of the program.
\<close>

subsection \<open>Fact collections\<close>

named_theorems unfolds \<open>definitions of the model's operations\<close>
named_theorems wf_intros \<open>operations keep the well-formedness of their component\<close>

subsection \<open>Machine integers and identities\<close>

type_synonym u8 = "8 word"
type_synonym u16 = "16 word"
type_synonym u64 = "64 word"
type_synonym bytes = "u8 list"

text \<open>
  An \<open>iroh::EndpointId\<close> is an opaque public key. The sources compare keys, order them
  (\<open>BTreeMap\<close>, \<open>as_bytes\<close>) and print and parse them; printing and parsing belong to iroh and
  are parameters wherever they occur.
\<close>

datatype endpoint_id = EndpointId (as_bytes: bytes)

instantiation endpoint_id :: linorder
begin

definition less_eq_endpoint_id :: "endpoint_id \<Rightarrow> endpoint_id \<Rightarrow> bool" where
  "less_eq_endpoint_id a b \<longleftrightarrow> as_bytes a \<le> as_bytes b"

definition less_endpoint_id :: "endpoint_id \<Rightarrow> endpoint_id \<Rightarrow> bool" where
  "less_endpoint_id a b \<longleftrightarrow> as_bytes a < as_bytes b"

instance
  by standard
    (auto simp: less_eq_endpoint_id_def less_endpoint_id_def endpoint_id.expand)

end

datatype ipv4 = Ipv4 u8 u8 u8 u8

datatype ip_addr = V4 ipv4 | V6 "128 word"

fun octets :: "ipv4 \<Rightarrow> bytes" where
  "octets (Ipv4 a b c d) = [a, b, c, d]"

definition localhost :: ip_addr where
  "localhost = V4 (Ipv4 127 0 0 1)"

text \<open>Big-endian bytes of an integer (\<open>u16::to_be_bytes\<close>, \<open>u16::from_be_bytes\<close>).\<close>

definition u16_to_be :: "u16 \<Rightarrow> bytes" where
  "u16_to_be n = [ucast (drop_bit 8 n), ucast n]"

definition u16_from_be :: "u8 \<Rightarrow> u8 \<Rightarrow> u16" where
  "u16_from_be hi lo = push_bit 8 (ucast hi) + ucast lo"

subsection \<open>Errors\<close>

text \<open>One constructor per error the sources build with \<open>anyhow!\<close>, \<open>bail!\<close> or \<open>context\<close>.\<close>

datatype error =
    InvitationHasNoCode
  | InvitationInvalidKey
  | InvalidKey
  | PeerAlreadyExists
  | PeerNotFound
  | NoSuchPeer string
  | NotProjected string
  | AmbiguousName string
  | NoPeerMatches string
  | NoPeersToGrant
  | InvalidIpAddress
  | NoFreeAddress "u8 \<times> u8 \<times> u8"
  | LoopbackAliasUnsupported ip_addr
  | FailedToRun string
  | CommandFailed string
  | FailedToRead string
  | FailedToParse string
  | FailedToCreate string
  | FailedToSerialize
  | FailedToWrite string
  | PeerDisconnected
  | FailedToOpenStream
  | FailedToConnect ip_addr u16
  | StreamReadError
  | NotThirtyTwoBytes string
  | UnexpectedVerdict
  | NotOnMacOS
  | NeedsRoot
  | NotInstalled
  | FindingExecutable
  | Creating string
  | Copying string
  | Chmod string
  | Chown string
  | Replacing string
  | Removing string
  | LaunchctlFailed "string list" string
  | UnexpectedResponse
  | InvalidSocketOwner
  | BadSocketPath
  | UnknownSocketOwner string
  | InvalidSocketMode string
  | FailedToBindSocket
  | NotConnectedToDaemon
  | FailedToAccept
  | TunFailed string

type_synonym 'a result = "error + 'a"

subsection \<open>Maps of the standard library\<close>

text \<open>
  A \<open>HashMap\<close> or \<open>DashMap\<close> is an association list with distinct keys whose order stands for
  the unspecified iteration order; \<open>AList.update\<close> and \<open>AList.delete\<close> are its insert and
  remove. A \<open>BTreeMap\<close> is an association list in ascending key order.
\<close>

fun bput :: "'k::linorder \<Rightarrow> 'v \<Rightarrow> ('k \<times> 'v) list \<Rightarrow> ('k \<times> 'v) list" where
  "bput k v [] = [(k, v)]"
| "bput k v ((a, b) # m) =
     (if k < a then (k, v) # (a, b) # m
      else if k = a then (k, v) # m
      else (a, b) # bput k v m)"

definition bdel :: "'k::linorder \<Rightarrow> ('k \<times> 'v) list \<Rightarrow> ('k \<times> 'v) list" where
  "bdel k m = filter (\<lambda>e. fst e \<noteq> k) m"

abbreviation keys :: "('k \<times> 'v) list \<Rightarrow> 'k list" where
  "keys m \<equiv> map fst m"

definition hash_ok :: "('k \<times> 'v) list \<Rightarrow> bool" where
  "hash_ok m \<longleftrightarrow> distinct (keys m)"

definition btree_ok :: "('k::linorder \<times> 'v) list \<Rightarrow> bool" where
  "btree_ok m \<longleftrightarrow> sorted_wrt (<) (keys m)"

text \<open>The interface both maps offer, and what their clients derive from it.\<close>

locale dict =
  fixes put :: "'k \<Rightarrow> 'v \<Rightarrow> ('k \<times> 'v) list \<Rightarrow> ('k \<times> 'v) list"
    and del :: "'k \<Rightarrow> ('k \<times> 'v) list \<Rightarrow> ('k \<times> 'v) list"
    and ok :: "('k \<times> 'v) list \<Rightarrow> bool"
  assumes get_put: "ok m \<Longrightarrow> map_of (put k v m) = (map_of m)(k \<mapsto> v)"
    and get_del: "ok m \<Longrightarrow> map_of (del k m) = (map_of m)(k := None)"
    and ok_distinct: "ok m \<Longrightarrow> distinct (keys m)"
    and ok_empty: "ok []"
    and ok_put: "ok m \<Longrightarrow> ok (put k v m)"
    and ok_del: "ok m \<Longrightarrow> ok (del k m)"
begin

lemma entry_iff: "ok m \<Longrightarrow> (k, v) \<in> set m \<longleftrightarrow> map_of m k = Some v"
  using ok_distinct by (auto dest: map_of_SomeD)

lemma keys_dom: "set (keys m) = dom (map_of m)"
  by (simp add: dom_map_of_conv_image_fst)

lemma keys_put: "ok m \<Longrightarrow> set (keys (put k v m)) = insert k (set (keys m))"
  using get_put [of m k v] keys_dom [of "put k v m"] keys_dom [of m] by simp

lemma keys_del: "ok m \<Longrightarrow> set (keys (del k m)) = set (keys m) - {k}"
  using get_del [of m k] keys_dom [of "del k m"] keys_dom [of m] by simp

lemma entries_put:
  "ok m \<Longrightarrow> set (put k v m) = insert (k, v) {e \<in> set m. fst e \<noteq> k}"
  using entry_iff [of m] entry_iff [of "put k v m"]
  by (auto simp: ok_put get_put split: if_splits)

lemma entries_del: "ok m \<Longrightarrow> set (del k m) = {e \<in> set m. fst e \<noteq> k}"
  using entry_iff [of m] entry_iff [of "del k m"]
  by (auto simp: ok_del get_del split: if_splits)

lemma values_put: "ok m \<Longrightarrow> (\<forall>e \<in> set m. P (snd e)) \<Longrightarrow> P v \<Longrightarrow> (\<forall>e \<in> set (put k v m). P (snd e))"
  by (auto simp: entries_put)

lemma values_del: "ok m \<Longrightarrow> (\<forall>e \<in> set m. P (snd e)) \<Longrightarrow> (\<forall>e \<in> set (del k m). P (snd e))"
  by (auto simp: entries_del)

end

lemma keys_bput: "set (keys (bput k v m)) = insert k (set (keys m))"
  by (induction k v m rule: bput.induct) (simp_all add: insert_commute)

lemma ball_keys_bput:
  "(\<forall>e \<in> set (bput k v m). P (fst e)) \<longleftrightarrow> P k \<and> (\<forall>e \<in> set m. P (fst e))"
proof -
  have "(\<forall>x \<in> fst ` set (bput k v m). P x) \<longleftrightarrow> (\<forall>x \<in> insert k (fst ` set m). P x)"
    using keys_bput [of k v m] by simp
  then show ?thesis by simp
qed

lemma map_of_bput: "map_of (bput k v m) = (map_of m)(k \<mapsto> v)"
  by (induction m) (auto simp: fun_eq_iff)

lemma map_of_bdel: "map_of (bdel k m) = (map_of m)(k := None)"
  by (induction m) (auto simp: bdel_def fun_eq_iff)

lemma btree_ok_bput: "btree_ok m \<Longrightarrow> btree_ok (bput k v m)"
proof (induction k v m rule: bput.induct)
  case (2 k v a b m)
  then show ?case
    by (auto simp: btree_ok_def ball_keys_bput [where P = "\<lambda>x. a < x"] intro: less_trans)
qed (simp add: btree_ok_def)

lemma btree_ok_bdel: "btree_ok m \<Longrightarrow> btree_ok (bdel k m)"
  by (induction m) (auto simp: btree_ok_def bdel_def)

lemma btree_ok_distinct: "btree_ok m \<Longrightarrow> distinct (keys m)"
  by (induction m) (auto simp: btree_ok_def)

lemma btree_ok_sorted: "btree_ok m \<Longrightarrow> sorted (keys m)"
  by (auto simp: btree_ok_def intro: sorted_wrt_mono_rel [of _ "(<)"])

interpretation hm: dict AList.update AList.delete hash_ok
  by unfold_locales
    (auto simp: hash_ok_def update_conv' delete_conv' distinct_update distinct_delete)

interpretation bm: dict bput bdel btree_ok
  by unfold_locales
    (auto simp: map_of_bput map_of_bdel btree_ok_distinct btree_ok_bput btree_ok_bdel,
      simp add: btree_ok_def)

lemmas hash_specs = hm.get_put hm.get_del hm.ok_put hm.ok_del hm.keys_put hm.keys_del
lemmas btree_specs = bm.get_put bm.get_del bm.ok_put bm.ok_del bm.keys_put bm.keys_del

text \<open>The same key laws with the key set as the simplifier writes it.\<close>

lemmas key_sets = hm.keys_put [unfolded set_map] hm.keys_del [unfolded set_map]
  bm.keys_put [unfolded set_map] bm.keys_del [unfolded set_map]

declare hm.ok_empty [simp] bm.ok_empty [simp]

subsection \<open>Lists and bytes\<close>

lemma distinct_sort_set_eq:
  fixes xs ys :: "'a::linorder list"
  assumes "distinct xs" "distinct ys" "set xs = set ys"
  shows "sort xs = sort ys"
  using assms by (metis distinct_sort set_sort sorted_distinct_set_unique sorted_sort)

lemma map_of_some_key: "map_of m k = Some v \<Longrightarrow> k \<in> set (keys m)"
  by (force dest: map_of_SomeD)

lemma map_of_live:
  "hash_ok m \<Longrightarrow> map_of (filter (\<lambda>e. P (snd e)) m) k =
     (case map_of m k of None \<Rightarrow> None | Some v \<Rightarrow> if P v then Some v else None)"
proof (induction m)
  case (Cons e m)
  moreover have "fst e \<notin> set (keys m) \<Longrightarrow> map_of m (fst e) = None"
    by (simp add: map_of_eq_None_iff)
  ultimately show ?case by (cases e) (auto simp: hash_ok_def split: option.splits)
qed simp

lemma distinct_fst_filter: "distinct (keys m) \<Longrightarrow> distinct (keys (filter P m))"
  by (induction m) auto

lemma removeAll_eq_Nil: "removeAll k s = [] \<longleftrightarrow> set s \<subseteq> {k}"
  by (induction s) auto

lemma List_insert_not_Nil [simp]: "List.insert k s \<noteq> []"
  by (auto simp: List.insert_def)

lemma unat_u8_less [simp]: "unat (b :: u8) < 256"
  by (rule order_less_le_trans [OF unsigned_less]) simp

lemma u16_be_roundtrip: "u16_from_be (u16_to_be n ! 0) (u16_to_be n ! 1) = n"
proof -
  have "push_bit 8 (ucast (ucast (drop_bit 8 n) :: u8) :: u16) + ucast (ucast n :: u8) =
      or (push_bit 8 (ucast (ucast (drop_bit 8 n) :: u8) :: u16)) (ucast (ucast n :: u8))"
    by (rule disjunctive_add) (auto simp: bit_simps)
  also have "\<dots> = n"
    by (rule bit_word_eqI) (auto simp: bit_simps not_less)
  finally show ?thesis by (simp add: u16_from_be_def u16_to_be_def)
qed

lemma length_u16_to_be [simp]: "length (u16_to_be n) = 2"
  by (simp add: u16_to_be_def)

end
