(* ===== verification/Grants.thy ===== *)
theory Grants
  imports Prelude
begin

text \<open>
  The grant table (\<open>src/core/grants.rs\<close>): which port is granted to which key. The abstract
  contract is a relation between ports and keys; the locale \<open>grant_table\<close> states what the
  operations promise over it, the session core is proved against that contract, and the
  interpretation at the end discharges it for the model of the code.
\<close>

subsection \<open>State and operations\<close>

record grants =
  by_port :: "(u16 \<times> endpoint_id list) list"

definition grants_default :: grants where
  "grants_default = \<lparr>by_port = []\<rparr>"

definition grants_add :: "grants \<Rightarrow> u16 \<Rightarrow> endpoint_id \<Rightarrow> grants" where
  "grants_add g port grantee =
     (let cur = (case map_of (by_port g) port of None \<Rightarrow> [] | Some s \<Rightarrow> s)
      in g\<lparr>by_port := AList.update port (List.insert grantee cur) (by_port g)\<rparr>)"

definition grants_remove :: "grants \<Rightarrow> u16 \<Rightarrow> endpoint_id option \<Rightarrow> grants" where
  "grants_remove g port grantee =
     (case grantee of
        Some k \<Rightarrow>
          (case map_of (by_port g) port of
             Some s \<Rightarrow>
               (let s' = removeAll k s
                in if s' = [] then g\<lparr>by_port := AList.delete port (by_port g)\<rparr>
                   else g\<lparr>by_port := AList.update port s' (by_port g)\<rparr>)
           | None \<Rightarrow> g)
      | None \<Rightarrow> g\<lparr>by_port := AList.delete port (by_port g)\<rparr>)"

definition revoke_grantee :: "grants \<Rightarrow> endpoint_id \<Rightarrow> grants" where
  "revoke_grantee g peer =
     g\<lparr>by_port := filter (\<lambda>e. snd e \<noteq> []) (map (\<lambda>e. (fst e, removeAll peer (snd e))) (by_port g))\<rparr>"

definition allows :: "grants \<Rightarrow> u16 \<Rightarrow> endpoint_id \<Rightarrow> bool" where
  "allows g port peer =
     (case map_of (by_port g) port of None \<Rightarrow> False | Some s \<Rightarrow> peer \<in> set s)"

definition ports_for :: "grants \<Rightarrow> endpoint_id \<Rightarrow> u16 list" where
  "ports_for g peer = sort (map fst (filter (\<lambda>e. peer \<in> set (snd e)) (by_port g)))"

definition grants_ports :: "grants \<Rightarrow> u16 list" where
  "grants_ports g = sort (keys (by_port g))"

definition grants_all :: "grants \<Rightarrow> (u16 \<times> endpoint_id) list" where
  "grants_all g =
     sort_key fst (concat (map (\<lambda>e. map (\<lambda>k. (fst e, k)) (snd e)) (by_port g)))"

subsection \<open>Well-formedness\<close>

text \<open>A port is listed once, with a non-empty set of grantees.\<close>

definition grants_wf :: "grants \<Rightarrow> bool" where
  "grants_wf g \<longleftrightarrow> hash_ok (by_port g) \<and>
     (\<forall>e \<in> set (by_port g). distinct (snd e) \<and> snd e \<noteq> [])"

subsection \<open>The contract of a grant table\<close>

locale grant_table =
  fixes empty :: 'g
    and add :: "'g \<Rightarrow> 'p::linorder \<Rightarrow> 'k \<Rightarrow> 'g"
    and remove :: "'g \<Rightarrow> 'p \<Rightarrow> 'k option \<Rightarrow> 'g"
    and revoke :: "'g \<Rightarrow> 'k \<Rightarrow> 'g"
    and permits :: "'g \<Rightarrow> 'p \<Rightarrow> 'k \<Rightarrow> bool"
    and granted :: "'g \<Rightarrow> 'k \<Rightarrow> 'p list"
    and invar :: "'g \<Rightarrow> bool"
  assumes permits_empty: "\<not> permits empty p k"
    and permits_add: "invar g \<Longrightarrow> permits (add g q l) p k \<longleftrightarrow> (p = q \<and> k = l) \<or> permits g p k"
    and permits_remove: "invar g \<Longrightarrow> permits (remove g q t) p k \<longleftrightarrow>
          permits g p k \<and> \<not> (p = q \<and> (t = None \<or> t = Some k))"
    and permits_revoke: "invar g \<Longrightarrow> permits (revoke g l) p k \<longleftrightarrow> permits g p k \<and> k \<noteq> l"
    and granted_set: "invar g \<Longrightarrow> set (granted g k) = {p. permits g p k}"
    and granted_sorted: "invar g \<Longrightarrow> sorted (granted g k) \<and> distinct (granted g k)"
    and invar_empty: "invar empty"
    and invar_add: "invar g \<Longrightarrow> invar (add g p k)"
    and invar_remove: "invar g \<Longrightarrow> invar (remove g p t)"
    and invar_revoke: "invar g \<Longrightarrow> invar (revoke g k)"
begin

text \<open>Granting one key several ports, as a claimed invitation does.\<close>

lemma invar_add_ports: "invar g \<Longrightarrow> invar (fold (\<lambda>p g. add g p k) ps g)"
  by (induction ps arbitrary: g) (auto simp: invar_add)

lemma permits_add_ports:
  "invar g \<Longrightarrow> permits (fold (\<lambda>q g. add g q l) ps g) p k \<longleftrightarrow> (p \<in> set ps \<and> k = l) \<or> permits g p k"
  by (induction ps arbitrary: g) (auto simp: invar_add permits_add)

text \<open>Granting one port to several keys, as \<open>expose --to\<close> does.\<close>

lemma invar_add_keys: "invar g \<Longrightarrow> invar (fold (\<lambda>k g. add g p k) ks g)"
  by (induction ks arbitrary: g) (auto simp: invar_add)

lemma permits_add_keys:
  "invar g \<Longrightarrow> permits (fold (\<lambda>l g. add g q l) ks g) p k \<longleftrightarrow> (p = q \<and> k \<in> set ks) \<or> permits g p k"
  by (induction ks arbitrary: g) (auto simp: invar_add permits_add)

text \<open>The announced list is determined by the relation alone.\<close>

lemma granted_cong:
  assumes "invar g" "invar h" and "\<And>p. permits g p k \<longleftrightarrow> permits h p k"
  shows "granted g k = granted h k"
  using assms granted_set [of g k] granted_set [of h k] granted_sorted [of g k] granted_sorted [of h k]
  by (auto intro: sorted_distinct_set_unique)

lemma granted_empty_iff: "invar g \<Longrightarrow> granted g k = [] \<longleftrightarrow> (\<forall>p. \<not> permits g p k)"
  using granted_set [of g k] by (metis empty_Collect_eq set_empty)

end

subsection \<open>The code meets the contract\<close>

lemma allows_iff:
  "grants_wf g \<Longrightarrow> allows g p k \<longleftrightarrow> (\<exists>s. (p, s) \<in> set (by_port g) \<and> k \<in> set s)"
  by (auto simp: allows_def grants_wf_def hm.entry_iff split: option.splits)

lemma grants_wf_default [simp, wf_intros]: "grants_wf grants_default"
  by (simp add: grants_wf_def grants_default_def)

lemma grants_wf_add [wf_intros]:
  assumes "grants_wf g"
  shows "grants_wf (grants_add g p k)"
proof -
  have "\<forall>s. map_of (by_port g) p = Some s \<longrightarrow> distinct s"
    using assms by (auto simp: grants_wf_def dest!: map_of_SomeD)
  with assms show ?thesis
    by (auto simp: grants_wf_def grants_add_def Let_def hash_specs hm.entries_put
        split: option.splits)
qed

lemma grants_wf_remove [wf_intros]:
  assumes "grants_wf g"
  shows "grants_wf (grants_remove g p t)"
proof -
  have "\<forall>s. map_of (by_port g) p = Some s \<longrightarrow> distinct s"
    using assms by (auto simp: grants_wf_def dest!: map_of_SomeD)
  with assms show ?thesis
    by (auto simp: grants_wf_def grants_remove_def Let_def hash_specs hm.entries_put
        hm.entries_del distinct_removeAll split: option.splits)
qed

lemma grants_wf_revoke [wf_intros]:
  assumes "grants_wf g"
  shows "grants_wf (revoke_grantee g k)"
proof -
  have "distinct (keys (map (\<lambda>e. (fst e, removeAll k (snd e))) (by_port g)))"
    using assms by (simp add: grants_wf_def hash_ok_def comp_def)
  then show ?thesis using assms
    by (auto simp: grants_wf_def revoke_grantee_def hash_ok_def distinct_removeAll
        intro: distinct_fst_filter)
qed

lemma allows_default: "\<not> allows grants_default p k"
  by (simp add: allows_def grants_default_def)

lemma allows_add:
  "grants_wf g \<Longrightarrow> allows (grants_add g q l) p k \<longleftrightarrow> (p = q \<and> k = l) \<or> allows g p k"
  by (auto simp: allows_def grants_add_def grants_wf_def Let_def hash_specs split: option.splits)

lemma allows_remove:
  "grants_wf g \<Longrightarrow> allows (grants_remove g q t) p k \<longleftrightarrow>
     allows g p k \<and> \<not> (p = q \<and> (t = None \<or> t = Some k))"
  by (auto simp: allows_def grants_remove_def grants_wf_def Let_def hash_specs removeAll_eq_Nil
      split: option.splits if_splits)

lemma allows_revoke:
  assumes "grants_wf g"
  shows "allows (revoke_grantee g l) p k \<longleftrightarrow> allows g p k \<and> k \<noteq> l"
proof -
  have "(\<exists>s. (p, s) \<in> set (by_port (revoke_grantee g l)) \<and> k \<in> set s) \<longleftrightarrow>
      (\<exists>s. (p, s) \<in> set (by_port g) \<and> k \<in> set s) \<and> k \<noteq> l"
    by (force simp: revoke_grantee_def removeAll_eq_Nil image_iff)
  then show ?thesis
    using assms grants_wf_revoke [OF assms, of l] by (simp add: allows_iff)
qed

lemma ports_for_set: "grants_wf g \<Longrightarrow> set (ports_for g k) = {p. allows g p k}"
  by (force simp: ports_for_def allows_iff image_iff)

lemma ports_for_sorted: "grants_wf g \<Longrightarrow> sorted (ports_for g k) \<and> distinct (ports_for g k)"
  by (simp add: ports_for_def grants_wf_def hash_ok_def distinct_fst_filter)

interpretation gt: grant_table grants_default grants_add grants_remove revoke_grantee allows
  ports_for grants_wf
  by unfold_locales
    (simp_all add: allows_default allows_add allows_remove allows_revoke ports_for_set
      ports_for_sorted wf_intros)

subsection \<open>The whole table\<close>

lemma grants_ports_set:
  "grants_wf g \<Longrightarrow> set (grants_ports g) = {p. \<exists>k. allows g p k}"
proof -
  assume wf: "grants_wf g"
  have "p \<in> fst ` set (by_port g) \<longleftrightarrow> (\<exists>k s. (p, s) \<in> set (by_port g) \<and> k \<in> set s)" for p
    using wf by (force simp: grants_wf_def neq_Nil_conv)
  then show ?thesis using wf by (simp add: grants_ports_def allows_iff set_eq_iff)
qed

lemma grants_all_set:
  "grants_wf g \<Longrightarrow> set (grants_all g) = {(p, k). allows g p k}"
  by (auto simp: grants_all_def allows_iff)

lemma grants_all_sorted: "sorted (map fst (grants_all g))"
  by (simp add: grants_all_def)

end
