(* ===== verification/Store.thy ===== *)
theory Store
  imports Prelude
begin

text \<open>
  The file two stores of the daemon keep their records in: the pinned peers
  (\<open>src/enroll.rs\<close>, \<open>Pins\<close>) and the projected surfaces (\<open>src/surface.rs\<close>,
  \<open>SurfaceStore\<close>) are the same program over different records. This theory models the file and
  states the contract both keep, the locale \<open>keyed_store\<close>.
\<close>

subsection \<open>A file, and what the system calls on it do\<close>

text \<open>
  \<open>contents\<close> is None when the path does not exist. The three flags say whether reading the file,
  creating its directory and writing it succeed; \<open>torn\<close> is what a failed write leaves behind,
  since \<open>std::fs::write\<close> truncates first.
\<close>

record state_file =
  file_path :: string
  contents :: "bytes option"
  read_ok :: bool
  mkdir_ok :: bool
  write_ok :: bool
  torn :: "bytes option"

text \<open>\<open>serde_json\<close> on the records of a store; either direction may fail.\<close>

record 'r codec =
  serialize :: "'r list \<Rightarrow> bytes option"
  deserialize :: "bytes \<Rightarrow> 'r list option"

definition codec_ok :: "'r codec \<Rightarrow> bool" where
  "codec_ok c \<longleftrightarrow> (\<forall>rs. \<exists>b. serialize c rs = Some b \<and> deserialize c b = Some rs)"

definition json_load :: "'r codec \<Rightarrow> state_file \<Rightarrow> 'r list result" where
  "json_load c f =
     (case contents f of
        None \<Rightarrow> Inr []
      | Some data \<Rightarrow>
          if \<not> read_ok f then Inl (FailedToRead (file_path f))
          else (case deserialize c data of
                  None \<Rightarrow> Inl (FailedToParse (file_path f))
                | Some rs \<Rightarrow> Inr rs))"

definition json_save :: "'r codec \<Rightarrow> state_file \<Rightarrow> 'r list \<Rightarrow> unit result \<times> state_file" where
  "json_save c f rs =
     (if \<not> mkdir_ok f then (Inl (FailedToCreate (file_path f)), f)
      else case serialize c rs of
             None \<Rightarrow> (Inl FailedToSerialize, f)
           | Some data \<Rightarrow>
               if write_ok f then (Inr (), f\<lparr>contents := Some data\<rparr>)
               else (Inl (FailedToWrite (file_path f)), f\<lparr>contents := torn f\<rparr>))"

definition file_usable :: "state_file \<Rightarrow> bool" where
  "file_usable f \<longleftrightarrow> read_ok f \<and> mkdir_ok f \<and> write_ok f"

subsection \<open>The contract of a keyed store\<close>

locale keyed_store =
  fixes key_of :: "'r \<Rightarrow> string"
    and load :: "'r codec \<Rightarrow> state_file \<Rightarrow> 'r list result"
    and add :: "'r codec \<Rightarrow> state_file \<Rightarrow> 'r \<Rightarrow> unit result \<times> state_file"
    and remove :: "'r codec \<Rightarrow> state_file \<Rightarrow> string \<Rightarrow> unit result \<times> state_file"
  assumes load_absent: "contents f = None \<Longrightarrow> load c f = Inr []"
    and add_loaded: "codec_ok c \<Longrightarrow> file_usable f \<Longrightarrow> load c f = Inr rs \<Longrightarrow>
          fst (add c f r) = Inr () \<and> file_usable (snd (add c f r)) \<and>
          load c (snd (add c f r)) = Inr (filter (\<lambda>x. key_of x \<noteq> key_of r) rs @ [r])"
    and remove_loaded: "codec_ok c \<Longrightarrow> file_usable f \<Longrightarrow> load c f = Inr rs \<Longrightarrow>
          fst (remove c f k) = Inr () \<and> file_usable (snd (remove c f k)) \<and>
          load c (snd (remove c f k)) = Inr (filter (\<lambda>x. key_of x \<noteq> k) rs)"
    and add_unloadable: "load c f = Inl e \<Longrightarrow> add c f r = (Inl e, f)"
    and remove_unloadable: "load c f = Inl e \<Longrightarrow> remove c f k = (Inl e, f)"
begin

lemma add_keys_distinct:
  assumes "codec_ok c" "file_usable f" "load c f = Inr rs" "distinct (map key_of rs)"
    and "load c (snd (add c f r)) = Inr rs'"
  shows "distinct (map key_of rs')"
proof -
  have "rs' = filter (\<lambda>x. key_of x \<noteq> key_of r) rs @ [r]"
    using add_loaded [OF assms(1-3)] assms(5) by simp
  then show ?thesis using assms(4) by (auto simp: distinct_map_filter)
qed

lemma added_is_found:
  assumes "codec_ok c" "file_usable f" "load c f = Inr rs"
  shows "\<exists>rs'. load c (snd (add c f r)) = Inr rs' \<and> r \<in> set rs' \<and>
    (\<forall>x \<in> set rs'. key_of x = key_of r \<longrightarrow> x = r) \<and>
    (\<forall>x. key_of x \<noteq> key_of r \<longrightarrow> (x \<in> set rs' \<longleftrightarrow> x \<in> set rs))"
  using add_loaded [OF assms] by auto

lemma removed_is_gone:
  assumes "codec_ok c" "file_usable f" "load c f = Inr rs"
  shows "\<exists>rs'. load c (snd (remove c f k)) = Inr rs' \<and>
    (\<forall>x. x \<in> set rs' \<longleftrightarrow> x \<in> set rs \<and> key_of x \<noteq> k)"
  using remove_loaded [OF assms] by auto

text \<open>Storing a second record under the same key leaves the second one alone in its place.\<close>

lemma add_replaces:
  assumes "codec_ok c" "file_usable f" "load c f = Inr rs" and "key_of r' = key_of r"
  shows "load c (snd (add c (snd (add c f r)) r')) = load c (snd (add c f r'))"
proof -
  have one: "file_usable (snd (add c f r))"
    "load c (snd (add c f r)) = Inr (filter (\<lambda>x. key_of x \<noteq> key_of r) rs @ [r])"
    using add_loaded [OF assms(1-3)] by auto
  show ?thesis
    using add_loaded [OF assms(1) one] add_loaded [OF assms(1-3), of r'] assms(4) by simp
qed

lemma add_then_remove:
  assumes "codec_ok c" "file_usable f" "load c f = Inr rs"
  shows "load c (snd (remove c (snd (add c f r)) (key_of r))) =
    load c (snd (remove c f (key_of r)))"
proof -
  have one: "file_usable (snd (add c f r))"
    "load c (snd (add c f r)) = Inr (filter (\<lambda>x. key_of x \<noteq> key_of r) rs @ [r])"
    using add_loaded [OF assms] by auto
  show ?thesis
    using remove_loaded [OF assms(1) one, of "key_of r"] remove_loaded [OF assms, of "key_of r"]
    by simp
qed

end

subsection \<open>Saving and loading\<close>

lemma json_load_absent: "contents f = None \<Longrightarrow> json_load c f = Inr []"
  by (simp add: json_load_def)

lemma json_save_load:
  assumes "codec_ok c" "file_usable f"
  shows "fst (json_save c f rs) = Inr () \<and> file_usable (snd (json_save c f rs)) \<and>
    json_load c (snd (json_save c f rs)) = Inr rs"
proof -
  obtain b where "serialize c rs = Some b" "deserialize c b = Some rs"
    using assms(1) unfolding codec_ok_def by blast
  then show ?thesis
    using assms(2) by (simp add: json_save_def json_load_def file_usable_def)
qed

text \<open>A store that cannot be read, parsed or created is left as it was.\<close>

lemma json_save_unwritten:
  "\<not> mkdir_ok f \<Longrightarrow> json_save c f rs = (Inl (FailedToCreate (file_path f)), f)"
  by (simp add: json_save_def)

end
