(* ===== verification/Rust_String.thy ===== *)
theory Rust_String
  imports Prelude
begin

text \<open>
  The string operations of the Rust standard library the sources use. A \<open>String\<close> is the list of
  its UTF-8 bytes, each a HOL character, so operations that Rust defines on code points
  (\<open>trim\<close>, \<open>chars().take\<close>, \<open>from_utf8_lossy\<close>) are written out on the encoding.
\<close>

subsection \<open>Splitting and stripping\<close>

definition strip_prefix :: "string \<Rightarrow> string \<Rightarrow> string option" where
  "strip_prefix p s = (if take (length p) s = p then Some (drop (length p) s) else None)"

definition strip_suffix :: "string \<Rightarrow> string \<Rightarrow> string option" where
  "strip_suffix p s = map_option rev (strip_prefix (rev p) (rev s))"

definition split_once :: "char \<Rightarrow> string \<Rightarrow> (string \<times> string) option" where
  "split_once c s =
     (case dropWhile (\<lambda>x. x \<noteq> c) s of
        [] \<Rightarrow> None
      | _ # rest \<Rightarrow> Some (takeWhile (\<lambda>x. x \<noteq> c) s, rest))"

fun join :: "string \<Rightarrow> string list \<Rightarrow> string" where
  "join sep [] = []"
| "join sep [s] = s"
| "join sep (s # t # ts) = s @ sep @ join sep (t # ts)"

subsection \<open>White space\<close>

text \<open>The code points with the property \<open>White_Space\<close>, encoded.\<close>

definition white_space :: "string list" where
  "white_space = map (map char_of)
     ([[9], [10], [11], [12], [13], [32], [0xC2, 0x85], [0xC2, 0xA0], [0xE1, 0x9A, 0x80],
       [0xE2, 0x80, 0x80], [0xE2, 0x80, 0x81], [0xE2, 0x80, 0x82], [0xE2, 0x80, 0x83],
       [0xE2, 0x80, 0x84], [0xE2, 0x80, 0x85], [0xE2, 0x80, 0x86], [0xE2, 0x80, 0x87],
       [0xE2, 0x80, 0x88], [0xE2, 0x80, 0x89], [0xE2, 0x80, 0x8A], [0xE2, 0x80, 0xA8],
       [0xE2, 0x80, 0xA9], [0xE2, 0x80, 0xAF], [0xE2, 0x81, 0x9F],
       [0xE3, 0x80, 0x80]] :: nat list list)"

definition starts_with_any :: "string list \<Rightarrow> string \<Rightarrow> string option" where
  "starts_with_any ws s = find (\<lambda>w. w \<noteq> [] \<and> take (length w) s = w) ws"

lemma starts_with_any_shrinks:
  "starts_with_any ws s = Some w \<Longrightarrow> length s - length w < length s"
  by (cases s) (auto simp: starts_with_any_def find_Some_iff)

function strip_ws :: "string list \<Rightarrow> string \<Rightarrow> string" where
  "strip_ws ws s =
     (case starts_with_any ws s of None \<Rightarrow> s | Some w \<Rightarrow> strip_ws ws (drop (length w) s))"
  by pat_completeness auto
termination
  by (relation "measure (length \<circ> snd)") (auto dest: starts_with_any_shrinks)

declare strip_ws.simps [simp del]

definition trim :: "string \<Rightarrow> string" where
  "trim s = rev (strip_ws (map rev white_space) (rev (strip_ws white_space s)))"

subsection \<open>Case, code points, UTF-8\<close>

definition is_upper :: "char \<Rightarrow> bool" where
  "is_upper c \<longleftrightarrow> (of_char c :: nat) \<in> {65..90}"

definition lower_char :: "char \<Rightarrow> char" where
  "lower_char c = (if is_upper c then char_of ((of_char c :: nat) + 32) else c)"

definition to_ascii_lowercase :: "string \<Rightarrow> string" where
  "to_ascii_lowercase s = map lower_char s"

text \<open>A byte that does not start a code point is \<open>10xxxxxx\<close>.\<close>

definition is_continuation :: "char \<Rightarrow> bool" where
  "is_continuation c \<longleftrightarrow> (of_char c :: nat) \<in> {0x80..0xBF}"

fun take_chars :: "nat \<Rightarrow> string \<Rightarrow> string" where
  "take_chars n [] = []"
| "take_chars n (c # s) =
     (if is_continuation c then c # take_chars n s
      else case n of 0 \<Rightarrow> [] | Suc m \<Rightarrow> c # take_chars m s)"

definition byte_at :: "bytes \<Rightarrow> nat \<Rightarrow> u8" where
  "byte_at bs i = (if i < length bs then bs ! i else 0)"

definition cont_byte :: "u8 \<Rightarrow> bool" where
  "cont_byte b \<longleftrightarrow> 0x80 \<le> b \<and> b \<le> 0xBF"

definition second_of_three :: "u8 \<Rightarrow> u8 \<Rightarrow> bool" where
  "second_of_three b x \<longleftrightarrow>
     (if b = 0xE0 then 0xA0 \<le> x \<and> x \<le> 0xBF
      else if b = 0xED then 0x80 \<le> x \<and> x \<le> 0x9F
      else cont_byte x)"

definition second_of_four :: "u8 \<Rightarrow> u8 \<Rightarrow> bool" where
  "second_of_four b x \<longleftrightarrow>
     (if b = 0xF0 then 0x90 \<le> x \<and> x \<le> 0xBF
      else if b = 0xF4 then 0x80 \<le> x \<and> x \<le> 0x8F
      else cont_byte x)"

text \<open>How many bytes after \<open>b\<close> belong to its chunk, and whether the chunk is well formed.\<close>

definition utf8_chunk :: "u8 \<Rightarrow> bytes \<Rightarrow> nat \<times> bool" where
  "utf8_chunk b rest =
     (if b < 0x80 then (0, True)
      else if 0xC2 \<le> b \<and> b \<le> 0xDF then
        (if cont_byte (byte_at rest 0) then (1, True) else (0, False))
      else if 0xE0 \<le> b \<and> b \<le> 0xEF then
        (if \<not> second_of_three b (byte_at rest 0) then (0, False)
         else if cont_byte (byte_at rest 1) then (2, True) else (1, False))
      else if 0xF0 \<le> b \<and> b \<le> 0xF4 then
        (if \<not> second_of_four b (byte_at rest 0) then (0, False)
         else if \<not> cont_byte (byte_at rest 1) then (1, False)
         else if cont_byte (byte_at rest 2) then (3, True) else (2, False))
      else (0, False))"

definition replacement_character :: bytes where
  "replacement_character = [0xEF, 0xBF, 0xBD]"

function utf8_lossy_bytes :: "bytes \<Rightarrow> bytes" where
  "utf8_lossy_bytes [] = []"
| "utf8_lossy_bytes (b # rest) =
     (if snd (utf8_chunk b rest) then b # take (fst (utf8_chunk b rest)) rest
      else replacement_character) @
     utf8_lossy_bytes (drop (fst (utf8_chunk b rest)) rest)"
  by pat_completeness auto
termination
  by (relation "measure length") auto

definition char_of_u8 :: "u8 \<Rightarrow> char" where
  "char_of_u8 b = char_of (unat b)"

definition u8_of_char :: "char \<Rightarrow> u8" where
  "u8_of_char c = of_nat (of_char c)"

definition as_str_bytes :: "string \<Rightarrow> bytes" where
  "as_str_bytes s = map u8_of_char s"

definition from_utf8_lossy :: "bytes \<Rightarrow> string" where
  "from_utf8_lossy bs = map char_of_u8 (utf8_lossy_bytes bs)"

subsection \<open>Hexadecimal\<close>

definition hex_digits :: string where
  "hex_digits = ''0123456789abcdef''"

definition hex_byte :: "u8 \<Rightarrow> string" where
  "hex_byte b = [hex_digits ! (unat b div 16), hex_digits ! (unat b mod 16)]"

definition hex_bytes :: "bytes \<Rightarrow> string" where
  "hex_bytes bs = concat (map hex_byte bs)"

subsection \<open>Lemmas: splitting\<close>

lemma split_once_append:
  "c \<notin> set s \<Longrightarrow> split_once c (s @ c # t) = Some (s, t)"
proof -
  assume c: "c \<notin> set s"
  then have "dropWhile (\<lambda>x. x \<noteq> c) (s @ c # t) = c # t"
    by (subst dropWhile_append2) auto
  moreover from c have "takeWhile (\<lambda>x. x \<noteq> c) (s @ c # t) = s"
    by (subst takeWhile_append2) auto
  ultimately show ?thesis by (simp add: split_once_def)
qed

lemma split_once_none [simp]: "c \<notin> set s \<Longrightarrow> split_once c s = None"
proof -
  assume "c \<notin> set s"
  then have "dropWhile (\<lambda>x. x \<noteq> c) s = []" by auto
  then show ?thesis by (simp only: split_once_def list.case)
qed

lemma split_once_some:
  assumes "split_once c s = Some (a, b)"
  shows "s = a @ c # b \<and> c \<notin> set a"
proof -
  have d: "dropWhile (\<lambda>x. x \<noteq> c) s \<noteq> []" "b = tl (dropWhile (\<lambda>x. x \<noteq> c) s)"
    and a: "a = takeWhile (\<lambda>x. x \<noteq> c) s"
    using assms unfolding split_once_def
    by (cases "dropWhile (\<lambda>x. x \<noteq> c) s"; simp)+
  have "hd (dropWhile (\<lambda>x. x \<noteq> c) s) = c"
    using hd_dropWhile [OF d(1)] by simp
  then have "dropWhile (\<lambda>x. x \<noteq> c) s = c # b"
    using d by (metis list.collapse)
  then have "s = a @ c # b"
    using a by (metis takeWhile_dropWhile_id)
  moreover have "c \<notin> set a"
    using a set_takeWhileD [of c "\<lambda>x. x \<noteq> c" s] by auto
  ultimately show ?thesis by simp
qed

lemma strip_prefix_some [simp]: "strip_prefix p (p @ s) = Some s"
  by (simp add: strip_prefix_def)

lemma strip_prefix_iff: "strip_prefix p s = Some t \<longleftrightarrow> s = p @ t"
  by (auto simp: strip_prefix_def) (metis append_take_drop_id)

lemma strip_suffix_iff: "strip_suffix p s = Some t \<longleftrightarrow> s = t @ p"
  by (auto simp: strip_suffix_def strip_prefix_iff) (metis rev_append rev_rev_ident)

lemma strip_suffix_none_iff: "strip_suffix p s = None \<longleftrightarrow> (\<nexists>t. s = t @ p)"
  using strip_suffix_iff [of p s] by (cases "strip_suffix p s") auto

subsection \<open>Lemmas: trimming\<close>

definition graphic :: "char \<Rightarrow> bool" where
  "graphic c \<longleftrightarrow> (of_char c :: nat) \<in> {33..126}"

lemma white_space_not_graphic:
  "w \<in> set white_space \<Longrightarrow> w \<noteq> [] \<and> \<not> graphic (hd w) \<and> \<not> graphic (last w)"
  by (auto simp: white_space_def graphic_def)

lemma starts_with_none:
  assumes "\<forall>w \<in> set ws. w \<noteq> [] \<longrightarrow> \<not> graphic (hd w)" and "s = [] \<or> graphic (hd s)"
  shows "starts_with_any ws s = None"
  using assms by (cases s) (auto simp: starts_with_any_def find_None_iff neq_Nil_conv)

lemma strip_ws_id:
  assumes "\<forall>w \<in> set ws. w \<noteq> [] \<longrightarrow> \<not> graphic (hd w)" and "s = [] \<or> graphic (hd s)"
  shows "strip_ws ws s = s"
  by (subst strip_ws.simps) (simp add: starts_with_none [OF assms])

lemma trim_id:
  assumes "s = [] \<or> graphic (hd s) \<and> graphic (last s)"
  shows "trim s = s"
proof -
  have "strip_ws white_space s = s"
    using assms white_space_not_graphic by (intro strip_ws_id) auto
  moreover have "strip_ws (map rev white_space) (rev s) = rev s"
    using assms white_space_not_graphic by (intro strip_ws_id) (auto simp: hd_rev)
  ultimately show ?thesis by (simp add: trim_def)
qed

lemma strip_ws_spaces:
  assumes "[x] \<in> set ws" "\<forall>w \<in> set ws. w \<noteq> [] \<longrightarrow> hd w = x \<longrightarrow> w = [x]"
  shows "strip_ws ws (x # s) = strip_ws ws s"
proof -
  have "starts_with_any ws (x # s) = Some [x]"
  proof (cases "starts_with_any ws (x # s)")
    case None
    with assms(1) show ?thesis by (auto simp: starts_with_any_def find_None_iff)
  next
    case (Some w)
    then have "w \<in> set ws" "w \<noteq> []" "take (length w) (x # s) = w"
      by (auto simp: starts_with_any_def find_Some_iff)
    with assms(2) Some show ?thesis by (cases w) auto
  qed
  then show ?thesis by (subst strip_ws.simps) simp
qed

subsection \<open>Lemmas: case, code points, hexadecimal\<close>

lemma lower_char_not_upper: "\<not> is_upper (lower_char c)"
  by (auto simp: lower_char_def is_upper_def)

lemma lower_char_id [simp]: "\<not> is_upper c \<Longrightarrow> lower_char c = c"
  by (simp add: lower_char_def)

lemma to_ascii_lowercase_no_upper: "\<forall>c \<in> set (to_ascii_lowercase s). \<not> is_upper c"
  by (auto simp: to_ascii_lowercase_def lower_char_not_upper)

lemma to_ascii_lowercase_id [simp]:
  "\<forall>c \<in> set s. \<not> is_upper c \<Longrightarrow> to_ascii_lowercase s = s"
  by (induction s) (auto simp: to_ascii_lowercase_def)

lemma take_chars_prefix: "\<exists>t. s = take_chars n s @ t"
  by (induction n s rule: take_chars.induct) (auto split: nat.splits)

lemma take_chars_ascii:
  "\<forall>c \<in> set s. graphic c \<Longrightarrow> take_chars n s = take n s"
  by (induction n s rule: take_chars.induct)
    (auto simp: graphic_def is_continuation_def split: nat.splits)

lemma utf8_chunk_ascii [simp]: "b < 0x80 \<Longrightarrow> utf8_chunk b rest = (0, True)"
  by (simp add: utf8_chunk_def)

lemma from_utf8_lossy_ascii:
  "\<forall>b \<in> set bs. b < 0x80 \<Longrightarrow> from_utf8_lossy bs = map char_of_u8 bs"
  by (induction bs) (simp_all add: from_utf8_lossy_def)

lemma char_of_u8_of_char [simp]: "char_of_u8 (u8_of_char c) = c"
  by (simp add: char_of_u8_def u8_of_char_def unat_of_nat)

lemma hex_digit_distinct: "distinct hex_digits"
  by (simp add: hex_digits_def)

end
