(* ===== verification/Enroll.thy ===== *)
theory Enroll
  imports Store Rust_String
begin

text \<open>
  Enrollment (\<open>src/enroll.rs\<close>): the one-time codes an inviter mints, and the pinned peers it
  remembers across restarts. Time is a parameter: an \<open>Instant\<close> is a number of nanoseconds, and
  the random bytes of a code are an argument of \<open>mint\<close>.
\<close>

subsection \<open>One-time codes\<close>

type_synonym instant = nat

definition secs :: "nat \<Rightarrow> nat" where
  "secs n = n * 1000000000"

definition TOKEN_TTL :: nat where
  "TOKEN_TTL = secs (5 * 60)"

record pending_token =
  token_name :: "string option"
  token_ports :: "u16 list"
  expires :: instant

record claimed =
  claimed_name :: "string option"
  claimed_ports :: "u16 list"

record tokens =
  pending_tokens :: "(string \<times> pending_token) list"

definition tokens_default :: tokens where
  "tokens_default = \<lparr>pending_tokens = []\<rparr>"

definition mint_with_ttl ::
  "tokens \<Rightarrow> string option \<Rightarrow> u16 list \<Rightarrow> nat \<Rightarrow> bytes \<Rightarrow> instant \<Rightarrow> string \<times> tokens" where
  "mint_with_ttl ts name ports ttl rnd now =
     (let token = hex_bytes rnd
      in (token, ts\<lparr>pending_tokens := AList.update token
            \<lparr>token_name = name, token_ports = ports, expires = now + ttl\<rparr> (pending_tokens ts)\<rparr>))"

definition mint ::
  "tokens \<Rightarrow> string option \<Rightarrow> u16 list \<Rightarrow> bytes \<Rightarrow> instant \<Rightarrow> string \<times> tokens" where
  "mint ts name ports rnd now = mint_with_ttl ts name ports TOKEN_TTL rnd now"

definition claim :: "tokens \<Rightarrow> string \<Rightarrow> instant \<Rightarrow> claimed option \<times> tokens" where
  "claim ts token now =
     (let live = filter (\<lambda>e. expires (snd e) > now) (pending_tokens ts)
      in (map_option (\<lambda>t. \<lparr>claimed_name = token_name t, claimed_ports = token_ports t\<rparr>)
            (map_of live token),
          ts\<lparr>pending_tokens := AList.delete token live\<rparr>))"

definition tokens_wf :: "tokens \<Rightarrow> bool" where
  "tokens_wf ts \<longleftrightarrow> hash_ok (pending_tokens ts)"

text \<open>What a code is worth at an instant: the invitation it would be exchanged for.\<close>

definition worth :: "tokens \<Rightarrow> instant \<Rightarrow> string \<Rightarrow> claimed option" where
  "worth ts now token =
     (case map_of (pending_tokens ts) token of
        None \<Rightarrow> None
      | Some t \<Rightarrow> if now < expires t
                  then Some \<lparr>claimed_name = token_name t, claimed_ports = token_ports t\<rparr>
                  else None)"

subsection \<open>Pinned peers\<close>

record pin =
  pin_key :: string
  pin_label :: "string option"

definition pins_load :: "pin codec \<Rightarrow> state_file \<Rightarrow> pin list result" where
  "pins_load c f = json_load c f"

definition pins_save :: "pin codec \<Rightarrow> state_file \<Rightarrow> pin list \<Rightarrow> unit result \<times> state_file" where
  "pins_save c f pins = json_save c f pins"

definition pins_add :: "pin codec \<Rightarrow> state_file \<Rightarrow> string \<Rightarrow> string option \<Rightarrow> unit result \<times> state_file" where
  "pins_add c f key label =
     (case pins_load c f of
        Inl e \<Rightarrow> (Inl e, f)
      | Inr pins \<Rightarrow>
          pins_save c f (filter (\<lambda>p. pin_key p \<noteq> key) pins @ [\<lparr>pin_key = key, pin_label = label\<rparr>]))"

definition pins_remove :: "pin codec \<Rightarrow> state_file \<Rightarrow> string \<Rightarrow> unit result \<times> state_file" where
  "pins_remove c f key =
     (case pins_load c f of
        Inl e \<Rightarrow> (Inl e, f)
      | Inr pins \<Rightarrow> pins_save c f (filter (\<lambda>p. pin_key p \<noteq> key) pins))"

subsection \<open>The contract of a code store\<close>

locale code_store =
  fixes offer :: "'s \<Rightarrow> 'i \<Rightarrow> nat \<Rightarrow> 'r \<Rightarrow> nat \<Rightarrow> 'c \<times> 's"
    and redeem :: "'s \<Rightarrow> 'c \<Rightarrow> nat \<Rightarrow> 'i option \<times> 's"
    and value_of :: "'s \<Rightarrow> nat \<Rightarrow> 'c \<Rightarrow> 'i option"
    and sane :: "'s \<Rightarrow> bool"
  assumes value_offer: "sane s \<Longrightarrow> offer s i ttl r now = (c, s') \<Longrightarrow>
          value_of s' t d = (if d = c then (if t < now + ttl then Some i else None) else value_of s t d)"
    and redeem_value: "sane s \<Longrightarrow> fst (redeem s c now) = value_of s now c"
    and value_redeem: "sane s \<Longrightarrow> now \<le> t \<Longrightarrow>
          value_of (snd (redeem s c now)) t d = (if d = c then None else value_of s t d)"
    and value_expires: "value_of s t c = None \<Longrightarrow> t \<le> t' \<Longrightarrow> value_of s t' c = None"
    and sane_offer: "sane s \<Longrightarrow> sane (snd (offer s i ttl r now))"
    and sane_redeem: "sane s \<Longrightarrow> sane (snd (redeem s c now))"
begin

lemma redeemed_once:
  assumes "sane s" "now \<le> t"
  shows "fst (redeem (snd (redeem s c now)) c t) = None"
  using assms by (simp add: redeem_value sane_redeem value_redeem)

text \<open>A run of claims at non-decreasing instants, and who got what.\<close>

primrec redeem_all :: "'s \<Rightarrow> ('c \<times> nat) list \<Rightarrow> 'i option list" where
  "redeem_all s [] = []"
| "redeem_all s (e # es) =
     fst (redeem s (fst e) (snd e)) # redeem_all (snd (redeem s (fst e) (snd e))) es"

lemma worthless_never_redeems:
  assumes "sane s" "value_of s now c = None" "sorted (map snd es)" "\<forall>e \<in> set es. now \<le> snd e"
  shows "\<forall>i < length es. fst (es ! i) = c \<longrightarrow> redeem_all s es ! i = None"
  using assms
proof (induction es arbitrary: s now)
  case Nil
  then show ?case by simp
next
  case (Cons e es)
  let ?s = "snd (redeem s (fst e) (snd e))"
  have later: "\<forall>x \<in> set es. snd e \<le> snd x" using Cons.prems(3) by auto
  have v: "value_of s (snd e) c = None"
    using Cons.prems(2,4) value_expires by auto
  then have "value_of ?s (snd e) c = None"
    using Cons.prems(1) by (simp add: value_redeem)
  then have IH: "\<forall>i < length es. fst (es ! i) = c \<longrightarrow> redeem_all ?s es ! i = None"
    using Cons.IH [of ?s "snd e"] Cons.prems(1,3) later by (simp add: sane_redeem)
  show ?case
  proof (intro allI impI)
    fix i assume i: "i < length (e # es)" "fst ((e # es) ! i) = c"
    show "redeem_all s (e # es) ! i = None"
      using i IH v Cons.prems(1) by (cases i) (auto simp: redeem_value)
  qed
qed

lemma at_most_one_claim:
  assumes "sane s" "sorted (map snd es)" "i < j" "j < length es"
    and "fst (es ! i) = c" "fst (es ! j) = c"
  shows "redeem_all s es ! j = None"
  using assms
proof (induction es arbitrary: s i j)
  case Nil
  then show ?case by simp
next
  case (Cons e es)
  let ?s = "snd (redeem s (fst e) (snd e))"
  obtain j' where j: "j = Suc j'" using Cons.prems(3) by (cases j) auto
  show ?case
  proof (cases i)
    case 0
    then have "value_of ?s (snd e) c = None"
      using Cons.prems(1,5) by (simp add: value_redeem)
    then have "\<forall>i < length es. fst (es ! i) = c \<longrightarrow> redeem_all ?s es ! i = None"
      using Cons.prems(1,2) by (intro worthless_never_redeems) (auto simp: sane_redeem)
    then show ?thesis using Cons.prems j by simp
  next
    case (Suc i')
    then show ?thesis
      using Cons.IH [of ?s i' j'] Cons.prems j by (simp add: sane_redeem)
  qed
qed

end

subsection \<open>The code meets the contract\<close>

lemma tokens_wf_default [simp, wf_intros]: "tokens_wf tokens_default"
  by (simp add: tokens_wf_def tokens_default_def)

lemma tokens_wf_mint_with_ttl [wf_intros]:
  "tokens_wf ts \<Longrightarrow> tokens_wf (snd (mint_with_ttl ts name ports ttl rnd now))"
  by (simp add: tokens_wf_def mint_with_ttl_def Let_def hash_specs)

lemma tokens_wf_claim [wf_intros]: "tokens_wf ts \<Longrightarrow> tokens_wf (snd (claim ts token now))"
  by (simp add: tokens_wf_def claim_def Let_def hash_ok_def distinct_fst_filter distinct_delete)

lemmas map_of_unexpired = map_of_live [where P = "\<lambda>t. now < expires t" for now]

lemma worth_mint:
  assumes "mint_with_ttl ts (claimed_name i) (claimed_ports i) ttl rnd now = (c, ts')"
  shows "worth ts' t d = (if d = c then (if t < now + ttl then Some i else None) else worth ts t d)"
  using assms by (auto simp: mint_with_ttl_def Let_def worth_def update_conv')

lemma claim_worth: "tokens_wf ts \<Longrightarrow> fst (claim ts token now) = worth ts now token"
  by (auto simp: claim_def Let_def worth_def tokens_wf_def map_of_unexpired split: option.splits)

lemma worth_claim:
  "tokens_wf ts \<Longrightarrow> now \<le> t \<Longrightarrow>
     worth (snd (claim ts token now)) t d = (if d = token then None else worth ts t d)"
  by (auto simp: claim_def Let_def worth_def tokens_wf_def map_of_unexpired delete_conv'
      split: option.splits)

lemma worth_expires: "worth ts t c = None \<Longrightarrow> t \<le> t' \<Longrightarrow> worth ts t' c = None"
  by (auto simp: worth_def split: option.splits if_splits)

interpretation cs: code_store
  "\<lambda>ts i ttl rnd now. mint_with_ttl ts (claimed_name i) (claimed_ports i) ttl rnd now"
  claim worth tokens_wf
  by unfold_locales
    (auto simp: worth_mint claim_worth worth_claim wf_intros dest: worth_expires)

subsection \<open>Pins meet the contract of a keyed store\<close>

interpretation pins: keyed_store pin_key pins_load "\<lambda>c f p. pins_add c f (pin_key p) (pin_label p)"
  pins_remove
  by unfold_locales
    (auto simp: pins_load_def pins_save_def pins_add_def pins_remove_def json_load_absent json_save_load)

subsection \<open>Properties\<close>

text \<open>A run of claims, each at its instant, and what each returned.\<close>

primrec claim_all :: "tokens \<Rightarrow> (string \<times> instant) list \<Rightarrow> claimed option list" where
  "claim_all ts [] = []"
| "claim_all ts (e # es) =
     (case claim ts (fst e) (snd e) of (c, ts') \<Rightarrow> c # claim_all ts' es)"

lemma claim_all_redeem_all: "claim_all ts es = cs.redeem_all ts es"
  by (induction es arbitrary: ts) (auto split: prod.splits)

text \<open>However many claims of one code arrive, in any order in time and mixed with claims of
  other codes, at most one of them succeeds; the later ones all fail, whoever sends them.\<close>

theorem code_claimed_at_most_once:
  assumes "tokens_wf ts" "sorted (map snd es)" "i < j" "j < length es" "fst (es ! i) = fst (es ! j)"
  shows "claim_all ts es ! j = None"
  using cs.at_most_one_claim [OF assms(1-4) assms(5) refl] by (simp only: claim_all_redeem_all)

theorem code_claimed_at_most_once_witness:
  "claim_all (snd (mint tokens_default (Some ''laptop'') [80] [1, 2] 0))
     [(hex_bytes [1, 2], 5), (''00'', 6), (hex_bytes [1, 2], 7)] ! 2 = None"
proof -
  have "tokens_wf (snd (mint tokens_default (Some ''laptop'') [80] [1, 2] 0))"
    by (simp add: mint_def wf_intros)
  then show ?thesis
    using code_claimed_at_most_once [of _ "[(hex_bytes [1, 2], 5), (''00'', 6), (hex_bytes [1, 2], 7)]" 0 2]
    by simp
qed

end
