(* ===== verification/Protocol.thy ===== *)
theory Protocol
  imports Prelude
begin

text \<open>
  The messages of the system (\<open>src/protocol.rs\<close>): what the command line asks the daemon, what
  the daemon answers, and what two daemons send each other. Their JSON encoding is serde's and is
  a parameter where bytes matter. An error travels as its constructor instead of its text.
\<close>

definition ALPN :: string where
  "ALPN = ''PAI_SHO/1''"

definition VERSION :: string where
  "VERSION = ''0.5.5-dev''"

datatype request =
    ReqInvite "string option" "string option" "u16 list"
  | ReqAccept string "string option"
  | ReqForget string
  | ReqExpose u16 "string list" bool
  | ReqUnexpose u16 "string option"
  | ReqList
  | ReqKey
  | ReqProject string "string option" "string option"
  | ReqUnproject string

record grant_info =
  gi_port :: u16
  gi_to :: string

record peer_info =
  pi_key :: string
  pi_name :: "string option"
  pi_version :: "string option"
  pi_online :: bool
  pi_admission :: string
  pi_they_expose :: "u16 list"
  pi_ip :: "string option"
  pi_bound :: "u16 list"

record list_info =
  li_me :: string
  li_cli :: string
  li_daemon :: string
  li_peers :: "peer_info list"
  li_i_expose :: "u16 list"
  li_grants :: "grant_info list"

datatype response =
    RespOk
  | RespKey string
  | RespList list_info
  | RespInvite string
  | RespError error

datatype peer_message =
    ExposedPorts "u16 list"
  | Connect u16
  | Enroll string "string option"
  | PeerError string

definition enroll_message :: "string \<Rightarrow> peer_message" where
  "enroll_message token = Enroll token (Some VERSION)"

end
