(* ===== verification/Invite.thy ===== *)
theory Invite
  imports Rust_String
begin

text \<open>
  Invitations (\<open>src/core/invite.rs\<close>): \<open><key>.<code>\<close>, or a bare key. Printing and parsing a key
  are iroh's and are the arguments \<open>show_key\<close> and \<open>parse_key\<close>.
\<close>

definition SEP :: char where
  "SEP = CHR ''.''"

record invite =
  inv_key :: endpoint_id
  inv_code :: string

definition invite_to_string :: "(endpoint_id \<Rightarrow> string) \<Rightarrow> invite \<Rightarrow> string" where
  "invite_to_string show_key i = show_key (inv_key i) @ [SEP] @ inv_code i"

datatype handle = HInvite invite | HKey endpoint_id

fun handle_key :: "handle \<Rightarrow> endpoint_id" where
  "handle_key (HInvite i) = inv_key i"
| "handle_key (HKey k) = k"

fun handle_code :: "handle \<Rightarrow> string option" where
  "handle_code (HInvite i) = Some (inv_code i)"
| "handle_code (HKey k) = None"

definition handle_from_str :: "(string \<Rightarrow> endpoint_id option) \<Rightarrow> string \<Rightarrow> handle result" where
  "handle_from_str parse_key str =
     (let s = trim str in
      case split_once SEP s of
        Some (key, code) \<Rightarrow>
          if code = [] then Inl InvitationHasNoCode
          else (case parse_key key of
                  None \<Rightarrow> Inl InvitationInvalidKey
                | Some k \<Rightarrow> Inr (HInvite \<lparr>inv_key = k, inv_code = code\<rparr>))
      | None \<Rightarrow>
          (case parse_key s of
             None \<Rightarrow> Inl InvalidKey
           | Some k \<Rightarrow> Inr (HKey k)))"

text \<open>What the code relies on of iroh: a printed key parses back, and is a non-empty run of
  visible ASCII characters without the separator.\<close>

definition key_codec :: "(endpoint_id \<Rightarrow> string) \<Rightarrow> (string \<Rightarrow> endpoint_id option) \<Rightarrow> bool" where
  "key_codec show_key parse_key \<longleftrightarrow>
     (\<forall>k. parse_key (show_key k) = Some k \<and> show_key k \<noteq> [] \<and> SEP \<notin> set (show_key k) \<and>
        (\<forall>c \<in> set (show_key k). graphic c))"

subsection \<open>A concrete codec: a key as its bytes, each in hexadecimal after a mark\<close>

definition hex_value :: "char \<Rightarrow> nat" where
  "hex_value c = length (takeWhile (\<lambda>d. d \<noteq> c) hex_digits)"

fun unhex :: "string \<Rightarrow> bytes option" where
  "unhex [] = Some []"
| "unhex (a # b # s) =
     (if a \<in> set hex_digits \<and> b \<in> set hex_digits
      then map_option (\<lambda>bs. of_nat (16 * hex_value a + hex_value b) # bs) (unhex s)
      else None)"
| "unhex [a] = None"

definition hex_show :: "endpoint_id \<Rightarrow> string" where
  "hex_show k = CHR ''k'' # hex_bytes (as_bytes k)"

fun hex_parse :: "string \<Rightarrow> endpoint_id option" where
  "hex_parse (c # s) = (if c = CHR ''k'' then map_option EndpointId (unhex s) else None)"
| "hex_parse [] = None"

lemma hex_value_nth: "i < 16 \<Longrightarrow> hex_value (hex_digits ! i) = i"
proof -
  assume i: "i < 16"
  have len: "length hex_digits = 16" by (simp add: hex_digits_def)
  have "hex_digits ! j \<noteq> hex_digits ! i" if "j < i" for j
    using that i len hex_digit_distinct by (auto simp: nth_eq_iff_index_eq)
  then have "takeWhile (\<lambda>d. d \<noteq> hex_digits ! i) hex_digits = take i hex_digits"
    using i len by (intro takeWhile_eq_take_P_nth) auto
  then show ?thesis using i len by (simp add: hex_value_def)
qed

lemma hex_digit_mem: "i < 16 \<Longrightarrow> hex_digits ! i \<in> set hex_digits"
  by (rule nth_mem) (simp add: hex_digits_def)

lemma hex_digit_graphic: "c \<in> set hex_digits \<Longrightarrow> graphic c \<and> c \<noteq> SEP"
  by (auto simp: hex_digits_def graphic_def SEP_def)

lemma unat_nibbles: "unat (b :: u8) div 16 < 16 \<and> unat b mod 16 < 16"
  using unat_u8_less [of b] by (simp add: less_mult_imp_div_less)

lemma set_hex_bytes: "set (hex_bytes bs) \<subseteq> set hex_digits"
  using unat_nibbles by (auto simp: hex_bytes_def hex_byte_def intro: hex_digit_mem)

lemma unhex_hex_bytes: "unhex (hex_bytes bs) = Some bs"
proof (induction bs)
  case Nil
  show ?case by (simp add: hex_bytes_def)
next
  case (Cons b bs)
  have "16 * (unat b div 16) + unat b mod 16 = unat b" by simp
  then show ?case
    using Cons unat_nibbles [of b]
    by (simp add: hex_bytes_def hex_byte_def hex_value_nth hex_digit_mem)
qed

lemma hex_bytes_inject: "hex_bytes a = hex_bytes b \<longleftrightarrow> a = b"
  using unhex_hex_bytes by (metis option.inject)

lemma hex_codec: "key_codec hex_show hex_parse"
  using set_hex_bytes hex_digit_graphic
  by (fastforce simp: key_codec_def hex_show_def unhex_hex_bytes graphic_def SEP_def)

subsection \<open>Properties\<close>

lemma key_codecD:
  "key_codec show_key parse_key \<Longrightarrow> parse_key (show_key k) = Some k"
  "key_codec show_key parse_key \<Longrightarrow> SEP \<notin> set (show_key k)"
  "key_codec show_key parse_key \<Longrightarrow> \<forall>c \<in> set (show_key k). graphic c"
  by (auto simp: key_codec_def)

lemma trim_key_code:
  assumes "key_codec show_key parse_key" and "code = [] \<or> graphic (last code)"
  shows "trim (show_key k @ SEP # code) = show_key k @ SEP # code" and "trim (show_key k) = show_key k"
proof -
  have "show_key k \<noteq> []" "\<forall>c \<in> set (show_key k). graphic c"
    using assms(1) by (auto simp: key_codec_def)
  moreover from this have "graphic (hd (show_key k))" "graphic (last (show_key k))"
    by simp_all
  moreover have "graphic SEP" by (simp add: graphic_def SEP_def)
  ultimately show "trim (show_key k @ SEP # code) = show_key k @ SEP # code"
    and "trim (show_key k) = show_key k"
    using assms(2) by (auto intro!: trim_id split: if_splits)
qed

lemma printed_invite_parses:
  assumes "key_codec show_key parse_key" and "code \<noteq> []" and "graphic (last code)"
  shows "handle_from_str parse_key (invite_to_string show_key \<lparr>inv_key = k, inv_code = code\<rparr>) =
      Inr (HInvite \<lparr>inv_key = k, inv_code = code\<rparr>)"
  using key_codecD [OF assms(1)] assms trim_key_code [OF assms(1), of code k]
  by (simp add: handle_from_str_def invite_to_string_def Let_def split_once_append)

lemma printed_key_parses:
  assumes "key_codec show_key parse_key"
  shows "handle_from_str parse_key (show_key k) = Inr (HKey k)"
  using key_codecD [OF assms] trim_key_code(2) [OF assms, of "[]" k] by (simp add: handle_from_str_def Let_def)

text \<open>An invitation survives the trip. Whatever is printed for a key and a non-empty code
  that does not end in white space parses back to the same invitation, and a printed bare key
  parses to that key; so both handles dial the same machine.\<close>

theorem invitation_round_trip:
  assumes "key_codec show_key parse_key" and "code \<noteq> []" and "graphic (last code)"
  shows "handle_from_str parse_key (invite_to_string show_key \<lparr>inv_key = k, inv_code = code\<rparr>) =
      Inr (HInvite \<lparr>inv_key = k, inv_code = code\<rparr>) \<and>
    handle_from_str parse_key (show_key k) = Inr (HKey k)"
  using printed_invite_parses [OF assms] printed_key_parses [OF assms(1)] by simp

theorem invitation_round_trip_witness:
  "handle_from_str hex_parse (invite_to_string hex_show
      \<lparr>inv_key = EndpointId [7, 255], inv_code = ''abc123''\<rparr>) =
    Inr (HInvite \<lparr>inv_key = EndpointId [7, 255], inv_code = ''abc123''\<rparr>) \<and>
   handle_from_str hex_parse (hex_show (EndpointId [7, 255])) = Inr (HKey (EndpointId [7, 255]))"
  using invitation_round_trip [OF hex_codec, of "''abc123''" "EndpointId [7, 255]"]
  by (simp add: graphic_def)

text \<open>What parses was well formed. An accepted invitation has, after trimming, a key that
  parses, then the separator, then a non-empty code; an accepted bare key has no separator at
  all. Everything else is one of the three errors.\<close>

theorem handle_accepts_only:
  "(handle_from_str parse_key s = Inr (HInvite i) \<longleftrightarrow>
      (\<exists>ks. trim s = ks @ SEP # inv_code i \<and> SEP \<notin> set ks \<and>
         parse_key ks = Some (inv_key i) \<and> inv_code i \<noteq> [])) \<and>
   (handle_from_str parse_key s = Inr (HKey k) \<longleftrightarrow>
      SEP \<notin> set (trim s) \<and> parse_key (trim s) = Some k) \<and>
   (handle_from_str parse_key s = Inl e \<longrightarrow>
      e \<in> {InvitationHasNoCode, InvitationInvalidKey, InvalidKey})"
proof (cases "split_once SEP (trim s)")
  case None
  have "SEP \<notin> set (trim s)"
  proof
    assume "SEP \<in> set (trim s)"
    then obtain a b where "trim s = a @ SEP # b" "SEP \<notin> set a" by (auto dest: split_list_first)
    with None show False by (simp add: split_once_append)
  qed
  then show ?thesis using None
    by (auto simp: handle_from_str_def Let_def split: option.splits)
next
  case (Some kc)
  obtain key code where kc: "kc = (key, code)" by (cases kc)
  have s: "trim s = key @ SEP # code" "SEP \<notin> set key"
    using Some kc split_once_some by auto
  have u: "\<And>a b. trim s = a @ SEP # b \<Longrightarrow> SEP \<notin> set a \<Longrightarrow> a = key \<and> b = code"
    using Some kc by (simp add: split_once_append)
  have ex: "(\<exists>ks. trim s = ks @ SEP # inv_code i \<and> SEP \<notin> set ks \<and>
        parse_key ks = Some (inv_key i) \<and> inv_code i \<noteq> []) \<longleftrightarrow>
      inv_code i = code \<and> parse_key key = Some (inv_key i) \<and> code \<noteq> []"
    using s u by blast
  have "SEP \<in> set (trim s)" using s by simp
  then show ?thesis
    unfolding ex using Some kc
    by (cases i) (auto simp: handle_from_str_def Let_def split: option.splits)
qed

theorem handle_accepts_only_witness:
  "handle_from_str hex_parse ''k07.'' = Inl InvitationHasNoCode \<and>
   InvitationHasNoCode \<in> {InvitationHasNoCode, InvitationInvalidKey, InvalidKey}"
proof -
  have "trim ''k07.'' = ''k07.''" by (rule trim_id) (simp add: graphic_def)
  then have e: "handle_from_str hex_parse ''k07.'' = Inl InvitationHasNoCode"
    by (simp add: handle_from_str_def split_once_def SEP_def Let_def)
  show ?thesis
    using e handle_accepts_only [of hex_parse "''k07.''" undefined undefined InvitationHasNoCode] by simp
qed

end
