(* ===== verification/Session.thy ===== *)
theory Session
  imports Grants Enroll Protocol Invite
begin

text \<open>
  The admission and authorization core (\<open>src/core/session.rs\<close>). A session holds the grant table,
  the live codes, the admitted peers and the connections that have not claimed a code yet; every
  event of the shell returns the actions the shell carries out. The second half states what the
  core promises: an abstract access-control machine over plain relations, which the code refines
  event by event, and the properties of whole histories of events.
\<close>

subsection \<open>State, actions\<close>

type_synonym conn_id = u64

datatype admission = Added | Code | Key

datatype refusal = NotAuthorized | EnrollTimeout | NotGranted

definition SHORT_KEY :: nat where
  "SHORT_KEY = 8"

definition default_name :: "(endpoint_id \<Rightarrow> string) \<Rightarrow> endpoint_id \<Rightarrow> string" where
  "default_name show_key key = take_chars SHORT_KEY (show_key key)"

fun admission_as_str :: "admission \<Rightarrow> string" where
  "admission_as_str Added = ''added''"
| "admission_as_str Code = ''code''"
| "admission_as_str Key = ''key''"

fun refusal_as_str :: "refusal \<Rightarrow> string" where
  "refusal_as_str NotAuthorized = ''not authorized''"
| "refusal_as_str EnrollTimeout = ''enroll timeout''"
| "refusal_as_str NotGranted = ''not granted''"

datatype action =
    Admit conn_id endpoint_id bool
  | Refuse conn_id refusal
  | Announce endpoint_id "u16 list"
  | ApplyPorts endpoint_id "u16 list"
  | ServeTunnel u16
  | RejectTunnel refusal
  | PersistPin endpoint_id "string option"
  | DropPin endpoint_id

record admitted =
  label :: "string option"
  admission :: admission

record pending =
  early_ports :: "u16 list option"

record session =
  s_grants :: grants
  s_tokens :: tokens
  s_peers :: "(endpoint_id \<times> admitted) list"
  s_pending :: "(conn_id \<times> pending) list"

definition session_new :: session where
  "session_new =
     \<lparr>s_grants = grants_default, s_tokens = tokens_default, s_peers = [], s_pending = []\<rparr>"

subsection \<open>Access\<close>

definition on_tunnel :: "session \<Rightarrow> endpoint_id \<Rightarrow> u16 \<Rightarrow> action" where
  "on_tunnel s peer port =
     (if allows (s_grants s) port peer then ServeTunnel port else RejectTunnel NotGranted)"

definition announce :: "session \<Rightarrow> endpoint_id \<Rightarrow> action" where
  "announce s peer = Announce peer (ports_for (s_grants s) peer)"

definition announce_all :: "session \<Rightarrow> action list" where
  "announce_all s = map (announce s) (keys (s_peers s))"

definition expose :: "session \<Rightarrow> u16 \<Rightarrow> endpoint_id list \<Rightarrow> action list \<times> session" where
  "expose s port to =
     (let s' = s\<lparr>s_grants := fold (\<lambda>k g. grants_add g port k) to (s_grants s)\<rparr>
      in (announce_all s', s'))"

definition unexpose :: "session \<Rightarrow> u16 \<Rightarrow> endpoint_id option \<Rightarrow> action list \<times> session" where
  "unexpose s port to =
     (let s' = s\<lparr>s_grants := grants_remove (s_grants s) port to\<rparr> in (announce_all s', s'))"

subsection \<open>Admission\<close>

definition admit_known ::
  "session \<Rightarrow> endpoint_id \<Rightarrow> string option \<Rightarrow> admission \<Rightarrow> bool \<times> session" where
  "admit_known s key lbl adm =
     (if map_of (s_peers s) key \<noteq> None then (False, s)
      else (True, s\<lparr>s_peers := bput key \<lparr>label = lbl, admission = adm\<rparr> (s_peers s)\<rparr>))"

definition on_inbound :: "session \<Rightarrow> conn_id \<Rightarrow> endpoint_id \<Rightarrow> action list \<times> session" where
  "on_inbound s conn remote =
     (if map_of (s_peers s) remote \<noteq> None
      then ([Admit conn remote True, announce s remote], s)
      else ([], s\<lparr>s_pending := bput conn \<lparr>early_ports = None\<rparr> (s_pending s)\<rparr>))"

definition early_of :: "session \<Rightarrow> conn_id \<Rightarrow> u16 list" where
  "early_of s conn =
     (case map_of (s_pending s) conn of
        None \<Rightarrow> []
      | Some p \<Rightarrow> (case early_ports p of None \<Rightarrow> [] | Some ps \<Rightarrow> ps))"

definition on_unadmitted ::
  "session \<Rightarrow> conn_id \<Rightarrow> endpoint_id \<Rightarrow> peer_message \<Rightarrow> instant \<Rightarrow> action list \<times> session" where
  "on_unadmitted s conn remote msg now =
     (case msg of
        Enroll token _ \<Rightarrow>
          (case claim (s_tokens s) token now of
             (Some c, ts) \<Rightarrow>
               (let early = early_of s conn;
                    s' = s\<lparr>s_tokens := ts,
                           s_pending := bdel conn (s_pending s),
                           s_peers := bput remote \<lparr>label = claimed_name c, admission = Code\<rparr> (s_peers s),
                           s_grants := fold (\<lambda>p g. grants_add g p remote) (claimed_ports c) (s_grants s)\<rparr>
                in ([Admit conn remote False, PersistPin remote (claimed_name c)] @
                    (if early \<noteq> [] then [ApplyPorts remote early] else []) @
                    [announce s' remote], s'))
           | (None, ts) \<Rightarrow>
               ([Refuse conn NotAuthorized],
                s\<lparr>s_tokens := ts, s_pending := bdel conn (s_pending s)\<rparr>))
      | ExposedPorts ports \<Rightarrow>
          ([], case map_of (s_pending s) conn of
                 None \<Rightarrow> s
               | Some p \<Rightarrow> s\<lparr>s_pending := bput conn (p\<lparr>early_ports := Some ports\<rparr>) (s_pending s)\<rparr>)
      | _ \<Rightarrow> ([], s))"

definition on_enroll_timeout :: "session \<Rightarrow> conn_id \<Rightarrow> action list \<times> session" where
  "on_enroll_timeout s conn =
     (if map_of (s_pending s) conn = None then ([], s)
      else ([Refuse conn EnrollTimeout], s\<lparr>s_pending := bdel conn (s_pending s)\<rparr>))"

definition evict :: "session \<Rightarrow> endpoint_id \<Rightarrow> action list \<times> session" where
  "evict s peer =
     (if map_of (s_peers s) peer = None then ([], s)
      else ([DropPin peer],
            s\<lparr>s_peers := bdel peer (s_peers s), s_grants := revoke_grantee (s_grants s) peer\<rparr>))"

definition mint_token ::
  "session \<Rightarrow> string option \<Rightarrow> u16 list \<Rightarrow> bytes \<Rightarrow> instant \<Rightarrow> string \<times> session" where
  "mint_token s name ports rnd now =
     (case mint (s_tokens s) name ports rnd now of (token, ts) \<Rightarrow> (token, s\<lparr>s_tokens := ts\<rparr>))"

subsection \<open>Queries\<close>

definition peer_keys :: "session \<Rightarrow> endpoint_id list" where
  "peer_keys s = keys (s_peers s)"

definition resolve_grantee ::
  "(string \<Rightarrow> endpoint_id option) \<Rightarrow> session \<Rightarrow> string \<Rightarrow> endpoint_id result" where
  "resolve_grantee parse_key s peer_ref =
     (case parse_key peer_ref of
        Some key \<Rightarrow> Inr key
      | None \<Rightarrow>
          (case map fst (filter (\<lambda>e. label (snd e) = Some peer_ref) (s_peers s)) of
             [key] \<Rightarrow> Inr key
           | _ # _ # _ \<Rightarrow> Inl (AmbiguousName peer_ref)
           | [] \<Rightarrow> Inl (NoPeerMatches peer_ref)))"

definition admission_of :: "session \<Rightarrow> endpoint_id \<Rightarrow> admission option" where
  "admission_of s peer = map_option admission (map_of (s_peers s) peer)"

definition label_of :: "session \<Rightarrow> endpoint_id \<Rightarrow> string option" where
  "label_of s peer = (case map_of (s_peers s) peer of None \<Rightarrow> None | Some p \<Rightarrow> label p)"

definition granted_ports :: "session \<Rightarrow> u16 list" where
  "granted_ports s = grants_ports (s_grants s)"

definition all_grants :: "session \<Rightarrow> (u16 \<times> endpoint_id) list" where
  "all_grants s = grants_all (s_grants s)"

subsection \<open>Events and histories\<close>

text \<open>Everything the shell can do to the core, as one event each.\<close>

datatype event =
    AdmitKnown endpoint_id "string option" admission
  | Inbound conn_id endpoint_id
  | Unadmitted conn_id endpoint_id peer_message instant
  | Timeout conn_id
  | Evict endpoint_id
  | Expose u16 "endpoint_id list"
  | Unexpose u16 "endpoint_id option"
  | Mint "string option" "u16 list" bytes instant

fun session_step :: "session \<Rightarrow> event \<Rightarrow> action list \<times> session" where
  "session_step s (AdmitKnown k l a) = ([], snd (admit_known s k l a))"
| "session_step s (Inbound conn k) = on_inbound s conn k"
| "session_step s (Unadmitted conn k msg now) = on_unadmitted s conn k msg now"
| "session_step s (Timeout conn) = on_enroll_timeout s conn"
| "session_step s (Evict k) = evict s k"
| "session_step s (Expose p ks) = expose s p ks"
| "session_step s (Unexpose p t) = unexpose s p t"
| "session_step s (Mint n ps rnd now) = ([], snd (mint_token s n ps rnd now))"

fun session_run :: "session \<Rightarrow> event list \<Rightarrow> session" where
  "session_run s [] = s"
| "session_run s (e # es) = session_run (snd (session_step s e)) es"

definition session_wf :: "session \<Rightarrow> bool" where
  "session_wf s \<longleftrightarrow> grants_wf (s_grants s) \<and> tokens_wf (s_tokens s) \<and>
     btree_ok (s_peers s) \<and> btree_ok (s_pending s)"

subsection \<open>The abstract machine\<close>

text \<open>Access control as plain relations: who may reach which port, who is a peer, which codes are
  out and until when, and which connections are waiting.\<close>

record spec =
  a_grants :: "(u16 \<times> endpoint_id) set"
  a_peers :: "endpoint_id \<rightharpoonup> admitted"
  a_codes :: "string \<rightharpoonup> pending_token"
  a_waiting :: "conn_id \<rightharpoonup> u16 list option"

definition spec_new :: spec where
  "spec_new = \<lparr>a_grants = {}, a_peers = Map.empty, a_codes = Map.empty, a_waiting = Map.empty\<rparr>"

definition unexpired :: "(string \<rightharpoonup> pending_token) \<Rightarrow> instant \<Rightarrow> (string \<rightharpoonup> pending_token)" where
  "unexpired codes now =
     (\<lambda>c. case codes c of Some t \<Rightarrow> if now < expires t then Some t else None | None \<Rightarrow> None)"

definition spec_enroll :: "spec \<Rightarrow> conn_id \<Rightarrow> endpoint_id \<Rightarrow> string \<Rightarrow> instant \<Rightarrow> spec" where
  "spec_enroll a conn k token now =
     (let a' = a\<lparr>a_codes := (unexpired (a_codes a) now)(token := None),
                 a_waiting := (a_waiting a)(conn := None)\<rparr>
      in case unexpired (a_codes a) now token of
           None \<Rightarrow> a'
         | Some t \<Rightarrow>
             a'\<lparr>a_peers := (a_peers a)(k \<mapsto> \<lparr>label = token_name t, admission = Code\<rparr>),
                a_grants := a_grants a \<union> set (token_ports t) \<times> {k}\<rparr>)"

fun spec_step :: "spec \<Rightarrow> event \<Rightarrow> spec" where
  "spec_step a (AdmitKnown k l adm) =
     (if k \<in> dom (a_peers a) then a
      else a\<lparr>a_peers := (a_peers a)(k \<mapsto> \<lparr>label = l, admission = adm\<rparr>)\<rparr>)"
| "spec_step a (Inbound conn k) =
     (if k \<in> dom (a_peers a) then a else a\<lparr>a_waiting := (a_waiting a)(conn \<mapsto> None)\<rparr>)"
| "spec_step a (Unadmitted conn k msg now) =
     (case msg of
        Enroll token _ \<Rightarrow> spec_enroll a conn k token now
      | ExposedPorts ports \<Rightarrow>
          (if conn \<in> dom (a_waiting a)
           then a\<lparr>a_waiting := (a_waiting a)(conn \<mapsto> Some ports)\<rparr> else a)
      | _ \<Rightarrow> a)"
| "spec_step a (Timeout conn) = a\<lparr>a_waiting := (a_waiting a)(conn := None)\<rparr>"
| "spec_step a (Evict k) =
     (if k \<in> dom (a_peers a)
      then a\<lparr>a_peers := (a_peers a)(k := None), a_grants := {g \<in> a_grants a. snd g \<noteq> k}\<rparr>
      else a)"
| "spec_step a (Expose p ks) = a\<lparr>a_grants := a_grants a \<union> {p} \<times> set ks\<rparr>"
| "spec_step a (Unexpose p t) =
     a\<lparr>a_grants := {g \<in> a_grants a. fst g \<noteq> p \<or> (t \<noteq> None \<and> t \<noteq> Some (snd g))}\<rparr>"
| "spec_step a (Mint n ps rnd now) =
     a\<lparr>a_codes := (a_codes a)(hex_bytes rnd \<mapsto>
         \<lparr>token_name = n, token_ports = ps, expires = now + TOKEN_TTL\<rparr>)\<rparr>"

definition abs_session :: "session \<Rightarrow> spec" where
  "abs_session s =
     \<lparr>a_grants = {(p, k). allows (s_grants s) p k},
      a_peers = map_of (s_peers s),
      a_codes = map_of (pending_tokens (s_tokens s)),
      a_waiting = (\<lambda>c. map_option early_ports (map_of (s_pending s) c))\<rparr>"

subsection \<open>Well-formedness\<close>

lemmas session_op_defs = admit_known_def on_inbound_def on_unadmitted_def on_enroll_timeout_def
  evict_def expose_def unexpose_def mint_token_def announce_all_def

lemma session_wf_new [wf_intros]: "session_wf session_new"
  by (simp add: session_wf_def session_new_def)

lemma session_wf_enroll:
  assumes "session_wf s"
  shows "session_wf (snd (on_unadmitted s conn k (Enroll token v) now))"
  using assms tokens_wf_claim [of "s_tokens s" token now]
  by (cases "claim (s_tokens s) token now")
    (auto simp: session_wf_def on_unadmitted_def Let_def btree_specs gt.invar_add_ports split: option.splits)

lemma session_wf_step [wf_intros]: "session_wf s \<Longrightarrow> session_wf (snd (session_step s e))"
proof (cases e)
  case (Unadmitted conn k msg now)
  assume wf: "session_wf s"
  show ?thesis
  proof (cases msg)
    case (Enroll token v)
    then show ?thesis using Unadmitted wf session_wf_enroll by simp
  qed (use Unadmitted wf in \<open>auto simp: session_wf_def on_unadmitted_def btree_specs split: option.splits\<close>)
next
  case (Mint n ps rnd now)
  assume wf: "session_wf s"
  then show ?thesis
    using Mint tokens_wf_mint_with_ttl [of "s_tokens s" n ps TOKEN_TTL rnd now]
    by (auto simp: session_wf_def mint_token_def mint_def split: prod.splits)
qed (auto simp: session_wf_def session_op_defs Let_def btree_specs wf_intros gt.invar_add_keys
    split: option.splits)

lemma session_wf_run [wf_intros]: "session_wf s \<Longrightarrow> session_wf (session_run s es)"
  by (induction es arbitrary: s) (auto simp: session_wf_step)

subsection \<open>Refinement of the abstract machine\<close>

lemma abs_session_new: "abs_session session_new = spec_new"
  by (auto simp: abs_session_def session_new_def spec_new_def allows_default tokens_default_def)

lemma abs_peer [simp]: "a_peers (abs_session s) = map_of (s_peers s)"
  by (simp add: abs_session_def)

lemma abs_grant [simp]: "(p, k) \<in> a_grants (abs_session s) \<longleftrightarrow> allows (s_grants s) p k"
  by (simp add: abs_session_def)

lemma abs_waiting_dom: "c \<in> dom (a_waiting (abs_session s)) \<longleftrightarrow> map_of (s_pending s) c \<noteq> None"
  by (auto simp: abs_session_def)

lemma unexpired_worth:
  "tokens_wf ts \<Longrightarrow> worth ts now c = map_option
     (\<lambda>t. \<lparr>claimed_name = token_name t, claimed_ports = token_ports t\<rparr>)
     (unexpired (map_of (pending_tokens ts)) now c)"
  by (auto simp: worth_def unexpired_def split: option.splits)

lemma claim_codes:
  assumes "tokens_wf ts"
  shows "map_of (pending_tokens (snd (claim ts token now))) =
    (unexpired (map_of (pending_tokens ts)) now)(token := None)"
  using assms by (auto simp: claim_def Let_def tokens_wf_def unexpired_def delete_conv' fun_eq_iff
      map_of_unexpired split: option.splits)

text \<open>A claim, in the terms of the abstract machine.\<close>

lemma claim_cases:
  assumes "session_wf s"
  obtains (spent) ts where "claim (s_tokens s) token now = (None, ts)"
      "unexpired (a_codes (abs_session s)) now token = None"
      "map_of (pending_tokens ts) = (unexpired (a_codes (abs_session s)) now)(token := None)"
  | (live) t ts where
      "claim (s_tokens s) token now =
         (Some \<lparr>claimed_name = token_name t, claimed_ports = token_ports t\<rparr>, ts)"
      "unexpired (a_codes (abs_session s)) now token = Some t"
      "map_of (pending_tokens ts) = (unexpired (a_codes (abs_session s)) now)(token := None)"
proof -
  have wf: "tokens_wf (s_tokens s)" using assms by (simp add: session_wf_def)
  have c: "a_codes (abs_session s) = map_of (pending_tokens (s_tokens s))"
    by (simp add: abs_session_def)
  obtain r ts where rt: "claim (s_tokens s) token now = (r, ts)" by fastforce
  have "r = map_option (\<lambda>t. \<lparr>claimed_name = token_name t, claimed_ports = token_ports t\<rparr>)
      (unexpired (a_codes (abs_session s)) now token)"
    using claim_worth [OF wf, of token now] unexpired_worth [OF wf, of now token] rt c by simp
  moreover have "map_of (pending_tokens ts) =
      (unexpired (a_codes (abs_session s)) now)(token := None)"
    using claim_codes [OF wf, of token now] rt c by simp
  ultimately show thesis
    using rt spent live by (cases "unexpired (a_codes (abs_session s)) now token") auto
qed

lemma refine_enroll:
  assumes wf: "session_wf s"
  shows "abs_session (snd (on_unadmitted s conn k (Enroll token v) now)) =
    spec_enroll (abs_session s) conn k token now"
  using wf
proof (cases rule: claim_cases [where token = token and now = now])
  case (spent ts)
  then show ?thesis using wf
    by (auto simp: on_unadmitted_def spec_enroll_def Let_def abs_session_def session_wf_def
        btree_specs fun_eq_iff)
next
  case (live t ts)
  then show ?thesis using wf
    by (auto simp: on_unadmitted_def spec_enroll_def Let_def abs_session_def session_wf_def
        btree_specs gt.permits_add_ports fun_eq_iff)
qed

lemma refine_step:
  assumes wf: "session_wf s"
  shows "abs_session (snd (session_step s e)) = spec_step (abs_session s) e"
proof (cases e)
  case (Unadmitted conn k msg now)
  show ?thesis
  proof (cases msg)
    case (Enroll token v)
    then show ?thesis using Unadmitted refine_enroll [OF wf] by simp
  qed (use Unadmitted wf in \<open>auto simp: on_unadmitted_def abs_session_def session_wf_def
      btree_specs fun_eq_iff dom_def split: option.splits\<close>)
next
  case (Mint n ps rnd now)
  then show ?thesis
    by (auto simp: mint_token_def mint_def mint_with_ttl_def Let_def abs_session_def update_conv')
qed (use wf in \<open>auto simp: session_op_defs Let_def abs_session_def session_wf_def btree_specs
    allows_remove allows_revoke gt.permits_add_keys fun_eq_iff\<close>)

lemma refine_run:
  "session_wf s \<Longrightarrow> abs_session (session_run s es) = fold (\<lambda>e a. spec_step a e) es (abs_session s)"
  by (induction es arbitrary: s) (auto simp: refine_step session_wf_step)

end
