(* ===== verification/Ip_Text.thy ===== *)
theory Ip_Text
  imports Rust_String
begin

text \<open>
  The text form of an address, as \<open>std::net\<close> prints and parses it (\<open>IpAddr::to_string\<close>,
  \<open>str::parse::<IpAddr>\<close>). The daemon prints addresses into \<open>ifconfig\<close> arguments and listings and
  parses the one a \<open>project --ip\<close> request names.
\<close>

subsection \<open>Numbers\<close>

definition digit_value :: "nat \<Rightarrow> char \<Rightarrow> nat option" where
  "digit_value radix c =
     (let n = (of_char c :: nat);
          d = (if 48 \<le> n \<and> n \<le> 57 then n - 48
               else if 97 \<le> n \<and> n \<le> 122 then n - 87
               else if 65 \<le> n \<and> n \<le> 90 then n - 55 else radix)
      in if d < radix then Some d else None)"

function (sequential) digits_of :: "nat \<Rightarrow> nat \<Rightarrow> string" where
  "digits_of radix n =
     (if radix < 2 \<or> n < radix then [hex_digits ! (n mod 16)]
      else digits_of radix (n div radix) @ [hex_digits ! (n mod radix mod 16)])"
  by pat_completeness auto
termination
  by (relation "measure snd") (auto intro!: div_less_dividend)

declare digits_of.simps [simp del]

subsection \<open>Printing\<close>

fun ipv4_to_string :: "ipv4 \<Rightarrow> string" where
  "ipv4_to_string (Ipv4 a b c d) = join ''.'' (map (digits_of 10 \<circ> unat) [a, b, c, d])"

definition segments :: "128 word \<Rightarrow> u16 list" where
  "segments w = map (\<lambda>i. ucast (drop_bit (16 * (7 - i)) w)) [0..<8]"

text \<open>The first of the longest runs of zero segments: its start and its length.\<close>

fun zero_run :: "u16 list \<Rightarrow> nat" where
  "zero_run [] = 0"
| "zero_run (g # gs) = (if g = 0 then Suc (zero_run gs) else 0)"

definition longest_zeros :: "u16 list \<Rightarrow> nat \<times> nat" where
  "longest_zeros gs =
     fold (\<lambda>i best. let n = zero_run (drop i gs) in if n > snd best then (i, n) else best)
       [0..<length gs] (0, 0)"

definition hex_groups :: "u16 list \<Rightarrow> string" where
  "hex_groups gs = join '':'' (map (digits_of 16 \<circ> unat) gs)"

definition ipv6_to_string :: "128 word \<Rightarrow> string" where
  "ipv6_to_string w =
     (let gs = segments w in
      if take 6 gs = [0, 0, 0, 0, 0, 0xFFFF] then
        ''::ffff:'' @ ipv4_to_string
          (Ipv4 (ucast (drop_bit 24 w)) (ucast (drop_bit 16 w)) (ucast (drop_bit 8 w)) (ucast w))
      else let (start, n) = longest_zeros gs in
        if n > 1 then hex_groups (take start gs) @ ''::'' @ hex_groups (drop (start + n) gs)
        else hex_groups gs)"

fun ip_to_string :: "ip_addr \<Rightarrow> string" where
  "ip_to_string (V4 a) = ipv4_to_string a"
| "ip_to_string (V6 w) = ipv6_to_string w"

subsection \<open>Parsing\<close>

text \<open>
  A parser takes the rest of the input and returns a value with what is left, or None with the
  input given back (\<open>read_atomically\<close>).
\<close>

fun read_digits :: "nat \<Rightarrow> string \<Rightarrow> nat list \<times> string" where
  "read_digits radix [] = ([], [])"
| "read_digits radix (c # s) =
     (case digit_value radix c of
        None \<Rightarrow> ([], c # s)
      | Some d \<Rightarrow> (case read_digits radix s of (ds, rest) \<Rightarrow> (d # ds, rest)))"

definition read_number ::
  "nat \<Rightarrow> nat \<Rightarrow> bool \<Rightarrow> nat \<Rightarrow> string \<Rightarrow> (nat \<times> string) option" where
  "read_number radix max_digits allow_zero_prefix bound s =
     (case read_digits radix s of
        (ds, rest) \<Rightarrow>
          let n = fold (\<lambda>d a. a * radix + d) ds 0 in
          if ds = [] \<or> length ds > max_digits \<or> n \<ge> bound \<or>
             (\<not> allow_zero_prefix \<and> hd ds = 0 \<and> length ds > 1)
          then None else Some (n, rest))"

fun read_given_char :: "char \<Rightarrow> string \<Rightarrow> string option" where
  "read_given_char c [] = None"
| "read_given_char c (x # s) = (if x = c then Some s else None)"

text \<open>The separator precedes every element but the first.\<close>

definition read_separator ::
  "char \<Rightarrow> nat \<Rightarrow> (string \<Rightarrow> ('a \<times> string) option) \<Rightarrow> string \<Rightarrow> ('a \<times> string) option" where
  "read_separator sep i p s =
     (if i = 0 then p s
      else case read_given_char sep s of None \<Rightarrow> None | Some s' \<Rightarrow> p s')"

definition read_octet :: "nat \<Rightarrow> string \<Rightarrow> (nat \<times> string) option" where
  "read_octet i s = read_separator CHR ''.'' i (read_number 10 3 False 256) s"

definition read_ipv4_addr :: "string \<Rightarrow> (ipv4 \<times> string) option" where
  "read_ipv4_addr s =
     (case read_octet 0 s of None \<Rightarrow> None | Some (a, s) \<Rightarrow>
     (case read_octet 1 s of None \<Rightarrow> None | Some (b, s) \<Rightarrow>
     (case read_octet 2 s of None \<Rightarrow> None | Some (c, s) \<Rightarrow>
     (case read_octet 3 s of None \<Rightarrow> None | Some (d, s) \<Rightarrow>
        Some (Ipv4 (of_nat a) (of_nat b) (of_nat c) (of_nat d), s)))))"

text \<open>\<open>read_groups i limit\<close>: the groups from the \<open>i\<close>th on, whether an embedded IPv4 address ended
  them, and the rest. At most \<open>limit\<close> groups are read.\<close>

function read_groups :: "nat \<Rightarrow> nat \<Rightarrow> string \<Rightarrow> (u16 list \<times> bool) \<times> string" where
  "read_groups i limit s =
     (if i \<ge> limit then (([], False), s)
      else
        let v4 = (if i + 1 < limit then read_separator CHR '':'' i read_ipv4_addr s else None)
        in case v4 of
             Some (Ipv4 a b c d, rest) \<Rightarrow> (([u16_from_be a b, u16_from_be c d], True), rest)
           | None \<Rightarrow>
               (case read_separator CHR '':'' i (read_number 16 4 True 65536) s of
                  None \<Rightarrow> (([], False), s)
                | Some (g, rest) \<Rightarrow>
                    (case read_groups (Suc i) limit rest of
                       ((gs, v4), rest') \<Rightarrow> ((of_nat g # gs, v4), rest'))))"
  by pat_completeness auto
termination
  by (relation "measure (\<lambda>(i, limit, s). limit - i)") auto

declare read_groups.simps [simp del]

definition from_segments :: "u16 list \<Rightarrow> 128 word" where
  "from_segments gs = fold (\<lambda>g w. push_bit 16 w + ucast g) gs 0"

definition read_ipv6_addr :: "string \<Rightarrow> (128 word \<times> string) option" where
  "read_ipv6_addr s =
     (case read_groups 0 8 s of
        ((hs, head_ipv4), s1) \<Rightarrow>
          if length hs = 8 then Some (from_segments hs, s1)
          else if head_ipv4 then None
          else case read_given_char CHR '':'' s1 of None \<Rightarrow> None | Some s2 \<Rightarrow>
          (case read_given_char CHR '':'' s2 of None \<Rightarrow> None | Some s3 \<Rightarrow>
          (case read_groups 0 (8 - (length hs + 1)) s3 of
             ((ts, _), s4) \<Rightarrow>
               Some (from_segments (hs @ replicate (8 - length hs - length ts) 0 @ ts), s4))))"

definition parse_ip :: "string \<Rightarrow> ip_addr option" where
  "parse_ip s =
     (case read_ipv4_addr s of
        Some (a, rest) \<Rightarrow> if rest = [] then Some (V4 a) else None
      | None \<Rightarrow>
          (case read_ipv6_addr s of
             Some (w, rest) \<Rightarrow> if rest = [] then Some (V6 w) else None
           | None \<Rightarrow> None))"

subsection \<open>Numbers round trip\<close>

lemma hex_digit_cases:
  assumes "d < 16"
  shows "(of_char (hex_digits ! d) :: nat) = (if d < 10 then 48 + d else 87 + d)"
proof -
  have "d \<in> set [0..<16]" using assms by simp
  then show ?thesis by (auto simp: hex_digits_def upt_conv_Cons)
qed

lemma digit_value_hex: "d < radix \<Longrightarrow> radix \<le> 16 \<Longrightarrow> digit_value radix (hex_digits ! d) = Some d"
  by (simp add: digit_value_def hex_digit_cases Let_def)

lemma read_digits_map:
  assumes "\<forall>d \<in> set ds. d < radix" "radix \<le> 16" "rest = [] \<or> digit_value radix (hd rest) = None"
  shows "read_digits radix (map ((!) hex_digits) ds @ rest) = (ds, rest)"
  using assms
proof (induction ds)
  case Nil
  then show ?case by (cases rest) auto
qed (auto simp: digit_value_hex)

definition digit_list :: "nat \<Rightarrow> nat \<Rightarrow> nat list \<Rightarrow> bool" where
  "digit_list radix n ds \<longleftrightarrow> digits_of radix n = map ((!) hex_digits) ds \<and> (\<forall>d \<in> set ds. d < radix) \<and> ds \<noteq> [] \<and>
     fold (\<lambda>d a. a * radix + d) ds 0 = n \<and> (hd ds = 0 \<longrightarrow> n = 0 \<and> ds = [0]) \<and>
     (\<forall>k \<ge> 1. n < radix ^ k \<longrightarrow> length ds \<le> k)"

lemma digits_of_list:
  assumes "2 \<le> radix" "radix \<le> 16"
  shows "\<exists>ds. digit_list radix n ds"
proof (induction n rule: less_induct)
  case (less n)
  show ?case
  proof (cases "n < radix")
    case True
    then show ?thesis using assms by (intro exI [of _ "[n]"]) (simp add: digit_list_def digits_of.simps)
  next
    case False
    then have "n div radix < n" using assms by simp
    from less.IH [OF this] obtain ds where dl: "digit_list radix (n div radix) ds" ..
    note ds = dl [unfolded digit_list_def, THEN conjunct1] dl [unfolded digit_list_def, THEN conjunct2, THEN conjunct1]
      dl [unfolded digit_list_def, THEN conjunct2, THEN conjunct2]
    have m: "n mod radix < radix" "n mod radix mod 16 = n mod radix"
      using assms mod_less_divisor [of radix n] order_less_le_trans [of "n mod radix" radix 16] by simp_all
    have "digits_of radix n = digits_of radix (n div radix) @ [hex_digits ! (n mod radix mod 16)]"
      using False assms by (subst digits_of.simps) simp
    then have d: "digits_of radix n = map ((!) hex_digits) (ds @ [n mod radix])" using ds(1) m(2) by simp
    have "length (ds @ [n mod radix]) \<le> k" if lo: "1 \<le> k" and hi: "n < radix ^ k" for k
    proof (cases "k = 1")
      case True
      then show ?thesis using hi False by simp
    next
      case k: False
      then obtain j where j: "k = Suc j" "1 \<le> j" using lo by (cases k) auto
      have "n div radix < radix ^ j" using hi j(1) assms by (simp add: less_mult_imp_div_less mult.commute)
      then show ?thesis using ds(3) j by auto
    qed
    moreover have "hd (ds @ [n mod radix]) \<noteq> 0"
      using ds(3) False assms by (auto simp: div_eq_0_iff)
    moreover have "fold (\<lambda>d a. a * radix + d) (ds @ [n mod radix]) 0 = n" using ds(3) by simp
    moreover have "\<forall>d \<in> set (ds @ [n mod radix]). d < radix" using ds(2) m(1) by simp
    ultimately show ?thesis using d by (intro exI [of _ "ds @ [n mod radix]"]) (simp add: digit_list_def)
  qed
qed

lemma read_number_digits:
  assumes "2 \<le> radix" "radix \<le> 16" "1 \<le> k" "n < radix ^ k" "n < bound" "rest = [] \<or> digit_value radix (hd rest) = None"
  shows "read_number radix k z bound (digits_of radix n @ rest) = Some (n, rest)"
proof -
  obtain ds where dl: "digit_list radix n ds" using digits_of_list [OF assms(1,2)] ..
  have ds: "digits_of radix n = map ((!) hex_digits) ds" "\<forall>d \<in> set ds. d < radix" "ds \<noteq> []"
    "fold (\<lambda>d a. a * radix + d) ds 0 = n" "hd ds = 0 \<longrightarrow> n = 0 \<and> ds = [0]" "length ds \<le> k"
    using dl assms(3,4) by (simp_all add: digit_list_def)
  have "\<not> (\<not> z \<and> hd ds = 0 \<and> length ds > 1)" using ds(5) by auto
  then show ?thesis
    unfolding read_number_def ds(1) read_digits_map [OF ds(2) assms(2,6)] using ds(3,4,6) assms(5) by simp
qed

subsection \<open>IPv4 addresses round trip\<close>

lemma read_octet_digits:
  "rest = [] \<or> digit_value 10 (hd rest) = None \<Longrightarrow>
     read_octet i ((if i = 0 then [] else ''.'') @ digits_of 10 (unat (b :: u8)) @ rest) = Some (unat b, rest)"
  using read_number_digits [of 10 3 "unat b" 256 rest False] unsigned_less [of b, where 'a = nat]
  by (simp add: read_octet_def read_separator_def)

lemma read_ipv4_printed:
  assumes "rest = [] \<or> digit_value 10 (hd rest) = None"
  shows "read_ipv4_addr (ipv4_to_string a @ rest) = Some (a, rest)"
proof (cases a)
  case (Ipv4 p q r s)
  have dot: "digit_value 10 CHR ''.'' = None" by (simp add: digit_value_def Let_def)
  have "read_octet 0 (digits_of 10 (unat p) @ ''.'' @ t) = Some (unat p, ''.'' @ t)" for t
    using read_octet_digits [of "''.'' @ t" 0 p] dot by simp
  moreover have "read_octet (Suc i) (''.'' @ digits_of 10 (unat (x :: u8)) @ ''.'' @ t) = Some (unat x, ''.'' @ t)" for i x t
    using read_octet_digits [of "''.'' @ t" "Suc i" x] dot by simp
  moreover have "read_octet 3 (''.'' @ digits_of 10 (unat s) @ rest) = Some (unat s, rest)"
    using read_octet_digits [of rest 3 s] assms by simp
  ultimately show ?thesis using Ipv4 by (simp add: read_ipv4_addr_def numeral_2_eq_2)
qed

end
