(* ===== verification/Surface.thy ===== *)
theory Surface
  imports Store Ip_Text
begin

text \<open>
  Surfaces (\<open>src/surface.rs\<close>): the local address a peer's ports are bound at, its allocation from
  a /24, the loopback alias it needs on some systems, and the file that keeps it over a restart.
  The operating system is a parameter: which one it is, and what running a command does.
\<close>

subsection \<open>Surfaces and their addresses\<close>

record surface =
  sf_ip :: ip_addr
  sf_name :: "string option"

type_synonym base = "u8 \<times> u8 \<times> u8"

definition LOOPBACK_BASE :: base where
  "LOOPBACK_BASE = (127, 0, 1)"

definition TUN_BASE :: base where
  "TUN_BASE = (10, 99, 1)"

fun host_addr :: "base \<Rightarrow> nat \<Rightarrow> ip_addr" where
  "host_addr (a, b, c) host = V4 (Ipv4 a b c (of_nat host))"

text \<open>The loop over \<open>2u8..=254\<close> stops at the first address not taken.\<close>

definition allocate :: "ip_addr list \<Rightarrow> base \<Rightarrow> ip_addr result" where
  "allocate taken base =
     (case find (\<lambda>ip. ip \<notin> set taken) (map (host_addr base) [2..<255]) of
        Some ip \<Rightarrow> Inr ip
      | None \<Rightarrow> Inl (NoFreeAddress base))"

subsection \<open>Claiming an address from the system\<close>

datatype platform = Linux | MacOS | OtherOS

datatype exec_outcome = SpawnFailed | Exited bool bytes

type_synonym exec = "string \<Rightarrow> string list \<Rightarrow> exec_outcome"

definition run :: "exec \<Rightarrow> string \<Rightarrow> string list \<Rightarrow> unit result" where
  "run ex cmd args =
     (case ex cmd args of
        SpawnFailed \<Rightarrow> Inl (FailedToRun cmd)
      | Exited success stderr \<Rightarrow>
          if success then Inr ()
          else Inl (CommandFailed
            (cmd @ '' '' @ join '' '' args @ '': '' @ trim (from_utf8_lossy stderr))))"

definition is_stock_loopback :: "ip_addr \<Rightarrow> bool" where
  "is_stock_loopback ip \<longleftrightarrow> ip = localhost"

fun add_addr :: "platform \<Rightarrow> exec \<Rightarrow> ip_addr \<Rightarrow> unit result" where
  "add_addr Linux ex ip = Inr ()"
| "add_addr MacOS ex ip = run ex ''ifconfig'' [''lo0'', ''alias'', ip_to_string ip, ''up'']"
| "add_addr OtherOS ex ip = Inl (LoopbackAliasUnsupported ip)"

fun del_addr :: "platform \<Rightarrow> exec \<Rightarrow> ip_addr \<Rightarrow> unit result" where
  "del_addr Linux ex ip = Inr ()"
| "del_addr MacOS ex ip = run ex ''ifconfig'' [''lo0'', ''-alias'', ip_to_string ip]"
| "del_addr OtherOS ex ip = Inr ()"

definition ensure_addr :: "platform \<Rightarrow> exec \<Rightarrow> ip_addr \<Rightarrow> unit result" where
  "ensure_addr os ex ip = (if is_stock_loopback ip then Inr () else add_addr os ex ip)"

definition remove_addr :: "platform \<Rightarrow> exec \<Rightarrow> ip_addr \<Rightarrow> unit result" where
  "remove_addr os ex ip = (if is_stock_loopback ip then Inr () else del_addr os ex ip)"

subsection \<open>The persisted surfaces\<close>

record surface_record =
  sr_key :: string
  sr_ip :: ip_addr
  sr_name :: "string option"

definition surfaces_load :: "surface_record codec \<Rightarrow> state_file \<Rightarrow> surface_record list result" where
  "surfaces_load c f = json_load c f"

definition surfaces_save ::
  "surface_record codec \<Rightarrow> state_file \<Rightarrow> surface_record list \<Rightarrow> unit result \<times> state_file" where
  "surfaces_save c f records = json_save c f records"

definition surfaces_add ::
  "surface_record codec \<Rightarrow> state_file \<Rightarrow> string \<Rightarrow> ip_addr \<Rightarrow> string option \<Rightarrow> unit result \<times> state_file" where
  "surfaces_add c f key ip name =
     (case surfaces_load c f of
        Inl e \<Rightarrow> (Inl e, f)
      | Inr records \<Rightarrow>
          surfaces_save c f (filter (\<lambda>r. sr_key r \<noteq> key) records @
            [\<lparr>sr_key = key, sr_ip = ip, sr_name = name\<rparr>]))"

definition surfaces_remove ::
  "surface_record codec \<Rightarrow> state_file \<Rightarrow> string \<Rightarrow> unit result \<times> state_file" where
  "surfaces_remove c f key =
     (case surfaces_load c f of
        Inl e \<Rightarrow> (Inl e, f)
      | Inr records \<Rightarrow> surfaces_save c f (filter (\<lambda>r. sr_key r \<noteq> key) records))"

interpretation surfs: keyed_store sr_key surfaces_load
  "\<lambda>c f r. surfaces_add c f (sr_key r) (sr_ip r) (sr_name r)" surfaces_remove
  by unfold_locales
    (auto simp: surfaces_load_def surfaces_save_def surfaces_add_def surfaces_remove_def
      json_load_absent json_save_load)

subsection \<open>Lemmas\<close>

lemma host_addr_inject:
  "h < 256 \<Longrightarrow> h' < 256 \<Longrightarrow> host_addr b h = host_addr b h' \<longleftrightarrow> h = h'"
  by (cases b) (auto simp: of_nat_inverse word_of_nat_eq_iff take_bit_nat_eq_self)

lemma find_first:
  "find P (map f [m..<n]) = Some y \<longleftrightarrow>
     (\<exists>i. m \<le> i \<and> i < n \<and> y = f i \<and> P y \<and> (\<forall>j. m \<le> j \<and> j < i \<longrightarrow> \<not> P (f j)))"
proof
  assume "find P (map f [m..<n]) = Some y"
  then obtain i where i: "i < n - m" "y = f (m + i)" "P y" "\<forall>j < i. \<not> P (f (m + j))"
    by (auto simp: find_Some_iff)
  have "\<not> P (f j)" if "m \<le> j" "j < m + i" for j
    using i(4) [rule_format, of "j - m"] that by auto
  with i show "\<exists>i. m \<le> i \<and> i < n \<and> y = f i \<and> P y \<and> (\<forall>j. m \<le> j \<and> j < i \<longrightarrow> \<not> P (f j))"
    by (intro exI [of _ "m + i"]) auto
next
  assume "\<exists>i. m \<le> i \<and> i < n \<and> y = f i \<and> P y \<and> (\<forall>j. m \<le> j \<and> j < i \<longrightarrow> \<not> P (f j))"
  then obtain i where "m \<le> i" "i < n" "y = f i" "P y" "\<forall>j. m \<le> j \<and> j < i \<longrightarrow> \<not> P (f j)"
    by blast
  then show "find P (map f [m..<n]) = Some y"
    by (auto simp: find_Some_iff intro!: exI [of _ "i - m"])
qed

lemma find_none:
  "find P (map f [m..<n]) = None \<longleftrightarrow> (\<forall>i. m \<le> i \<and> i < n \<longrightarrow> \<not> P (f i))"
  by (auto simp: find_None_iff)

lemma allocate_ok_iff:
  "allocate taken base = Inr ip \<longleftrightarrow>
     (\<exists>h. 2 \<le> h \<and> h < 255 \<and> ip = host_addr base h \<and> ip \<notin> set taken \<and>
        (\<forall>j. 2 \<le> j \<and> j < h \<longrightarrow> host_addr base j \<in> set taken))"
proof -
  let ?r = "find (\<lambda>ip. ip \<notin> set taken) (map (host_addr base) [2..<255])"
  have "allocate taken base = Inr ip \<longleftrightarrow> ?r = Some ip"
    unfolding allocate_def by (cases ?r) (simp_all only: option.case sum.simps option.simps)
  then show ?thesis unfolding find_first by (simp only: not_not)
qed

lemma allocate_err_iff:
  "allocate taken base = Inl e \<longleftrightarrow>
     e = NoFreeAddress base \<and> (\<forall>h. 2 \<le> h \<and> h < 255 \<longrightarrow> host_addr base h \<in> set taken)"
proof -
  let ?r = "find (\<lambda>ip. ip \<notin> set taken) (map (host_addr base) [2..<255])"
  have "allocate taken base = Inl e \<longleftrightarrow> ?r = None \<and> e = NoFreeAddress base"
    unfolding allocate_def by (cases ?r) (auto simp only: option.case sum.simps option.simps)
  then show ?thesis unfolding find_none by (auto simp only: not_not)
qed

lemma allocate_fresh: "allocate taken base = Inr ip \<Longrightarrow> ip \<notin> set taken"
  by (auto simp: allocate_ok_iff)

lemma allocated_not_localhost:
  "allocate taken base = Inr ip \<Longrightarrow> base \<in> {LOOPBACK_BASE, TUN_BASE} \<Longrightarrow> ip \<noteq> localhost"
  by (auto simp: allocate_ok_iff LOOPBACK_BASE_def TUN_BASE_def localhost_def)

lemma full_range_length:
  assumes "\<forall>h. 2 \<le> h \<and> h < 255 \<longrightarrow> host_addr base h \<in> set taken"
  shows "253 \<le> length taken"
proof -
  have inj: "inj_on (host_addr base) {2..<255}"
    by (rule inj_onI) (use host_addr_inject in auto)
  have "card (host_addr base ` {2..<255}) \<le> card (set taken)"
    by (rule card_mono) (use assms in auto)
  also have "\<dots> \<le> length taken" by (rule card_length)
  finally show ?thesis using card_image [OF inj] by simp
qed

subsection \<open>Properties\<close>

text \<open>Allocation gives the lowest free host of the /24 among 2 to 254, which no surface
  has; it fails exactly when all of these are taken, which takes at least 253 surfaces.\<close>

theorem surface_allocation:
  "case allocate taken base of
     Inr ip \<Rightarrow> ip \<notin> set taken \<and>
       (\<exists>h. 2 \<le> h \<and> h < 255 \<and> ip = host_addr base h \<and>
          (\<forall>j. 2 \<le> j \<and> j < h \<longrightarrow> host_addr base j \<in> set taken))
   | Inl e \<Rightarrow> e = NoFreeAddress base \<and> host_addr base ` {2..<255} \<subseteq> set taken \<and>
       253 \<le> length taken"
proof (cases "allocate taken base")
  case (Inl e)
  then have "e = NoFreeAddress base" "\<forall>h. 2 \<le> h \<and> h < 255 \<longrightarrow> host_addr base h \<in> set taken"
    by (simp_all add: allocate_err_iff)
  then show ?thesis using Inl full_range_length [of base taken] by auto
next
  case (Inr ip)
  from allocate_ok_iff [THEN iffD1, OF this]
  show ?thesis unfolding Inr sum.case by blast
qed

lemma allocate_skips_three:
  "allocate [host_addr LOOPBACK_BASE 2, host_addr LOOPBACK_BASE 3, host_addr LOOPBACK_BASE 5]
     LOOPBACK_BASE = Inr (host_addr LOOPBACK_BASE 4)"
proof -
  have "j = 2 \<or> j = 3" if "2 \<le> j" "j < 4" for j :: nat using that by auto
  then have "host_addr LOOPBACK_BASE j \<in> {host_addr LOOPBACK_BASE 2, host_addr LOOPBACK_BASE 3}"
    if "2 \<le> j" "j < 4" for j using that by blast
  moreover have "host_addr LOOPBACK_BASE 4 \<noteq> host_addr LOOPBACK_BASE h" if "h \<in> {2, 3, 5}" for h
    using that host_addr_inject [of 4 h LOOPBACK_BASE] by auto
  ultimately show ?thesis
    unfolding allocate_ok_iff by (intro exI [of _ 4]) auto
qed

theorem surface_allocation_witness:
  "\<exists>h. 2 \<le> h \<and> h < 255 \<and> host_addr LOOPBACK_BASE 4 = host_addr LOOPBACK_BASE h \<and>
     host_addr LOOPBACK_BASE 4 \<notin>
       {host_addr LOOPBACK_BASE 2, host_addr LOOPBACK_BASE 3, host_addr LOOPBACK_BASE 5}"
  using surface_allocation [of LOOPBACK_BASE "[host_addr LOOPBACK_BASE 2,
      host_addr LOOPBACK_BASE 3, host_addr LOOPBACK_BASE 5]"]
  unfolding allocate_skips_three sum.case by auto

end
