(* ===== verification/Resolver.thy ===== *)
theory Resolver
  imports Ip_Text
begin

text \<open>
  The owned DNS resolver (\<open>src/resolver.rs\<close>): it answers A queries for \<open>*.pai-sho\<close> from a name
  table, which is an argument here; the tables are the surfaces of the peers (\<open>handle_query\<close>) and
  the map of the userspace stack (\<open>reply\<close>). Slicing out of range panics in Rust, so the operations
  that slice return an option and the handlers distinguish no reply, a panic and a reply.
\<close>

subsection \<open>Questions\<close>

definition SUFFIX :: string where
  "SUFFIX = ''pai-sho''"

definition TYPE_A :: u16 where
  "TYPE_A = 1"

record question =
  q_name :: string
  q_type :: u16
  q_end :: nat

text \<open>\<open>buf.get(i)\<close>, \<open>buf.get(i..j)\<close> and \<open>&buf[i..j]\<close>.\<close>

definition get :: "bytes \<Rightarrow> nat \<Rightarrow> u8 option" where
  "get buf i = (if i < length buf then Some (buf ! i) else None)"

definition slice :: "bytes \<Rightarrow> nat \<Rightarrow> nat \<Rightarrow> bytes option" where
  "slice buf i j = (if i \<le> j \<and> j \<le> length buf then Some (take (j - i) (drop i buf)) else None)"

text \<open>The loop over the labels: from offset \<open>i\<close>, the labels read and the offset just past the
  root label, or None where the loop returns None.\<close>

function parse_labels :: "bytes \<Rightarrow> nat \<Rightarrow> string list \<Rightarrow> (string list \<times> nat) option" where
  "parse_labels buf i labels =
     (case get buf i of
        None \<Rightarrow> None
      | Some b \<Rightarrow>
          (let len = unat b in
           if len = 0 then Some (labels, i + 1)
           else if and len 0xC0 \<noteq> 0 then None
           else case slice buf (i + 1) (i + 1 + len) of
                  None \<Rightarrow> None
                | Some label \<Rightarrow>
                    parse_labels buf (i + 1 + len)
                      (labels @ [to_ascii_lowercase (from_utf8_lossy label)])))"
  by pat_completeness auto
termination
  by (relation "measure (\<lambda>(buf, i, _). length buf - i)") (auto simp: get_def split: if_splits)

declare parse_labels.simps [simp del]

definition parse_question :: "bytes \<Rightarrow> question option" where
  "parse_question buf =
     (if length buf < 12 then None
      else if u16_from_be (buf ! 4) (buf ! 5) \<noteq> 1 then None
      else case parse_labels buf 12 [] of
             None \<Rightarrow> None
           | Some (labels, i) \<Rightarrow>
               (case (get buf i, get buf (i + 1)) of
                  (Some hi, Some lo) \<Rightarrow>
                    if length buf < i + 4 then None
                    else Some \<lparr>q_name = join ''.'' labels, q_type = u16_from_be hi lo, q_end = i + 4\<rparr>
                | _ \<Rightarrow> None))"

definition host_label :: "string \<Rightarrow> string option" where
  "host_label name =
     (case strip_suffix SUFFIX name of
        None \<Rightarrow> None
      | Some s \<Rightarrow>
          (case strip_suffix ''.'' s of
             None \<Rightarrow> None
           | Some rest \<Rightarrow> if rest = [] \<or> CHR ''.'' \<in> set rest then None else Some rest))"

subsection \<open>Replies\<close>

definition answer_record :: "ipv4 \<Rightarrow> bytes" where
  "answer_record ip =
     [0xC0, 0x0C] @ u16_to_be TYPE_A @ [0x00, 0x01] @ [0, 0, 0, 30] @ [0x00, 0x04] @ octets ip"

definition build_reply :: "bytes \<Rightarrow> nat \<Rightarrow> ipv4 option \<Rightarrow> bytes option" where
  "build_reply query qend answer =
     (case (slice query 0 2, get query 2, slice query 12 qend) of
        (Some ident, Some flags, Some question) \<Rightarrow>
          Some (ident @ [or (or 0x80 0x04) (and flags 0x01), 0x00] @ [0x00, 0x01] @
            u16_to_be (if answer \<noteq> None then 1 else 0) @ [0x00, 0x00] @ [0x00, 0x00] @ question @
            (case answer of None \<Rightarrow> [] | Some ip \<Rightarrow> answer_record ip))
      | _ \<Rightarrow> None)"

datatype dns_outcome = NoReply | Panicked | Reply bytes

fun sent :: "bytes option \<Rightarrow> dns_outcome" where
  "sent None = Panicked"
| "sent (Some out) = Reply out"

definition reply :: "bytes \<Rightarrow> (string \<Rightarrow> ipv4 option) \<Rightarrow> dns_outcome" where
  "reply query resolve =
     (case parse_question query of
        None \<Rightarrow> NoReply
      | Some q \<Rightarrow>
          sent (build_reply query (q_end q)
            (if q_type q = TYPE_A then Option.bind (host_label (q_name q)) resolve else None)))"

definition handle_query :: "bytes \<Rightarrow> (string \<Rightarrow> ip_addr option) \<Rightarrow> dns_outcome" where
  "handle_query query resolve_name =
     (case parse_question query of
        None \<Rightarrow> NoReply
      | Some q \<Rightarrow>
          sent (build_reply query (q_end q)
            (if q_type q = TYPE_A then
               (case host_label (q_name q) of
                  None \<Rightarrow> None
                | Some label \<Rightarrow> (case resolve_name label of Some (V4 v4) \<Rightarrow> Some v4 | _ \<Rightarrow> None))
             else None)))"

subsection \<open>Queries a client sends\<close>

text \<open>A query packet: header with one question, the labels, the type and class, and whatever
  records follow (EDNS).\<close>

definition encode_label :: "string \<Rightarrow> bytes" where
  "encode_label l = of_nat (length l) # as_str_bytes l"

definition dns_query :: "u16 \<Rightarrow> u8 \<Rightarrow> u8 \<Rightarrow> string list \<Rightarrow> u16 \<Rightarrow> u16 \<Rightarrow> bytes \<Rightarrow> bytes" where
  "dns_query ident flags flags2 labels qtype qclass extra =
     u16_to_be ident @ [flags, flags2] @ u16_to_be 1 @ [0, 0, 0, 0] @
     (if extra = [] then [0, 0] else [0, 1]) @
     concat (map encode_label labels) @ [0] @ u16_to_be qtype @ u16_to_be qclass @ extra"

definition label_ok :: "string \<Rightarrow> bool" where
  "label_ok l \<longleftrightarrow> l \<noteq> [] \<and> length l < 64 \<and> (\<forall>c \<in> set l. (of_char c :: nat) < 128)"

subsection \<open>Parsing stays inside the packet\<close>

text \<open>The loop rule: \<open>P\<close> holds at the head of the loop, each label keeps it, and \<open>Q\<close> holds where the
  root label ends it.\<close>

lemma parse_labels_rule:
  assumes "parse_labels buf i acc = Some (labels, j)" and "P acc i"
    and step: "\<And>acc i l k. P acc i \<Longrightarrow> i < k \<Longrightarrow> k \<le> length buf \<Longrightarrow> P (acc @ [to_ascii_lowercase l]) k"
    and finish: "\<And>acc i. P acc i \<Longrightarrow> i < length buf \<Longrightarrow> Q acc (i + 1)"
  shows "Q labels j"
  using assms(1,2)
proof (induction "length buf - i" arbitrary: i acc rule: less_induct)
  case less
  obtain b where b: "get buf i = Some b" and i: "i < length buf"
    using less.prems(1) by (subst (asm) parse_labels.simps) (auto simp: get_def split: if_splits)
  show ?case
  proof (cases "unat b = 0")
    case True
    then have "labels = acc" "j = i + 1"
      using less.prems(1) b by (subst (asm) parse_labels.simps; simp)+
    then show ?thesis using finish [OF less.prems(2) i] by simp
  next
    case False
    then obtain l where l: "slice buf (i + 1) (i + 1 + unat b) = Some l"
      "parse_labels buf (i + 1 + unat b) (acc @ [to_ascii_lowercase (from_utf8_lossy l)]) = Some (labels, j)"
      using less.prems(1) b
      by (subst (asm) parse_labels.simps) (auto simp: Let_def split: if_splits option.splits)
    then have k: "i < i + 1 + unat b" "i + 1 + unat b \<le> length buf"
      by (auto simp: slice_def split: if_splits)
    show ?thesis
      using less.hyps [OF _ l(2) step [OF less.prems(2) k]] k i by simp
  qed
qed

lemma parse_labels_bounds:
  "parse_labels buf i acc = Some (labels, j) \<Longrightarrow> i < j \<and> j \<le> length buf"
  by (erule parse_labels_rule [where P = "\<lambda>_ k. i \<le> k"]) auto

lemma parse_question_bounds:
  "parse_question buf = Some q \<Longrightarrow> 17 \<le> q_end q \<and> q_end q \<le> length buf"
  by (auto simp: parse_question_def split: if_splits option.splits prod.splits
      dest!: parse_labels_bounds)

lemma build_reply_some:
  "17 \<le> qend \<Longrightarrow> qend \<le> length query \<Longrightarrow> \<exists>out. build_reply query qend answer = Some out"
  by (auto simp: build_reply_def slice_def get_def)

subsection \<open>Names are lower case\<close>

definition no_upper :: "string \<Rightarrow> bool" where
  "no_upper s \<longleftrightarrow> (\<forall>c \<in> set s. \<not> is_upper c)"

lemma parse_labels_lower:
  "parse_labels buf i [] = Some (labels, j) \<Longrightarrow> \<forall>l \<in> set labels. no_upper l"
  by (erule parse_labels_rule [where P = "\<lambda>acc _. \<forall>l \<in> set acc. no_upper l"])
    (auto simp: no_upper_def to_ascii_lowercase_no_upper)

lemma join_set: "set (join sep ls) \<subseteq> set sep \<union> \<Union> (set (map set ls))"
  by (induction sep ls rule: join.induct) auto

lemma join_lower: "no_upper sep \<Longrightarrow> (\<forall>l \<in> set ls. no_upper l) \<Longrightarrow> no_upper (join sep ls)"
  using join_set [of sep ls] by (auto simp: no_upper_def)

lemma parse_question_lower: "parse_question buf = Some q \<Longrightarrow> no_upper (q_name q)"
proof -
  assume p: "parse_question buf = Some q"
  then obtain labels i where "parse_labels buf 12 [] = Some (labels, i)" "q_name q = join ''.'' labels"
    by (auto simp: parse_question_def split: if_splits option.splits prod.splits)
  moreover have "no_upper ''.''" by (simp add: no_upper_def is_upper_def)
  ultimately show ?thesis using parse_labels_lower join_lower by simp
qed

lemma host_label_iff:
  "host_label name = Some l \<longleftrightarrow> name = l @ ''.'' @ SUFFIX \<and> l \<noteq> [] \<and> CHR ''.'' \<notin> set l"
  by (auto simp: host_label_def strip_suffix_iff strip_suffix_none_iff split: option.splits)

lemma host_label_lower: "parse_question buf = Some q \<Longrightarrow> host_label (q_name q) = Some l \<Longrightarrow> no_upper l"
  using parse_question_lower [of buf q] by (auto simp: host_label_iff no_upper_def)

subsection \<open>Parsing what a client sends\<close>

lemma len_bits: "n < 256 \<Longrightarrow> and n 0xC0 = (0 :: nat) \<longleftrightarrow> n < 64"
proof -
  assume n: "n < 256"
  have "and n 0xC0 = and n (push_bit 6 (mask 2))" by (simp add: push_bit_eq_mult mask_eq_exp_minus_1)
  also have "\<dots> = push_bit 6 (take_bit 2 (drop_bit 6 n))"
    by (rule bit_eqI) (auto simp: bit_simps)
  also have "\<dots> = (n div 64) * 64"
    using n by (simp add: push_bit_eq_mult take_bit_eq_mod drop_bit_eq_div)
  finally show ?thesis by auto
qed

lemma label_bytes:
  assumes "label_ok l"
  shows "unat (of_nat (length l) :: u8) = length l" "from_utf8_lossy (as_str_bytes l) = l"
    "length (as_str_bytes l) = length l"
proof -
  show "unat (of_nat (length l) :: u8) = length l"
    using assms by (simp add: label_ok_def unat_of_nat)
  show "length (as_str_bytes l) = length l" by (simp add: as_str_bytes_def)
  have "u8_of_char c < 0x80" if "c \<in> set l" for c
  proof -
    have "(of_char c :: nat) < 128" using assms that by (simp add: label_ok_def)
    then have "unat (u8_of_char c) < unat (0x80 :: u8)"
      by (simp add: u8_of_char_def unat_of_nat)
    then show ?thesis by (simp add: word_less_nat_alt)
  qed
  then show "from_utf8_lossy (as_str_bytes l) = l"
    by (subst from_utf8_lossy_ascii) (auto simp: as_str_bytes_def comp_def)
qed

lemma parse_labels_step:
  assumes "label_ok l"
  shows "parse_labels (pre @ encode_label l @ post) (length pre) acc =
    parse_labels (pre @ encode_label l @ post) (length (pre @ encode_label l))
      (acc @ [to_ascii_lowercase l])"
proof -
  have n: "length l \<noteq> 0" "and (length l) 0xC0 = 0"
    using assms len_bits [of "length l"] by (auto simp: label_ok_def)
  show ?thesis
    using n label_bytes [OF assms]
    by (subst parse_labels.simps) (simp add: get_def slice_def encode_label_def Let_def nth_append)
qed

lemma parse_labels_encoded:
  "\<forall>l \<in> set ls. label_ok l \<Longrightarrow>
     parse_labels (pre @ concat (map encode_label ls) @ 0 # post) (length pre) acc =
       Some (acc @ map to_ascii_lowercase ls, length pre + length (concat (map encode_label ls)) + 1)"
proof (induction ls arbitrary: pre acc)
  case Nil
  show ?case by (subst parse_labels.simps) (simp add: get_def)
next
  case (Cons l ls)
  have "label_ok l" using Cons.prems by simp
  note parse_labels_step [OF this, of pre "concat (map encode_label ls) @ 0 # post" acc]
  then show ?case
    using Cons.IH [of "pre @ encode_label l" "acc @ [to_ascii_lowercase l]"] Cons.prems by simp
qed

text \<open>The bytes of a query up to the end of its question.\<close>

abbreviation query_header :: "u16 \<Rightarrow> u8 \<Rightarrow> u8 \<Rightarrow> bytes \<Rightarrow> bytes" where
  "query_header ident flags flags2 extra \<equiv>
     u16_to_be ident @ [flags, flags2] @ u16_to_be 1 @ [0, 0, 0, 0] @
     (if extra = [] then [0, 0] else [0, 1])"

definition question_bytes :: "string list \<Rightarrow> u16 \<Rightarrow> u16 \<Rightarrow> bytes" where
  "question_bytes labels qtype qclass =
     concat (map encode_label labels) @ [0] @ u16_to_be qtype @ u16_to_be qclass"

lemma dns_query_parts:
  "dns_query ident flags flags2 labels qtype qclass extra =
     query_header ident flags flags2 extra @ question_bytes labels qtype qclass @ extra"
  by (simp add: dns_query_def question_bytes_def)

lemma parse_question_encoded:
  assumes "\<forall>l \<in> set labels. label_ok l"
  shows "parse_question (dns_query ident flags flags2 labels qtype qclass extra) =
    Some \<lparr>q_name = join ''.'' (map to_ascii_lowercase labels), q_type = qtype,
          q_end = 12 + length (question_bytes labels qtype qclass)\<rparr>"
proof -
  let ?h = "query_header ident flags flags2 extra"
  let ?ls = "concat (map encode_label labels)"
  let ?post = "u16_to_be qtype @ u16_to_be qclass @ extra"
  let ?q = "?h @ ?ls @ 0 # ?post"
  have h: "length ?h = 12" by simp
  have q: "dns_query ident flags flags2 labels qtype qclass extra = ?q"
    by (simp add: dns_query_def)
  have one: "u16_from_be (?q ! 4) (?q ! 5) = 1"
    using u16_be_roundtrip [of 1] by (simp add: u16_to_be_def nth_append)
  have labels: "parse_labels ?q 12 [] = Some (map to_ascii_lowercase labels, 13 + length ?ls)"
    using parse_labels_encoded [OF assms, of ?h ?post "[]"] unfolding h by simp
  have "?q = (?h @ ?ls @ [0]) @ u16_to_be qtype @ u16_to_be qclass @ extra" by simp
  then have at: "get ?q (13 + length ?ls) = Some (u16_to_be qtype ! 0)"
    "get ?q (13 + length ?ls + 1) = Some (u16_to_be qtype ! 1)"
    by (auto simp: get_def nth_append u16_to_be_def)
  have "length ?q = 17 + length ?ls + length extra" by simp
  then show ?thesis
    unfolding q parse_question_def
    using one labels at by (simp add: u16_be_roundtrip [simplified] question_bytes_def)
qed

lemma build_reply_encoded:
  "build_reply (dns_query ident flags flags2 labels qtype qclass extra)
     (12 + length (question_bytes labels qtype qclass)) answer =
    Some (u16_to_be ident @ [or 0x84 (and flags 1), 0, 0, 1] @
      u16_to_be (if answer \<noteq> None then 1 else 0) @ [0, 0, 0, 0] @
      question_bytes labels qtype qclass @
      (case answer of None \<Rightarrow> [] | Some ip \<Rightarrow> answer_record ip))"
  unfolding dns_query_parts
  by (simp add: build_reply_def slice_def get_def u16_to_be_def)

lemma sent_panicked: "sent b = Panicked \<longleftrightarrow> b = None"
  by (cases b) auto

lemma reply_safe: "reply query resolve \<noteq> Panicked"
proof (cases "parse_question query")
  case (Some q)
  have "build_reply query (q_end q) answer \<noteq> None" for answer
    using parse_question_bounds [OF Some] build_reply_some [of "q_end q" query answer] by auto
  then show ?thesis using Some by (simp add: reply_def sent_panicked)
qed (simp add: reply_def)

lemma lower_char_dot: "lower_char c = CHR ''.'' \<Longrightarrow> c = CHR ''.''"
proof (rule ccontr)
  assume l: "lower_char c = CHR ''.''" and "c \<noteq> CHR ''.''"
  then have c: "is_upper c" by (auto simp: lower_char_def split: if_splits)
  then have "(of_char (lower_char c) :: nat) = of_char c + 32"
    by (simp add: lower_char_def is_upper_def)
  with c show False by (simp add: l is_upper_def)
qed

text \<open>The label a query under the suffix asks for.\<close>

lemma label_asked:
  assumes "label_ok l" "CHR ''.'' \<notin> set l" "to_ascii_lowercase s = SUFFIX"
  shows "host_label (join ''.'' (map to_ascii_lowercase [l, s])) = Some (to_ascii_lowercase l)"
proof -
  have "l \<noteq> []" using assms(1) by (simp add: label_ok_def)
  moreover have "CHR ''.'' \<notin> set (to_ascii_lowercase l)"
    using assms(2) by (auto simp: to_ascii_lowercase_def dest: lower_char_dot [OF sym])
  ultimately show ?thesis using assms(3) by (simp add: host_label_iff to_ascii_lowercase_def)
qed

lemma handle_query_reply:
  "handle_query query names = reply query (\<lambda>l. case names l of Some (V4 v4) \<Rightarrow> Some v4 | _ \<Rightarrow> None)"
  by (auto simp: handle_query_def reply_def Option.bind_def cong: option.case_cong split: option.splits)

subsection \<open>Properties\<close>

text \<open>Whatever bytes arrive, neither resolver slices outside the packet, so none panics; and
  both give the same answer from the same names.\<close>

theorem resolver_never_panics:
  "reply query resolve \<noteq> Panicked \<and> handle_query query names \<noteq> Panicked \<and>
   handle_query query names =
     reply query (\<lambda>l. case names l of Some (V4 v4) \<Rightarrow> Some v4 | _ \<Rightarrow> None)"
  by (simp add: handle_query_reply reply_safe)

text \<open>C37: an A query for a single label under the suffix, in any letter case and with any extra
  records after the question, is answered: identifier and question echoed, authoritative, and the
  address the name table has for the lower-case label, or no record; another query type gets the
  same reply without a record.\<close>

theorem resolver_answers:
  assumes "label_ok l" "CHR ''.'' \<notin> set l" "label_ok s" "to_ascii_lowercase s = SUFFIX"
  shows "\<exists>answer. answer = (if qtype = TYPE_A then resolve (to_ascii_lowercase l) else None) \<and>
    reply (dns_query ident flags flags2 [l, s] qtype qclass extra) resolve =
      Reply (u16_to_be ident @ [or 0x84 (and flags 1), 0, 0, 1] @
        u16_to_be (if answer \<noteq> None then 1 else 0) @ [0, 0, 0, 0] @
        question_bytes [l, s] qtype qclass @
        (case answer of None \<Rightarrow> [] | Some ip \<Rightarrow> answer_record ip))"
  using assms(1,3) label_asked [OF assms(1,2,4)] by (simp add: reply_def parse_question_encoded build_reply_encoded)

theorem resolver_answers_witness:
  "reply (dns_query 7 1 0 [''Ferret'', ''pai-SHO''] 1 1 []) (\<lambda>l. if l = ''ferret'' then Some (Ipv4 127 0 1 2) else None)
     = Reply (u16_to_be 7 @ [or 0x84 (and 1 1), 0, 0, 1] @ u16_to_be 1 @ [0, 0, 0, 0] @
         question_bytes [''Ferret'', ''pai-SHO''] 1 1 @ answer_record (Ipv4 127 0 1 2))"
proof -
  have "to_ascii_lowercase ''Ferret'' = ''ferret''" by code_simp
  moreover have "to_ascii_lowercase ''pai-SHO'' = SUFFIX" by code_simp
  moreover have "label_ok ''Ferret''" "label_ok ''pai-SHO''" by code_simp+
  ultimately show ?thesis
    using resolver_answers [of "''Ferret''" "''pai-SHO''" 1
        "\<lambda>l. if l = ''ferret'' then Some (Ipv4 127 0 1 2) else None" 7 1 0 1 "[]"]
    by (simp add: TYPE_A_def)
qed

text \<open>C40: a name is compared in lower case with the names of the table, which are not: whatever a query asks and in whatever letter
  case, both resolvers answer as if the names with an upper-case letter were not in their tables, so that a peer
  projected under such a name is never found by it.\<close>

theorem upper_case_names_never_resolve:
  "reply query (\<lambda>l. if no_upper l then resolve l else None) = reply query resolve \<and>
   handle_query query (\<lambda>l. if no_upper l then names l else None) = handle_query query names"
proof (cases "parse_question query")
  case (Some q)
  then show ?thesis
    using host_label_lower [OF Some]
    by (cases "host_label (q_name q)") (auto simp: reply_def handle_query_def)
qed (simp add: reply_def handle_query_def)

end
