(* ===== verification/Netstack.thy ===== *)
theory Netstack
  imports Resolver Surface
begin

text \<open>
  The TUN backend (\<open>src/netstack.rs\<close>): the handle the daemon drives the userspace stack with, its
  in-stack resolver, and the framing of packets on the tunnel device, which \<open>Tun_Device\<close> opens. The
  stack itself (tokio-smoltcp) is not modelled; a listener is the address and port its accept loop
  serves.
\<close>

subsection \<open>The handle\<close>

record netstack =
  ns_names :: "(string \<times> ipv4) list"
  ns_listeners :: "(ipv4 \<times> u16) list"

definition netstack_new :: netstack where
  "netstack_new = \<lparr>ns_names = [], ns_listeners = []\<rparr>"

definition add_surface :: "netstack \<Rightarrow> ipv4 \<Rightarrow> string option \<Rightarrow> netstack" where
  "add_surface ns ip name =
     (case name of
        None \<Rightarrow> ns
      | Some n \<Rightarrow> ns\<lparr>ns_names := AList.update n ip (ns_names ns)\<rparr>)"

definition remove_surface :: "netstack \<Rightarrow> ipv4 \<Rightarrow> netstack" where
  "remove_surface ns ip = ns\<lparr>ns_names := filter (\<lambda>e. snd e \<noteq> ip) (ns_names ns)\<rparr>"

definition listen :: "netstack \<Rightarrow> ipv4 \<Rightarrow> u16 \<Rightarrow> netstack" where
  "listen ns ip port =
     (if (ip, port) \<in> set (ns_listeners ns) then ns
      else ns\<lparr>ns_listeners := ns_listeners ns @ [(ip, port)]\<rparr>)"

definition unlisten :: "netstack \<Rightarrow> ipv4 \<Rightarrow> u16 \<Rightarrow> netstack" where
  "unlisten ns ip port = ns\<lparr>ns_listeners := filter (\<lambda>k. k \<noteq> (ip, port)) (ns_listeners ns)\<rparr>"

text \<open>The in-stack resolver answers from the name map.\<close>

definition stack_reply :: "netstack \<Rightarrow> bytes \<Rightarrow> dns_outcome" where
  "stack_reply ns query = reply query (map_of (ns_names ns))"

definition netstack_wf :: "netstack \<Rightarrow> bool" where
  "netstack_wf ns \<longleftrightarrow> hash_ok (ns_names ns) \<and> distinct (ns_listeners ns)"

subsection \<open>Packets on the device\<close>

definition MTU :: nat where
  "MTU = 1500"

fun tun_header :: "platform \<Rightarrow> nat" where
  "tun_header MacOS = 4"
| "tun_header Linux = 0"
| "tun_header OtherOS = 0"

text \<open>What \<open>libc::read\<close> gives: the bytes it stored, at most the buffer, or an error.\<close>

datatype read_outcome = Stored bytes | ReadErrno

datatype tun_outcome = Packet bytes | WouldBlock | OsError

definition tun_read :: "platform \<Rightarrow> read_outcome \<Rightarrow> tun_outcome" where
  "tun_read os r =
     (case r of
        ReadErrno \<Rightarrow> OsError
      | Stored bs \<Rightarrow> if length bs > tun_header os then Packet (drop (tun_header os) bs) else WouldBlock)"

definition utun_frame :: "bytes \<Rightarrow> bytes" where
  "utun_frame pkt = [0, 0, 0, if drop_bit 4 (hd pkt) = 6 then 30 else 2] @ pkt"

text \<open>The bytes handed to \<open>libc::write\<close>, or None where nothing is written; and the whole: \<open>write\<close> is what the call
  returns, and a negative number is an error.\<close>

fun tun_frame :: "platform \<Rightarrow> bytes \<Rightarrow> bytes option" where
  "tun_frame MacOS pkt = (if pkt = [] then None else Some (utun_frame pkt))"
| "tun_frame Linux pkt = Some pkt"
| "tun_frame OtherOS pkt = Some pkt"

datatype write_outcome = Written | WriteOsError

definition tun_write :: "platform \<Rightarrow> (bytes \<Rightarrow> int) \<Rightarrow> bytes \<Rightarrow> write_outcome" where
  "tun_write os write pkt =
     (case tun_frame os pkt of
        None \<Rightarrow> Written
      | Some frame \<Rightarrow> if 0 \<le> write frame then Written else WriteOsError)"

subsection \<open>Lemmas\<close>

lemma netstack_wf_new [wf_intros]: "netstack_wf netstack_new"
  by (simp add: netstack_wf_def netstack_new_def)

lemma netstack_wf_ops [wf_intros]:
  assumes "netstack_wf ns"
  shows "netstack_wf (add_surface ns ip name)" "netstack_wf (remove_surface ns ip)"
    "netstack_wf (listen ns ip port)" "netstack_wf (unlisten ns ip port)"
  using assms
  by (auto simp: netstack_wf_def add_surface_def remove_surface_def listen_def unlisten_def
      hash_ok_def distinct_update distinct_fst_filter split: option.splits)

lemma listeners_listen [simp]:
  "set (ns_listeners (listen ns ip port)) = insert (ip, port) (set (ns_listeners ns))"
  by (auto simp: listen_def)

lemma listeners_unlisten [simp]:
  "set (ns_listeners (unlisten ns ip port)) = set (ns_listeners ns) - {(ip, port)}"
  by (auto simp: unlisten_def)

lemma listeners_surface [simp]:
  "ns_listeners (add_surface ns ip name) = ns_listeners ns"
  "ns_listeners (remove_surface ns ip) = ns_listeners ns"
  by (simp_all add: add_surface_def remove_surface_def split: option.splits)

lemma names_listen [simp]:
  "ns_names (listen ns ip port) = ns_names ns" "ns_names (unlisten ns ip port) = ns_names ns"
  by (simp_all add: listen_def unlisten_def)

lemma names_add:
  "map_of (ns_names (add_surface ns ip (Some n))) = (map_of (ns_names ns))(n \<mapsto> ip)"
  by (simp add: add_surface_def update_conv')

lemma names_remove:
  "netstack_wf ns \<Longrightarrow> map_of (ns_names (remove_surface ns ip)) n =
     (if map_of (ns_names ns) n = Some ip then None else map_of (ns_names ns) n)"
  by (auto simp: remove_surface_def netstack_wf_def map_of_live [where P = "\<lambda>v. v \<noteq> ip"]
      split: option.splits)

subsection \<open>Properties\<close>

text \<open>The name map of the stack follows the surfaces. A surface added under a name is what
  the in-stack resolver looks that name up to, whatever it meant before; removing an address
  removes every name of that address and no other.\<close>

theorem stack_names_follow_surfaces:
  assumes "netstack_wf ns"
  shows "map_of (ns_names (add_surface ns ip (Some n))) = (map_of (ns_names ns))(n \<mapsto> ip) \<and>
    add_surface ns ip None = ns \<and>
    (\<forall>m. map_of (ns_names (remove_surface ns ip)) m =
       (if map_of (ns_names ns) m = Some ip then None else map_of (ns_names ns) m))"
  using assms names_add [of ns ip n] names_remove [of ns ip] by (simp add: add_surface_def [of _ _ None])

theorem stack_names_follow_surfaces_witness:
  "map_of (ns_names (add_surface netstack_new (Ipv4 10 99 1 2) (Some ''ferret''))) ''ferret'' =
     Some (Ipv4 10 99 1 2)"
  using stack_names_follow_surfaces [OF netstack_wf_new, of "Ipv4 10 99 1 2" "''ferret''"] by simp

text \<open>Framing is invisible. A packet is written exactly when the system takes the frame made of it, and on any platform that frame is read back
  as that packet by an end on the same platform; on macOS the four bytes in front carry the address
  family of the packet's version nibble.\<close>

theorem tun_framing_round_trip:
  assumes "pkt \<noteq> []"
  shows "\<exists>frame. (\<forall>write. tun_write os write pkt = Written \<longleftrightarrow> 0 \<le> write frame) \<and>
    tun_read os (Stored frame) = Packet pkt \<and> length frame = tun_header os + length pkt"
  using assms by (cases os) (auto simp: tun_read_def utun_frame_def tun_write_def)

theorem tun_framing_round_trip_witness:
  "\<exists>frame. tun_write MacOS (\<lambda>_. 6) [0x45, 1] = Written \<and> tun_read MacOS (Stored frame) = Packet [0x45, 1]"
proof -
  obtain frame where "\<forall>write. tun_write MacOS write [0x45, 1] = Written \<longleftrightarrow> 0 \<le> write frame"
    "tun_read MacOS (Stored frame) = Packet [0x45, 1]"
    using tun_framing_round_trip [of "[0x45, 1]" MacOS] by blast
  then show ?thesis by auto
qed

end
