(* ===== verification/Dial.thy ===== *)
theory Dial
  imports Prelude
begin

text \<open>Which of two connections to the same peer is kept (\<open>src/core/dial.rs\<close>).\<close>

datatype keep = Held | Arriving

definition resolve :: "endpoint_id \<Rightarrow> endpoint_id \<Rightarrow> bool \<Rightarrow> bool \<Rightarrow> bool \<Rightarrow> keep" where
  "resolve ours theirs held_live held_dialed_by_us arriving_dialed_by_us =
     (if \<not> held_live then Arriving
      else if held_dialed_by_us = arriving_dialed_by_us then Arriving
      else (let we_are_lower = as_bytes ours < as_bytes theirs;
                lower_key_opened_held = (we_are_lower = held_dialed_by_us)
            in if lower_key_opened_held then Held else Arriving))"

text \<open>The opener of the connection an end is left with, given the openers of the live
  connection it holds and of the one that arrives.\<close>

definition kept_opener :: "endpoint_id \<Rightarrow> endpoint_id \<Rightarrow> endpoint_id \<Rightarrow> endpoint_id \<Rightarrow> endpoint_id" where
  "kept_opener us them held arriving =
     (if resolve us them True (held = us) (arriving = us) = Held then held else arriving)"

lemma resolve_held_iff:
  "resolve ours theirs live held arriving = Held \<longleftrightarrow>
     live \<and> held \<noteq> arriving \<and> (held \<longleftrightarrow> ours < theirs)"
  by (auto simp: resolve_def Let_def less_endpoint_id_def)

lemma kept_opener_lower:
  assumes "a \<noteq> b" "{h, r} = {a, b}"
  shows "kept_opener a b h r = min a b"
  using assms by (auto simp: kept_opener_def resolve_held_iff doubleton_eq_iff min_def
      dest: order_antisym split: if_splits)

subsection \<open>Properties\<close>

text \<open>C34: when two different daemons each dial the other, then whichever connection each of
  them holds first and whichever arrives second, both are left with the connection opened by the
  lower key, so neither closes the one the other keeps.\<close>

theorem dial_ends_agree:
  assumes "a \<noteq> b" and "{h, r} = {a, b}" and "{h', r'} = {a, b}"
  shows "kept_opener a b h r = min a b \<and> kept_opener b a h' r' = min a b"
proof -
  have "{h', r'} = {b, a}" using assms(3) by (simp add: insert_commute)
  then have "kept_opener b a h' r' = min b a"
    using assms(1) kept_opener_lower by metis
  then show ?thesis
    using kept_opener_lower [OF assms(1,2)] by (simp add: min.commute)
qed

theorem dial_ends_agree_witness:
  "kept_opener (EndpointId [1]) (EndpointId [2]) (EndpointId [2]) (EndpointId [1]) = EndpointId [1] \<and>
   kept_opener (EndpointId [2]) (EndpointId [1]) (EndpointId [2]) (EndpointId [1]) = EndpointId [1]"
proof -
  have "min (EndpointId [1]) (EndpointId [2]) = EndpointId [1]"
    by (simp add: min_def less_eq_endpoint_id_def)
  then show ?thesis
    using dial_ends_agree [of "EndpointId [1]" "EndpointId [2]" "EndpointId [2]" "EndpointId [1]"
        "EndpointId [2]" "EndpointId [1]"]
    by (simp add: doubleton_eq_iff)
qed

end
