(* ===== verification/Backoff.thy ===== *)
theory Backoff
  imports Enroll
begin

text \<open>
  Reconnect delays (\<open>src/core/backoff.rs\<close>). A \<open>Duration\<close> is a number of nanoseconds; the lemmas
  bound the delay, so the doubling never reaches the width of the Rust type.
\<close>

definition BACKOFF_INITIAL :: nat where
  "BACKOFF_INITIAL = secs 1"

definition BACKOFF_MAX :: nat where
  "BACKOFF_MAX = secs 10"

record backoff =
  next_delay :: nat

definition backoff_unreached :: backoff where
  "backoff_unreached = \<lparr>next_delay = 0\<rparr>"

definition backoff_connected :: backoff where
  "backoff_connected = \<lparr>next_delay = BACKOFF_INITIAL\<rparr>"

definition backoff_delay :: "backoff \<Rightarrow> nat" where
  "backoff_delay b = next_delay b"

definition backoff_failed :: "backoff \<Rightarrow> backoff" where
  "backoff_failed b = b\<lparr>next_delay := min (max (next_delay b * 2) BACKOFF_INITIAL) BACKOFF_MAX\<rparr>"

definition backoff_reset :: "backoff \<Rightarrow> backoff" where
  "backoff_reset b = b\<lparr>next_delay := BACKOFF_INITIAL\<rparr>"

lemmas backoff_defs = backoff_unreached_def backoff_connected_def backoff_delay_def
  backoff_failed_def backoff_reset_def BACKOFF_INITIAL_def BACKOFF_MAX_def secs_def

lemma failed_climb:
  assumes "next_delay b = secs k" "1 \<le> k" "k \<le> 10"
  shows "next_delay (backoff_failed b) = secs (min (2 * k) 10)"
  using assms by (auto simp: backoff_defs min_def max_def)

lemma failures_climb:
  "next_delay ((backoff_failed ^^ n) backoff_connected) = secs (min (2 ^ n) 10)"
proof (induction n)
  case 0
  show ?case by (simp add: backoff_defs)
next
  case (Suc n)
  have "min (2 * min (2 ^ n) 10) 10 = min (2 ^ Suc n) (10 :: nat)" by (simp add: min_def)
  moreover have "(1 :: nat) \<le> min (2 ^ n) 10" by simp
  ultimately show ?case using failed_climb [OF Suc.IH] by simp
qed

lemma first_failure: "backoff_failed backoff_unreached = backoff_connected"
  by (simp add: backoff_defs)

subsection \<open>Properties\<close>

text \<open>From a dropped connection the delay before the next dial is 1, 2, 4, 8 and then 10
  seconds for ever; a peer never reached is dialled at once and joins the same schedule after
  its first failure.\<close>

theorem backoff_schedule:
  "backoff_delay ((backoff_failed ^^ n) backoff_connected) = secs (min (2 ^ n) 10) \<and>
   backoff_delay backoff_unreached = 0 \<and>
   backoff_delay ((backoff_failed ^^ Suc n) backoff_unreached) = secs (min (2 ^ n) 10)"
proof -
  have "(backoff_failed ^^ Suc n) backoff_unreached = (backoff_failed ^^ n) backoff_connected"
    by (simp only: funpow_Suc_right comp_def first_failure)
  then show ?thesis
    using failures_climb [of n] by (simp add: backoff_delay_def backoff_unreached_def)
qed

end
