(* ===== verification/Tunnel.thy ===== *)
theory Tunnel
  imports Prelude
begin

text \<open>
  Forwarding (\<open>src/tunnel.rs\<close>). A reader is the list of what its next reads return, a writer the
  number of bytes it takes before it fails. The two directions of a tunnel run concurrently and
  the first to end ends the other: the theory \<open>Forward\<close> makes a tunnel an interleaving of two copies.
\<close>

subsection \<open>Copying one direction\<close>

datatype read_result = Chunk bytes | ReadFailure

record reader =
  pending_reads :: "read_result list"

record writer =
  taken_bytes :: bytes
  fails_after :: "nat option"

datatype copy_outcome = Copied u64 | CopyReadError | CopyWriteError | CopyWaiting

definition COPY_BUF :: nat where
  "COPY_BUF = 16 * 1024"

definition write_all :: "'a writer_scheme \<Rightarrow> bytes \<Rightarrow> bool \<times> 'a writer_scheme" where
  "write_all w bs =
     (case fails_after w of
        None \<Rightarrow> (True, w\<lparr>taken_bytes := taken_bytes w @ bs\<rparr>)
      | Some k \<Rightarrow>
          if length (taken_bytes w) + length bs \<le> k
          then (True, w\<lparr>taken_bytes := taken_bytes w @ bs\<rparr>)
          else (False, w\<lparr>taken_bytes := taken_bytes w @ take (k - length (taken_bytes w)) bs\<rparr>))"

text \<open>The loop. A read returns at most the buffer, so a longer chunk comes in several reads: the
  rest is read next. Running out of reads is waiting for more.\<close>

function copy_loop :: "read_result list \<Rightarrow> 'a writer_scheme \<Rightarrow> u64 \<Rightarrow> copy_outcome \<times> 'a writer_scheme" where
  "copy_loop [] w tot = (CopyWaiting, w)"
| "copy_loop (ReadFailure # rs) w tot = (CopyReadError, w)"
| "copy_loop (Chunk bs # rs) w tot =
     (if bs = [] then (Copied tot, w)
      else let n = min COPY_BUF (length bs) in
        (case write_all w (take n bs) of
           (False, w') \<Rightarrow> (CopyWriteError, w')
         | (True, w') \<Rightarrow>
             copy_loop (if n < length bs then Chunk (drop n bs) # rs else rs) w' (tot + of_nat n)))"
  by pat_completeness auto

text \<open>Each turn of the loop takes bytes from the head chunk or drops it.\<close>

fun chunk_size :: "read_result \<Rightarrow> nat" where
  "chunk_size (Chunk bs) = Suc (length bs)"
| "chunk_size ReadFailure = 1"

termination copy_loop
  by (relation "measure (\<lambda>(rs, w, tot). sum_list (map chunk_size rs))")
    (auto simp: COPY_BUF_def)

definition copy_flush :: "read_result list \<Rightarrow> 'a writer_scheme \<Rightarrow> copy_outcome \<times> 'a writer_scheme" where
  "copy_flush rs w = copy_loop rs w 0"

text \<open>The bytes before the end of the input, and whether it ends.\<close>

fun input_bytes :: "read_result list \<Rightarrow> bytes" where
  "input_bytes [] = []"
| "input_bytes (ReadFailure # rs) = []"
| "input_bytes (Chunk bs # rs) = (if bs = [] then [] else bs @ input_bytes rs)"

fun input_ends :: "read_result list \<Rightarrow> bool" where
  "input_ends [] = False"
| "input_ends (ReadFailure # rs) = False"
| "input_ends (Chunk bs # rs) = (bs = [] \<or> input_ends rs)"

lemma write_all_unlimited: "fails_after w = None \<Longrightarrow>
    write_all w bs = (True, w\<lparr>taken_bytes := taken_bytes w @ bs\<rparr>)"
  by (simp add: write_all_def)

lemma copy_loop_complete:
  assumes "fails_after w = None" "input_ends rs"
  shows "copy_loop rs w tot =
    (Copied (tot + of_nat (length (input_bytes rs))), w\<lparr>taken_bytes := taken_bytes w @ input_bytes rs\<rparr>)"
  using assms
proof (induction rs w tot rule: copy_loop.induct)
  case (3 bs rs w tot)
  show ?case
  proof (cases "bs = []")
    case True
    then show ?thesis by simp
  next
    case False
    let ?n = "min COPY_BUF (length bs)"
    let ?w = "w\<lparr>taken_bytes := taken_bytes w @ take ?n bs\<rparr>"
    let ?rs = "if ?n < length bs then Chunk (drop ?n bs) # rs else rs"
    have ends: "input_ends ?rs" using "3.prems"(2) False by auto
    have bytes: "take ?n bs @ input_bytes ?rs = bs @ input_bytes rs" by auto
    have len: "?n + length (input_bytes ?rs) = length (bs @ input_bytes rs)"
      using arg_cong [OF bytes, of length] by simp
    have "copy_loop (Chunk bs # rs) w tot = copy_loop ?rs ?w (tot + of_nat ?n)"
      using False "3.prems"(1) by (simp add: write_all_unlimited Let_def)
    also have "\<dots> = (Copied (tot + of_nat ?n + of_nat (length (input_bytes ?rs))),
        ?w\<lparr>taken_bytes := taken_bytes ?w @ input_bytes ?rs\<rparr>)"
      using "3.IH" [OF False refl _ refl, of ?w] "3.prems"(1) ends
      by (simp add: write_all_unlimited)
    also have "tot + of_nat ?n + of_nat (length (input_bytes ?rs)) =
        tot + of_nat (length (bs @ input_bytes rs))"
      unfolding len [symmetric] by (simp add: add.assoc)
    finally show ?thesis using bytes False by simp
  qed
qed simp_all

text \<open>Whatever happens, what has been written is a prefix of the input.\<close>

lemma write_all_prefix:
  "\<exists>t \<le> length bs. taken_bytes (snd (write_all w bs)) = taken_bytes w @ take t bs \<and>
     (fst (write_all w bs) \<longrightarrow> t = length bs)"
proof (cases "fails_after w")
  case (Some k)
  then show ?thesis
    by (cases "length (taken_bytes w) + length bs \<le> k")
      (auto simp: write_all_def intro!: exI [of _ "k - length (taken_bytes w)"])
qed (auto simp: write_all_def)

lemma copy_loop_prefix:
  "\<exists>n. taken_bytes (snd (copy_loop rs w tot)) = taken_bytes w @ take n (input_bytes rs)"
proof (induction rs w tot rule: copy_loop.induct)
  case (3 bs rs w tot)
  show ?case
  proof (cases "bs = []")
    case False
    let ?n = "min COPY_BUF (length bs)"
    let ?rs = "if ?n < length bs then Chunk (drop ?n bs) # rs else rs"
    have bytes: "bs @ input_bytes rs = take ?n bs @ input_bytes ?rs" by auto
    obtain ok w' where w': "write_all w (take ?n bs) = (ok, w')" by fastforce
    have "length (take ?n bs) = ?n" by simp
    with write_all_prefix [of "take ?n bs" w] w'
    obtain t where "t \<le> ?n" "taken_bytes w' = taken_bytes w @ take t (take ?n bs)" "ok \<longrightarrow> t = ?n"
      by (metis fst_conv snd_conv)
    then have t: "t \<le> ?n" "taken_bytes w' = taken_bytes w @ take t bs" "ok \<longrightarrow> t = ?n"
      by (simp_all only: take_take min.absorb1)
    show ?thesis
    proof (cases ok)
      case True
      then obtain m where m: "taken_bytes (snd (copy_loop ?rs w' (tot + of_nat ?n))) =
          taken_bytes w' @ take m (input_bytes ?rs)"
        using "3.IH" [OF False refl w' [symmetric]] by auto
      have "copy_loop (Chunk bs # rs) w tot = copy_loop ?rs w' (tot + of_nat ?n)"
        using False True w' by (subst copy_loop.simps) (simp add: Let_def del: copy_loop.simps)
      moreover have "take (?n + m) (bs @ input_bytes rs) = take ?n bs @ take m (input_bytes ?rs)"
        unfolding bytes by simp
      ultimately have "taken_bytes (snd (copy_loop (Chunk bs # rs) w tot)) =
          taken_bytes w @ take (?n + m) (input_bytes (Chunk bs # rs))"
        using m t True False by simp
      then show ?thesis by blast
    next
      case f: False
      then show ?thesis using t False w' by (auto intro!: exI [of _ t])
    qed
  qed simp
qed auto

subsection \<open>Opening and serving a tunnel\<close>

text \<open>The opener writes the port in front of the stream (\<open>open_tunnel\<close> in \<open>src/peer.rs\<close>); the
  server reads it before anything else.\<close>

definition tunnel_preamble :: "u16 \<Rightarrow> bytes" where
  "tunnel_preamble port = u16_to_be port"

fun read_exact2 :: "bytes \<Rightarrow> (u8 \<times> u8 \<times> bytes) option" where
  "read_exact2 (hi # lo # rest) = Some (hi, lo, rest)"
| "read_exact2 _ = None"

datatype tunnel_outcome = Forwarding ip_addr u16 bytes

definition handle_tunnel :: "(ip_addr \<Rightarrow> u16 \<Rightarrow> bool) \<Rightarrow> ip_addr \<Rightarrow> u16 \<Rightarrow> bytes \<Rightarrow> tunnel_outcome result" where
  "handle_tunnel connects host port rest =
     (if connects host port then Inr (Forwarding host port rest) else Inl (FailedToConnect host port))"

lemma read_preamble:
  "\<exists>hi lo. read_exact2 (tunnel_preamble port @ data) = Some (hi, lo, data) \<and> u16_from_be hi lo = port"
  using u16_be_roundtrip [of port] by (simp add: tunnel_preamble_def u16_to_be_def)

subsection \<open>Properties\<close>

text \<open>A copy returns whenever its input ends and the writer keeps up, and then it has written
  exactly the input, in order, and returned its length; the length wraps only at 2 to the 64.\<close>

theorem copy_is_complete:
  assumes "fails_after w = None" "input_ends rs"
  shows "copy_flush rs w =
    (Copied (of_nat (length (input_bytes rs))), w\<lparr>taken_bytes := taken_bytes w @ input_bytes rs\<rparr>)"
  using copy_loop_complete [OF assms, of 0] by (simp add: copy_flush_def)

theorem copy_is_complete_witness:
  "copy_flush [Chunk [1, 2], Chunk [3], Chunk []] \<lparr>taken_bytes = [], fails_after = None\<rparr> =
     (Copied 3, \<lparr>taken_bytes = [1, 2, 3], fails_after = None\<rparr>)"
  using copy_is_complete [of "\<lparr>taken_bytes = [], fails_after = None\<rparr>" "[Chunk [1, 2], Chunk [3], Chunk []]"]
  by simp

text \<open>Nothing is invented, lost in the middle or reordered. Whatever the reads return and
  wherever the writer fails, what has been written is a prefix of the bytes read.\<close>

theorem copy_writes_a_prefix:
  "\<exists>n. taken_bytes (snd (copy_flush rs w)) = taken_bytes w @ take n (input_bytes rs)"
  unfolding copy_flush_def by (rule copy_loop_prefix)

end
