(* ===== verification/Peer.thy ===== *)
theory Peer
  imports Session Surface Netstack Dial Backoff Tunnel
begin

text \<open>
  The peer manager (\<open>src/peer.rs\<close>): it owns the peers, their connections, their surfaces and their
  bindings, feeds the core of \<open>Session\<close> and carries out its actions.

  An \<open>Arc<Peer>\<close> is an address in \<open>heap\<close> and a connection an index into \<open>conns\<close>, because a peer
  object is shared by the peer map and by the task that runs its connection, and the map entry of
  a key can be replaced while that task still holds the old object. Each operation is one step;
  \<open>Locking\<close> justifies it for those that hold \<open>bind_lock\<close> over many awaits, but for forgetting. What the operating system, iroh and
  serde do is the record \<open>env\<close>: which system it is, the outcome of the n-th system call, the text of a key, the
  encodings of messages and records.
\<close>

subsection \<open>State\<close>

record env =
  e_os :: platform
  e_exec :: "nat \<Rightarrow> exec"
  e_bind :: "nat \<Rightarrow> ip_addr \<Rightarrow> u16 \<Rightarrow> bool"
  e_show_key :: "endpoint_id \<Rightarrow> string"
  e_parse_key :: "string \<Rightarrow> endpoint_id option"
  e_pins :: "pin codec"
  e_surfaces :: "surface_record codec"
  e_encode :: "peer_message \<Rightarrow> bytes option"
  e_decode :: "bytes \<Rightarrow> peer_message option"

record conn =
  c_remote :: endpoint_id
  c_close_reason :: "string option"
  c_opens_streams :: bool
  c_sent :: "bytes list"

datatype binding = Listener ip_addr | TunPlaceholder

record peer =
  p_endpoint_id :: endpoint_id
  p_label :: "string option"
  p_dial :: bool
  p_enroll_token :: "string option"
  p_connection :: "nat option"
  p_conn_dialed_by_us :: bool
  p_exposed_ports :: "u16 list"
  p_version :: "string option"
  p_surface :: "surface option"
  p_bindings :: "(u16 \<times> binding) list"
  p_conn_notify :: bool
  p_removed :: bool

definition peer_new ::
  "endpoint_id \<Rightarrow> string option \<Rightarrow> bool \<Rightarrow> string option \<Rightarrow> nat option \<Rightarrow> peer" where
  "peer_new key lbl dial token connection =
     \<lparr>p_endpoint_id = key, p_label = lbl, p_dial = dial, p_enroll_token = token,
      p_connection = connection, p_conn_dialed_by_us = False, p_exposed_ports = [],
      p_version = None, p_surface = None, p_bindings = [], p_conn_notify = False,
      p_removed = False\<rparr>"

text \<open>An enrollment in progress: the connection of an unknown key, and the version it gave.\<close>

record enrollment =
  en_conn :: nat
  en_version :: "string option"

record pm =
  heap :: "peer list"
  peers :: "(endpoint_id \<times> nat) list"
  conns :: "conn list"
  our_id :: endpoint_id
  pm_session :: session
  host :: ip_addr
  next_conn_id :: u64
  pins_file :: state_file
  surfaces_file :: state_file
  pm_netstack :: "netstack option"
  self_name :: "string option"
  enrolling :: "(conn_id \<times> enrollment) list"
  loops :: "nat list"
  calls :: nat

definition pm_new ::
  "endpoint_id \<Rightarrow> ip_addr \<Rightarrow> session \<Rightarrow> state_file \<Rightarrow> state_file \<Rightarrow> netstack option \<Rightarrow> string option \<Rightarrow> pm" where
  "pm_new me h s pf sf ns name =
     \<lparr>heap = [], peers = [], conns = [], our_id = me, pm_session = s, host = h,
      next_conn_id = 1, pins_file = pf, surfaces_file = sf, pm_netstack = ns, self_name = name,
      enrolling = [], loops = [], calls = 0\<rparr>"

definition DIAL_TIMEOUT :: nat where
  "DIAL_TIMEOUT = secs 15"

definition ENROLL_TIMEOUT :: nat where
  "ENROLL_TIMEOUT = secs 10"

definition BIND_ATTEMPTS :: nat where
  "BIND_ATTEMPTS = 5"

definition READ_LIMIT :: nat where
  "READ_LIMIT = 64 * 1024"

definition set_peer :: "pm \<Rightarrow> nat \<Rightarrow> (peer \<Rightarrow> peer) \<Rightarrow> pm" where
  "set_peer m a f = m\<lparr>heap := (heap m)[a := f (heap m ! a)]\<rparr>"

definition close_conn :: "pm \<Rightarrow> nat \<Rightarrow> string \<Rightarrow> pm" where
  "close_conn m c reason =
     m\<lparr>conns := (conns m)[c := (case c_close_reason (conns m ! c) of
         None \<Rightarrow> (conns m ! c)\<lparr>c_close_reason := Some reason\<rparr>
       | Some _ \<Rightarrow> conns m ! c)]\<rparr>"

text \<open>Allocating a peer, entering it in the map and spawning its loop always go together.\<close>

definition install_peer :: "pm \<Rightarrow> endpoint_id \<Rightarrow> peer \<Rightarrow> pm" where
  "install_peer m key p =
     m\<lparr>heap := heap m @ [p], peers := AList.update key (length (heap m)) (peers m),
       loops := loops m @ [length (heap m)]\<rparr>"

subsection \<open>Messages to a peer\<close>

definition send_message :: "env \<Rightarrow> pm \<Rightarrow> nat \<Rightarrow> peer_message \<Rightarrow> unit result \<times> pm" where
  "send_message env m c msg =
     (case e_encode env msg of
        None \<Rightarrow> (Inl FailedToSerialize, m)
      | Some data \<Rightarrow>
          if c_opens_streams (conns m ! c) \<and> c_close_reason (conns m ! c) = None
          then (Inr (), m\<lparr>conns := (conns m)[c := (conns m ! c)\<lparr>c_sent := c_sent (conns m ! c) @ [data]\<rparr>]\<rparr>)
          else (Inl FailedToOpenStream, m))"

definition send_to :: "env \<Rightarrow> pm \<Rightarrow> nat \<Rightarrow> peer_message \<Rightarrow> pm" where
  "send_to env m a msg =
     (case p_connection (heap m ! a) of None \<Rightarrow> m | Some c \<Rightarrow> snd (send_message env m c msg))"

definition send_version :: "env \<Rightarrow> pm \<Rightarrow> nat \<Rightarrow> pm" where
  "send_version env m a = send_to env m a (enroll_message [])"

definition send_ports :: "env \<Rightarrow> pm \<Rightarrow> nat \<Rightarrow> u16 list \<Rightarrow> pm" where
  "send_ports env m a ports = send_to env m a (ExposedPorts ports)"

definition announce_to :: "env \<Rightarrow> pm \<Rightarrow> nat \<Rightarrow> pm" where
  "announce_to env m a =
     (case announce (pm_session m) (p_endpoint_id (heap m ! a)) of
        Announce _ ports \<Rightarrow> send_ports env m a ports
      | _ \<Rightarrow> m)"

definition broadcast_grants :: "env \<Rightarrow> pm \<Rightarrow> pm" where
  "broadcast_grants env m = fold (\<lambda>e m. announce_to env m (snd e)) (peers m) m"

subsection \<open>Becoming a peer\<close>

definition add_peer :: "pm \<Rightarrow> endpoint_id \<Rightarrow> string option \<Rightarrow> string option \<Rightarrow> unit result \<times> pm" where
  "add_peer m key name code =
     (if map_of (peers m) key \<noteq> None then (Inl PeerAlreadyExists, m)
      else (Inr (), install_peer
             (m\<lparr>pm_session := snd (admit_known (pm_session m) key name Added)\<rparr>)
             key (peer_new key name True code None)))"

definition add_pinned :: "env \<Rightarrow> pm \<Rightarrow> string \<Rightarrow> string option \<Rightarrow> unit result \<times> pm" where
  "add_pinned env m key name =
     (case e_parse_key env key of
        None \<Rightarrow> (Inl InvalidKey, m)
      | Some k \<Rightarrow>
          if map_of (peers m) k \<noteq> None then (Inr (), m)
          else (Inr (), install_peer
                 (m\<lparr>pm_session := snd (admit_known (pm_session m) k name Key)\<rparr>)
                 k (peer_new k name False None None)))"

definition pin_peer :: "env \<Rightarrow> pm \<Rightarrow> string \<Rightarrow> string option \<Rightarrow> unit result \<times> pm" where
  "pin_peer env m key name =
     (case add_pinned env m key name of
        (Inl e, m') \<Rightarrow> (Inl e, m')
      | (Inr _, m') \<Rightarrow>
          (case pins_add (e_pins env) (pins_file m') key name of
             (r, f) \<Rightarrow> (r, m'\<lparr>pins_file := f\<rparr>)))"

subsection \<open>Surfaces and bindings\<close>

definition release_binding :: "pm \<Rightarrow> nat \<Rightarrow> u16 \<Rightarrow> pm" where
  "release_binding m a port =
     (let m' = set_peer m a (\<lambda>p. p\<lparr>p_bindings := AList.delete port (p_bindings p)\<rparr>)
      in case (pm_netstack m', p_surface (heap m' ! a)) of
           (Some ns, Some s) \<Rightarrow>
             (case sf_ip s of
                V4 v4 \<Rightarrow> m'\<lparr>pm_netstack := Some (unlisten ns v4 port)\<rparr>
              | V6 _ \<Rightarrow> m')
         | _ \<Rightarrow> m')"

definition claim_addr :: "env \<Rightarrow> pm \<Rightarrow> ip_addr \<Rightarrow> string option \<Rightarrow> unit result \<times> pm" where
  "claim_addr env m ip name =
     (case pm_netstack m of
        Some ns \<Rightarrow>
          (Inr (), case ip of V4 v4 \<Rightarrow> m\<lparr>pm_netstack := Some (add_surface ns v4 name)\<rparr> | V6 _ \<Rightarrow> m)
      | None \<Rightarrow> (ensure_addr (e_os env) (e_exec env (calls m)) ip, m\<lparr>calls := calls m + 1\<rparr>))"

definition unclaim_addr :: "env \<Rightarrow> pm \<Rightarrow> ip_addr \<Rightarrow> unit result \<times> pm" where
  "unclaim_addr env m ip =
     (case pm_netstack m of
        Some ns \<Rightarrow>
          (Inr (), case ip of V4 v4 \<Rightarrow> m\<lparr>pm_netstack := Some (remove_surface ns v4)\<rparr> | V6 _ \<Rightarrow> m)
      | None \<Rightarrow> (remove_addr (e_os env) (e_exec env (calls m)) ip, m\<lparr>calls := calls m + 1\<rparr>))"

text \<open>The loop of \<open>bind_one\<close>: up to \<open>n\<close> attempts, each one more system call.\<close>

primrec bind_loop :: "nat \<Rightarrow> env \<Rightarrow> pm \<Rightarrow> ip_addr \<Rightarrow> u16 \<Rightarrow> bool \<times> pm" where
  "bind_loop 0 env m ip port = (False, m)"
| "bind_loop (Suc n) env m ip port =
     (if e_bind env (calls m) ip port then (True, m\<lparr>calls := calls m + 1\<rparr>)
      else bind_loop n env (m\<lparr>calls := calls m + 1\<rparr>) ip port)"

definition record_binding :: "pm \<Rightarrow> nat \<Rightarrow> u16 \<Rightarrow> binding \<Rightarrow> pm" where
  "record_binding m a port b = set_peer m a (\<lambda>p. p\<lparr>p_bindings := AList.update port b (p_bindings p)\<rparr>)"

definition bind_one :: "env \<Rightarrow> pm \<Rightarrow> nat \<Rightarrow> ip_addr \<Rightarrow> u16 \<Rightarrow> pm" where
  "bind_one env m a ip port =
     (case (pm_netstack m, ip) of
        (Some ns, V4 v4) \<Rightarrow>
          record_binding (m\<lparr>pm_netstack := Some (listen ns v4 port)\<rparr>) a port TunPlaceholder
      | _ \<Rightarrow>
          (case bind_loop BIND_ATTEMPTS env m ip port of
             (True, m') \<Rightarrow> record_binding m' a port (Listener ip)
           | (False, m') \<Rightarrow> m'))"

definition surface_base :: "pm \<Rightarrow> base" where
  "surface_base m = (if pm_netstack m \<noteq> None then TUN_BASE else LOOPBACK_BASE)"

definition projected_ips :: "pm \<Rightarrow> ip_addr list" where
  "projected_ips m =
     concat (map (\<lambda>e. case p_surface (heap m ! snd e) of None \<Rightarrow> [] | Some s \<Rightarrow> [sf_ip s]) (peers m))"

definition persist_surface :: "env \<Rightarrow> pm \<Rightarrow> endpoint_id \<Rightarrow> ip_addr \<Rightarrow> string option \<Rightarrow> pm" where
  "persist_surface env m key ip name =
     m\<lparr>surfaces_file :=
        snd (surfaces_add (e_surfaces env) (surfaces_file m) (e_show_key env key) ip name)\<rparr>"

definition surface_ip :: "env \<Rightarrow> pm \<Rightarrow> nat \<Rightarrow> u16 list \<Rightarrow> ip_addr option \<times> pm" where
  "surface_ip env m a ports =
     (case p_surface (heap m ! a) of
        Some s \<Rightarrow> (Some (sf_ip s), m)
      | None \<Rightarrow>
          if ports = [] then (None, m)
          else case allocate (projected_ips m) (surface_base m) of
            Inl _ \<Rightarrow> (None, m)
          | Inr ip \<Rightarrow>
              (let p = heap m ! a;
                   name = Some (case p_label p of
                                  Some l \<Rightarrow> l
                                | None \<Rightarrow> default_name (e_show_key env) (p_endpoint_id p))
               in case claim_addr env m ip name of
                    (Inl _, m') \<Rightarrow> (None, m')
                  | (Inr _, m') \<Rightarrow>
                      (Some ip, persist_surface env
                         (set_peer m' a (\<lambda>p. p\<lparr>p_surface := Some \<lparr>sf_ip = ip, sf_name = name\<rparr>\<rparr>))
                         (p_endpoint_id p) ip name)))"

definition bind_missing :: "env \<Rightarrow> nat \<Rightarrow> ip_addr \<Rightarrow> u16 list \<Rightarrow> pm \<Rightarrow> pm" where
  "bind_missing env a ip ports m =
     fold (\<lambda>port m. if map_of (p_bindings (heap m ! a)) port \<noteq> None then m
                    else bind_one env m a ip port) ports m"

definition update_peer_ports :: "env \<Rightarrow> pm \<Rightarrow> nat \<Rightarrow> u16 list \<Rightarrow> pm" where
  "update_peer_ports env m a new_ports =
     (let old_ports = p_exposed_ports (heap m ! a);
          m1 = fold (\<lambda>port m. if port \<in> set new_ports then m else release_binding m a port) old_ports m
      in case surface_ip env m1 a new_ports of
           (None, m2) \<Rightarrow> set_peer m2 a (\<lambda>p. p\<lparr>p_exposed_ports := new_ports\<rparr>)
         | (Some ip, m2) \<Rightarrow>
             set_peer (bind_missing env a ip new_ports m2) a (\<lambda>p. p\<lparr>p_exposed_ports := new_ports\<rparr>))"

definition release_all :: "pm \<Rightarrow> nat \<Rightarrow> pm" where
  "release_all m a = fold (\<lambda>port m. release_binding m a port) (keys (p_bindings (heap m ! a))) m"

subsection \<open>Forgetting a peer\<close>

definition drop_surface :: "env \<Rightarrow> pm \<Rightarrow> nat \<Rightarrow> pm" where
  "drop_surface env m a =
     (case p_surface (heap m ! a) of
        None \<Rightarrow> m
      | Some s \<Rightarrow> snd (unclaim_addr env (set_peer m a (\<lambda>p. p\<lparr>p_surface := None\<rparr>)) (sf_ip s)))"

definition take_connection :: "pm \<Rightarrow> nat \<Rightarrow> string \<Rightarrow> pm" where
  "take_connection m a reason =
     (case p_connection (heap m ! a) of
        None \<Rightarrow> m
      | Some c \<Rightarrow> close_conn (set_peer m a (\<lambda>p. p\<lparr>p_connection := None\<rparr>)) c reason)"

definition drop_pin :: "env \<Rightarrow> action \<Rightarrow> pm \<Rightarrow> pm" where
  "drop_pin env act m =
     (case act of
        DropPin key \<Rightarrow>
          m\<lparr>pins_file := snd (pins_remove (e_pins env) (pins_file m) (e_show_key env key))\<rparr>
      | _ \<Rightarrow> m)"

definition evict_object :: "env \<Rightarrow> pm \<Rightarrow> endpoint_id \<Rightarrow> string \<Rightarrow> pm" where
  "evict_object env m key reason =
     (case map_of (peers m) key of
        None \<Rightarrow> m
      | Some a \<Rightarrow>
          (let m1 = set_peer (m\<lparr>peers := AList.delete key (peers m)\<rparr>) a
                      (\<lambda>p. p\<lparr>p_removed := True, p_conn_notify := True\<rparr>)
           in drop_surface env (release_all (take_connection m1 a reason) a) a))"

definition evict_peer :: "env \<Rightarrow> pm \<Rightarrow> endpoint_id \<Rightarrow> string \<Rightarrow> pm" where
  "evict_peer env m key reason =
     (let m1 = evict_object env m key reason
      in case evict (pm_session m1) key of
           (actions, s) \<Rightarrow>
             (let m2 = fold (drop_pin env) actions (m1\<lparr>pm_session := s\<rparr>)
              in m2\<lparr>surfaces_file :=
                   snd (surfaces_remove (e_surfaces env) (surfaces_file m2) (e_show_key env key))\<rparr>))"

definition resolve_peer :: "env \<Rightarrow> pm \<Rightarrow> string \<Rightarrow> endpoint_id option" where
  "resolve_peer env m peer_ref =
     (let by_name = map_option fst (find (\<lambda>e. p_label (heap m ! snd e) = Some peer_ref) (peers m))
      in case e_parse_key env peer_ref of
           Some k \<Rightarrow> if map_of (peers m) k \<noteq> None then Some k else by_name
         | None \<Rightarrow> by_name)"

definition remove_peer :: "env \<Rightarrow> pm \<Rightarrow> string \<Rightarrow> unit result \<times> pm" where
  "remove_peer env m peer_ref =
     (case resolve_peer env m peer_ref of
        None \<Rightarrow> (Inl (NoSuchPeer peer_ref), m)
      | Some k \<Rightarrow>
          if map_of (peers m) k = None then (Inl PeerNotFound, m)
          else (Inr (), evict_peer env m k ''removed''))"

subsection \<open>Connections\<close>

definition apply_action :: "env \<Rightarrow> nat \<Rightarrow> action \<Rightarrow> pm \<Rightarrow> pm" where
  "apply_action env a act m =
     (case act of
        Announce _ ports \<Rightarrow> send_ports env m a ports
      | ApplyPorts _ ports \<Rightarrow> update_peer_ports env m a ports
      | PersistPin key lbl \<Rightarrow>
          m\<lparr>pins_file := snd (pins_add (e_pins env) (pins_file m) (e_show_key env key) lbl)\<rparr>
      | DropPin key \<Rightarrow>
          m\<lparr>pins_file := snd (pins_remove (e_pins env) (pins_file m) (e_show_key env key))\<rparr>
      | _ \<Rightarrow> m)"

definition apply_actions :: "env \<Rightarrow> pm \<Rightarrow> nat \<Rightarrow> action list \<Rightarrow> pm" where
  "apply_actions env m a actions = fold (apply_action env a) actions m"

definition held_is_live :: "pm \<Rightarrow> nat \<Rightarrow> bool" where
  "held_is_live m a =
     (case p_connection (heap m ! a) of
        None \<Rightarrow> False
      | Some c \<Rightarrow> c_close_reason (conns m ! c) = None)"

definition install_connection :: "pm \<Rightarrow> nat \<Rightarrow> nat \<Rightarrow> bool \<Rightarrow> pm" where
  "install_connection m a c dialed_by_us =
     (let m1 = (case p_connection (heap m ! a) of None \<Rightarrow> m | Some old \<Rightarrow> close_conn m old ''replaced'')
      in set_peer m1 a (\<lambda>p. p\<lparr>p_conn_dialed_by_us := dialed_by_us, p_connection := Some c\<rparr>))"

text \<open>\<open>c\<close> is the index of the incoming connection. Where the core has no verdict yet, the
  connection is handed to an enrollment.\<close>

definition handle_connection :: "env \<Rightarrow> pm \<Rightarrow> nat \<Rightarrow> pm" where
  "handle_connection env m c =
     (let remote = c_remote (conns m ! c);
          conn_id = next_conn_id m
      in case on_inbound (pm_session m) conn_id remote of
           (acts, s) \<Rightarrow>
             (let m1 = m\<lparr>next_conn_id := conn_id + 1, pm_session := s\<rparr>
              in if acts = [] then
                   m1\<lparr>enrolling := AList.update conn_id \<lparr>en_conn = c, en_version = None\<rparr> (enrolling m1)\<rparr>
                 else case map_of (peers m1) remote of
                   None \<Rightarrow> close_conn m1 c []
                 | Some a \<Rightarrow>
                     if resolve (our_id m1) remote (held_is_live m1 a)
                          (p_conn_dialed_by_us (heap m1 ! a)) False = Held
                     then close_conn m1 c ''kept ours''
                     else apply_actions env
                       (set_peer (install_connection m1 a c False) a
                          (\<lambda>p. p\<lparr>p_dial := True, p_conn_notify := True\<rparr>)) a acts))"

subsection \<open>Enrollment\<close>

definition is_refuse :: "action \<Rightarrow> refusal option" where
  "is_refuse act = (case act of Refuse _ r \<Rightarrow> Some r | _ \<Rightarrow> None)"

definition is_admit :: "action \<Rightarrow> bool" where
  "is_admit act = (case act of Admit _ _ _ \<Rightarrow> True | _ \<Rightarrow> False)"

text \<open>What follows the loop of \<open>handle_enrollment\<close>, once there is a verdict.\<close>

definition settle_enrollment :: "env \<Rightarrow> pm \<Rightarrow> conn_id \<Rightarrow> enrollment \<Rightarrow> action list \<Rightarrow> pm" where
  "settle_enrollment env m conn_id en acts =
     (let m1 = m\<lparr>enrolling := AList.delete conn_id (enrolling m)\<rparr>;
          remote = c_remote (conns m1 ! en_conn en)
      in case List.map_filter is_refuse acts of
           r # _ \<Rightarrow> close_conn m1 (en_conn en) (refusal_as_str r)
         | [] \<Rightarrow>
             if \<not> list_ex is_admit acts
             then close_conn m1 (en_conn en) (refusal_as_str NotAuthorized)
             else (let p = (peer_new remote (label_of (pm_session m1) remote) True None
                              (Some (en_conn en)))\<lparr>p_version := en_version en\<rparr>;
                       m2 = install_peer m1 remote p
                   in apply_actions env m2 (length (heap m1)) acts))"

text \<open>One turn of the loop: a control stream of the unknown peer was read to its end.\<close>

definition enrollment_stream :: "env \<Rightarrow> pm \<Rightarrow> conn_id \<Rightarrow> bytes \<Rightarrow> instant \<Rightarrow> pm" where
  "enrollment_stream env m conn_id data now =
     (case map_of (enrolling m) conn_id of
        None \<Rightarrow> m
      | Some en \<Rightarrow>
          (case e_decode env data of
             None \<Rightarrow> m
           | Some msg \<Rightarrow>
               (let en' = (case msg of
                             Enroll _ (Some v) \<Rightarrow> en\<lparr>en_version := Some v\<rparr>
                           | _ \<Rightarrow> en);
                    remote = c_remote (conns m ! en_conn en)
                in case on_unadmitted (pm_session m) conn_id remote msg now of
                     (acts, s) \<Rightarrow>
                       (let m1 = m\<lparr>enrolling := AList.update conn_id en' (enrolling m), pm_session := s\<rparr>
                        in if acts = [] then m1 else settle_enrollment env m1 conn_id en' acts))))"

text \<open>The timeout elapsed, or the connection or a stream failed (a stream over the limit is such a
  failure).\<close>

definition enrollment_ends :: "env \<Rightarrow> pm \<Rightarrow> conn_id \<Rightarrow> pm" where
  "enrollment_ends env m conn_id =
     (case map_of (enrolling m) conn_id of
        None \<Rightarrow> m
      | Some en \<Rightarrow>
          (case on_enroll_timeout (pm_session m) conn_id of
             (acts, s) \<Rightarrow> settle_enrollment env (m\<lparr>pm_session := s\<rparr>) conn_id en acts))"

definition handle_enrollment :: "env \<Rightarrow> pm \<Rightarrow> conn_id \<Rightarrow> bytes option \<Rightarrow> instant \<Rightarrow> pm" where
  "handle_enrollment env m conn_id stream now =
     (case stream of
        None \<Rightarrow> enrollment_ends env m conn_id
      | Some data \<Rightarrow>
          if length data > READ_LIMIT then enrollment_ends env m conn_id
          else enrollment_stream env m conn_id data now)"

subsection \<open>Streams of an admitted peer\<close>

definition handle_uni_stream :: "env \<Rightarrow> pm \<Rightarrow> nat \<Rightarrow> bytes option \<Rightarrow> pm" where
  "handle_uni_stream env m a stream =
     (case stream of
        None \<Rightarrow> m
      | Some data \<Rightarrow>
          if length data > READ_LIMIT then m
          else case e_decode env data of
            None \<Rightarrow> m
          | Some (ExposedPorts ports) \<Rightarrow> update_peer_ports env m a ports
          | Some (Enroll _ (Some v)) \<Rightarrow> set_peer m a (\<lambda>p. p\<lparr>p_version := Some v\<rparr>)
          | Some _ \<Rightarrow> m)"

datatype bi_outcome = Tunneled tunnel_outcome | Declined

definition handle_bi_stream ::
  "(ip_addr \<Rightarrow> u16 \<Rightarrow> bool) \<Rightarrow> pm \<Rightarrow> nat \<Rightarrow> bytes \<Rightarrow> bi_outcome result" where
  "handle_bi_stream connects m a data =
     (case read_exact2 data of
        None \<Rightarrow> Inl StreamReadError
      | Some (hi, lo, rest) \<Rightarrow>
          (case on_tunnel (pm_session m) (p_endpoint_id (heap m ! a)) (u16_from_be hi lo) of
             ServeTunnel port \<Rightarrow> map_sum id Tunneled (handle_tunnel connects (host m) port rest)
           | RejectTunnel _ \<Rightarrow> Inr Declined
           | _ \<Rightarrow> Inl UnexpectedVerdict))"

text \<open>The first bytes on the stream a tunnel is opened with.\<close>

definition open_tunnel :: "pm \<Rightarrow> nat \<Rightarrow> u16 \<Rightarrow> bytes result" where
  "open_tunnel m a port =
     (case p_connection (heap m ! a) of
        None \<Rightarrow> Inl PeerDisconnected
      | Some c \<Rightarrow>
          if c_opens_streams (conns m ! c) \<and> c_close_reason (conns m ! c) = None
          then Inr (tunnel_preamble port) else Inl FailedToOpenStream)"

definition peer_for_ip :: "pm \<Rightarrow> ip_addr \<Rightarrow> nat option" where
  "peer_for_ip m ip =
     map_option snd (find (\<lambda>e. map_option sf_ip (p_surface (heap m ! snd e)) = Some ip) (peers m))"

text \<open>One accepted TUN connection: the stream it is spliced onto, if its surface has an owner.\<close>

definition run_netstack_accept :: "pm \<Rightarrow> ipv4 \<Rightarrow> u16 \<Rightarrow> bytes result option" where
  "run_netstack_accept m ip port =
     (if pm_netstack m = None then None
      else map_option (\<lambda>a. open_tunnel m a port) (peer_for_ip m (V4 ip)))"

subsection \<open>Listing and names\<close>

definition peer_info_of :: "env \<Rightarrow> pm \<Rightarrow> nat \<Rightarrow> peer_info" where
  "peer_info_of env m a =
     (let p = heap m ! a
      in \<lparr>pi_key = e_show_key env (p_endpoint_id p), pi_name = p_label p,
          pi_version = p_version p, pi_online = held_is_live m a,
          pi_admission = (case admission_of (pm_session m) (p_endpoint_id p) of
                            None \<Rightarrow> ''unknown'' | Some adm \<Rightarrow> admission_as_str adm),
          pi_they_expose = p_exposed_ports p,
          pi_ip = map_option (\<lambda>s. ip_to_string (sf_ip s)) (p_surface p),
          pi_bound = sort (keys (p_bindings p))\<rparr>)"

definition list_peers :: "env \<Rightarrow> pm \<Rightarrow> peer_info list" where
  "list_peers env m = map (\<lambda>e. peer_info_of env m (snd e)) (peers m)"

definition resolve_name :: "pm \<Rightarrow> string \<Rightarrow> ip_addr option" where
  "resolve_name m lbl =
     (if self_name m = Some lbl then Some (host m)
      else Option.bind
        (find (\<lambda>e. Option.bind (p_surface (heap m ! snd e)) sf_name = Some lbl) (peers m))
        (\<lambda>e. map_option sf_ip (p_surface (heap m ! snd e))))"

subsection \<open>Projecting\<close>

text \<open>The part of \<open>project\<close> that follows the teardown and the choice of an address.\<close>

definition place_surface ::
  "env \<Rightarrow> pm \<Rightarrow> endpoint_id \<Rightarrow> nat \<Rightarrow> ip_addr \<Rightarrow> string option \<Rightarrow> unit result \<times> pm" where
  "place_surface env m key a ip name =
     (case claim_addr env m ip name of
        (Inl e, m') \<Rightarrow> (Inl e, m')
      | (Inr _, m') \<Rightarrow>
          (let m1 = persist_surface env
                      (set_peer m' a (\<lambda>p. p\<lparr>p_surface := Some \<lparr>sf_ip = ip, sf_name = name\<rparr>\<rparr>)) key ip name
           in (Inr (), bind_missing env a ip (p_exposed_ports (heap m1 ! a)) m1)))"

definition teardown_surface :: "env \<Rightarrow> pm \<Rightarrow> nat \<Rightarrow> pm" where
  "teardown_surface env m a =
     (case p_surface (heap m ! a) of
        None \<Rightarrow> m
      | Some old \<Rightarrow> drop_surface env (release_all m a) a)"

definition project ::
  "env \<Rightarrow> pm \<Rightarrow> string \<Rightarrow> ip_addr option \<Rightarrow> string option \<Rightarrow> unit result \<times> pm" where
  "project env m peer_ref ip name =
     (case resolve_peer env m peer_ref of
        None \<Rightarrow> (Inl (NoSuchPeer peer_ref), m)
      | Some k \<Rightarrow>
          (case map_of (peers m) k of
             None \<Rightarrow> (Inl (NoSuchPeer peer_ref), m)
           | Some a \<Rightarrow>
               (let m1 = teardown_surface env m a;
                    name' = (case name of Some n \<Rightarrow> Some n | None \<Rightarrow> p_label (heap m1 ! a))
                in case ip of
                     Some addr \<Rightarrow> place_surface env m1 k a addr name'
                   | None \<Rightarrow>
                       (case allocate (projected_ips m1) (surface_base m1) of
                          Inl e \<Rightarrow> (Inl e, m1)
                        | Inr addr \<Rightarrow> place_surface env m1 k a addr name'))))"

definition unproject :: "env \<Rightarrow> pm \<Rightarrow> string \<Rightarrow> unit result \<times> pm" where
  "unproject env m peer_ref =
     (case resolve_peer env m peer_ref of
        None \<Rightarrow> (Inl (NoSuchPeer peer_ref), m)
      | Some k \<Rightarrow>
          (case map_of (peers m) k of
             None \<Rightarrow> (Inl (NoSuchPeer peer_ref), m)
           | Some a \<Rightarrow>
               (case p_surface (heap m ! a) of
                  None \<Rightarrow> (Inl (NotProjected peer_ref), m)
                | Some s \<Rightarrow>
                    (case unclaim_addr env
                            (set_peer (release_all m a) a (\<lambda>p. p\<lparr>p_surface := None\<rparr>)) (sf_ip s) of
                       (Inl e, m1) \<Rightarrow> (Inl e, m1)
                     | (Inr _, m1) \<Rightarrow>
                         (Inr (), m1\<lparr>surfaces_file :=
                            snd (surfaces_remove (e_surfaces env) (surfaces_file m1) (e_show_key env k))\<rparr>)))))"

definition restore_record :: "env \<Rightarrow> surface_record \<Rightarrow> pm \<Rightarrow> pm" where
  "restore_record env r m =
     (case Option.bind (e_parse_key env (sr_key r)) (map_of (peers m)) of
        None \<Rightarrow> m
      | Some a \<Rightarrow>
          (case claim_addr env m (sr_ip r) (sr_name r) of
             (Inl _, m') \<Rightarrow> m'
           | (Inr _, m') \<Rightarrow>
               set_peer m' a (\<lambda>p. p\<lparr>p_surface := Some \<lparr>sf_ip = sr_ip r, sf_name = sr_name r\<rparr>\<rparr>)))"

definition restore_surfaces :: "env \<Rightarrow> pm \<Rightarrow> pm" where
  "restore_surfaces env m =
     (case surfaces_load (e_surfaces env) (surfaces_file m) of
        Inl _ \<Rightarrow> m
      | Inr records \<Rightarrow> fold (restore_record env) records m)"

end
