(* ===== verification/Peer_Frame.thy ===== *)
theory Peer_Frame
  imports Peer
begin

text \<open>
  What the operations on surfaces and bindings leave alone. All of them work on one peer object:
  they change its surface, its bindings and its port list, the state of the backend, the surface
  file and the count of system calls, and nothing else. The relation \<open>touches\<close> says so, and every
  lemma about the rest of the state follows from it.
\<close>

subsection \<open>The frame\<close>

definition peer_kept :: "peer \<Rightarrow> peer \<Rightarrow> bool" where
  "peer_kept p p' \<longleftrightarrow>
     p_endpoint_id p' = p_endpoint_id p \<and> p_label p' = p_label p \<and> p_dial p' = p_dial p \<and>
     p_enroll_token p' = p_enroll_token p \<and> p_connection p' = p_connection p \<and>
     p_conn_dialed_by_us p' = p_conn_dialed_by_us p \<and> p_version p' = p_version p \<and>
     p_conn_notify p' = p_conn_notify p \<and> p_removed p' = p_removed p"

definition rest_kept :: "pm \<Rightarrow> pm \<Rightarrow> bool" where
  "rest_kept m m' \<longleftrightarrow>
     peers m' = peers m \<and> conns m' = conns m \<and> our_id m' = our_id m \<and>
     pm_session m' = pm_session m \<and> host m' = host m \<and> next_conn_id m' = next_conn_id m \<and>
     pins_file m' = pins_file m \<and> self_name m' = self_name m \<and> enrolling m' = enrolling m \<and>
     loops m' = loops m \<and> length (heap m') = length (heap m) \<and>
     (pm_netstack m' = None \<longleftrightarrow> pm_netstack m = None)"

definition touches :: "nat \<Rightarrow> pm \<Rightarrow> pm \<Rightarrow> bool" where
  "touches a m m' \<longleftrightarrow>
     rest_kept m m' \<and> (\<forall>b. b \<noteq> a \<longrightarrow> heap m' ! b = heap m ! b) \<and> peer_kept (heap m ! a) (heap m' ! a)"

lemma peer_kept_refl [simp]: "peer_kept p p"
  by (simp add: peer_kept_def)

lemma rest_kept_refl [simp]: "rest_kept m m"
  by (simp add: rest_kept_def)

lemma touches_refl [simp]: "touches a m m"
  by (simp add: touches_def)

lemma peer_kept_trans: "peer_kept p q \<Longrightarrow> peer_kept q r \<Longrightarrow> peer_kept p r"
  by (simp add: peer_kept_def)

lemma rest_kept_trans: "rest_kept m m' \<Longrightarrow> rest_kept m' m'' \<Longrightarrow> rest_kept m m''"
  by (simp add: rest_kept_def)

lemma touches_trans: "touches a m m' \<Longrightarrow> touches a m' m'' \<Longrightarrow> touches a m m''"
  unfolding touches_def by (blast intro: peer_kept_trans rest_kept_trans trans)

lemma set_peer_nth:
  "heap (set_peer m a f) ! b = (if b = a \<and> a < length (heap m) then f (heap m ! a) else heap m ! b)"
  by (cases "a < length (heap m)") (auto simp: set_peer_def nth_list_update list_update_beyond not_less)

lemma touches_set: "peer_kept (heap m ! a) (f (heap m ! a)) \<Longrightarrow> touches a m (set_peer m a f)"
  by (auto simp: touches_def set_peer_nth) (simp add: rest_kept_def set_peer_def)

lemma touches_bindings [simp]: "touches a m (set_peer m a (\<lambda>p. p\<lparr>p_bindings := f p\<rparr>))"
  by (rule touches_set) (simp add: peer_kept_def)

lemma touches_surface [simp]: "touches a m (set_peer m a (\<lambda>p. p\<lparr>p_surface := f p\<rparr>))"
  by (rule touches_set) (simp add: peer_kept_def)

lemma touches_exposed [simp]: "touches a m (set_peer m a (\<lambda>p. p\<lparr>p_exposed_ports := f p\<rparr>))"
  by (rule touches_set) (simp add: peer_kept_def)

lemma touches_backend:
  "(ns = None \<longleftrightarrow> pm_netstack m = None) \<Longrightarrow> touches a m (m\<lparr>pm_netstack := ns\<rparr>)"
  by (simp add: touches_def rest_kept_def)

lemma touches_calls [simp]: "touches a m (m\<lparr>calls := n\<rparr>)"
  by (simp add: touches_def rest_kept_def)

lemma touches_file [simp]: "touches a m (m\<lparr>surfaces_file := f\<rparr>)"
  by (simp add: touches_def rest_kept_def)

lemma touches_fold:
  "(\<And>x m. x \<in> set xs \<Longrightarrow> touches a m (f x m)) \<Longrightarrow> touches a m (fold f xs m)"
  by (induction xs arbitrary: m) (auto intro: touches_trans)

subsection \<open>The operations\<close>

lemma touches_release: "touches a m (release_binding m a port)"
proof -
  have "touches a m (m'\<lparr>pm_netstack := Some ns'\<rparr>)" if "touches a m m'" "pm_netstack m' = Some ns" for m' ns ns'
    using that by (intro touches_trans [OF that(1)] touches_backend) simp
  then show ?thesis
    unfolding release_binding_def Let_def by (simp split: option.splits ip_addr.splits)
qed

lemma touches_release_all: "touches a m (release_all m a)"
  unfolding release_all_def by (intro touches_fold touches_release)

lemma touches_claim: "touches a m (snd (claim_addr env m ip name))"
  by (auto simp: claim_addr_def split: option.splits ip_addr.splits intro!: touches_backend)

lemma touches_unclaim: "touches a m (snd (unclaim_addr env m ip))"
  by (auto simp: unclaim_addr_def split: option.splits ip_addr.splits intro!: touches_backend)

lemma bind_loop_calls: "\<exists>k. snd (bind_loop n env m ip port) = m\<lparr>calls := k\<rparr>"
proof (induction n arbitrary: m)
  case 0
  show ?case by (auto intro: exI [of _ "calls m"])
next
  case (Suc n)
  from Suc.IH [of "m\<lparr>calls := calls m + 1\<rparr>"] show ?case by auto
qed

lemma touches_bind_one: "touches a m (bind_one env m a ip port)"
proof -
  obtain ok m' where l: "bind_loop BIND_ATTEMPTS env m ip port = (ok, m')" by fastforce
  then obtain k where "m' = m\<lparr>calls := k\<rparr>"
    using bind_loop_calls [of BIND_ATTEMPTS env m ip port] by auto
  then have "touches a m m'" by simp
  then have loop: "touches a m (case (ok, m') of (True, m') \<Rightarrow> record_binding m' a port (Listener ip)
      | (False, m') \<Rightarrow> m')"
    by (auto simp: record_binding_def intro: touches_trans [OF _ touches_bindings] split: bool.splits)
  show ?thesis
  proof (cases "pm_netstack m")
    case None
    then show ?thesis using loop by (simp add: bind_one_def l)
  next
    case (Some ns)
    have "touches a m (m\<lparr>pm_netstack := Some (listen ns v4 port)\<rparr>)" for v4
      using Some by (intro touches_backend) simp
    then show ?thesis
      using loop Some
      by (cases ip) (auto simp: bind_one_def l [symmetric] record_binding_def intro: touches_trans [OF _ touches_bindings])
  qed
qed

lemma touches_bind_missing: "touches a m (bind_missing env a ip ports m)"
  unfolding bind_missing_def by (rule touches_fold) (simp add: touches_bind_one)

lemma touches_persist: "touches a m (persist_surface env m key ip name)"
  by (simp add: persist_surface_def)

lemma touches_surface_ip: "touches a m (snd (surface_ip env m a ports))"
proof -
  have "touches a m (persist_surface env (set_peer m' a (\<lambda>p. p\<lparr>p_surface := s\<rparr>)) key ip name)"
    if "touches a m m'" for m' s key ip name
    using that by (intro touches_trans [OF _ touches_persist] touches_trans [OF _ touches_surface])
  then show ?thesis
    using touches_claim [of a m env]
    by (fastforce simp: surface_ip_def Let_def split: option.splits sum.splits prod.splits
        dest: arg_cong [where f = snd])
qed

lemma touches_update_ports: "touches a m (update_peer_ports env m a ports)"
proof -
  let ?m = "fold (\<lambda>port m. if port \<in> set ports then m else release_binding m a port)
    (p_exposed_ports (heap m ! a)) m"
  obtain r m2 where s: "surface_ip env ?m a ports = (r, m2)" by fastforce
  have "touches a m ?m" by (rule touches_fold) (simp add: touches_release)
  moreover have "touches a ?m m2" using touches_surface_ip [of a ?m env ports] s by simp
  ultimately have m2: "touches a m m2" by (rule touches_trans)
  show ?thesis
    unfolding update_peer_ports_def Let_def s
    using m2 touches_trans [OF m2 touches_bind_missing]
    by (cases r) (auto intro!: touches_trans [OF _ touches_exposed])
qed

lemma touches_drop_surface: "touches a m (drop_surface env m a)"
  by (auto simp: drop_surface_def split: option.splits
      intro: touches_trans [OF touches_surface touches_unclaim])

lemma touches_teardown: "touches a m (teardown_surface env m a)"
  by (auto simp: teardown_surface_def split: option.splits
      intro: touches_trans [OF touches_release_all touches_drop_surface])

lemma touches_place: "touches a m (snd (place_surface env m key a ip name))"
proof -
  obtain r m' where c: "claim_addr env m ip name = (r, m')" by fastforce
  then have "touches a m m'" using touches_claim [of a m env ip name] by simp
  then show ?thesis
    by (auto simp: place_surface_def c Let_def split: sum.splits
        intro!: touches_trans [OF _ touches_bind_missing] touches_trans [OF _ touches_persist]
          touches_trans [OF _ touches_surface])
qed

lemmas touching = touches_release touches_release_all touches_claim touches_unclaim
  touches_bind_one touches_bind_missing touches_persist touches_surface_ip touches_update_ports
  touches_drop_surface touches_teardown touches_place

subsection \<open>What the frame keeps\<close>

lemma touches_keeps:
  assumes "touches a m m'"
  shows "peers m' = peers m" "conns m' = conns m" "our_id m' = our_id m"
    "pm_session m' = pm_session m" "host m' = host m" "next_conn_id m' = next_conn_id m"
    "pins_file m' = pins_file m" "self_name m' = self_name m" "enrolling m' = enrolling m"
    "loops m' = loops m" "length (heap m') = length (heap m)"
    "pm_netstack m' = None \<longleftrightarrow> pm_netstack m = None"
    "b \<noteq> a \<Longrightarrow> heap m' ! b = heap m ! b"
  using assms unfolding touches_def rest_kept_def by blast+

lemma touches_keeps_peer: "touches a m m' \<Longrightarrow> peer_kept (heap m ! b) (heap m' ! b)"
  by (cases "b = a") (auto simp: touches_def)

lemmas peer_keeps = touches_keeps_peer [unfolded peer_kept_def]

end
