(* ===== verification/Peer_Bind.thy ===== *)
theory Peer_Bind
  imports Peer_Frame
begin

text \<open>
  Bindings follow announcements. The invariant of a peer object, \<open>peer_wf\<close>: its listeners are for
  ports the peer announced, and each sits at the address of the peer's surface, so without a
  surface there are none. Every operation on surfaces and bindings keeps it.
\<close>

subsection \<open>The invariant of a peer object\<close>

fun binding_at :: "bool \<Rightarrow> ip_addr \<Rightarrow> binding \<Rightarrow> bool" where
  "binding_at tun ip (Listener ip') = (ip' = ip)"
| "binding_at tun ip TunPlaceholder = (tun \<and> (case ip of V4 _ \<Rightarrow> True | V6 _ \<Rightarrow> False))"

definition bound_at_surface :: "bool \<Rightarrow> peer \<Rightarrow> bool" where
  "bound_at_surface tun p \<longleftrightarrow> hash_ok (p_bindings p) \<and>
     (\<forall>e \<in> set (p_bindings p). \<exists>s. p_surface p = Some s \<and> binding_at tun (sf_ip s) (snd e))"

definition peer_wf :: "bool \<Rightarrow> peer \<Rightarrow> bool" where
  "peer_wf tun p \<longleftrightarrow> bound_at_surface tun p \<and> set (keys (p_bindings p)) \<subseteq> set (p_exposed_ports p)"

abbreviation on_tun :: "pm \<Rightarrow> bool" where
  "on_tun m \<equiv> pm_netstack m \<noteq> None"

lemma bound_at_no_surface:
  "bound_at_surface tun p \<Longrightarrow> p_surface p = None \<Longrightarrow> p_bindings p = []"
  by (cases "p_bindings p") (auto simp: bound_at_surface_def)

lemma bound_at_Nil [simp]: "p_bindings p = [] \<Longrightarrow> bound_at_surface tun p"
  by (simp add: bound_at_surface_def)

lemma peer_wf_new: "peer_wf tun (peer_new key lbl d tok c)"
  by (simp add: peer_wf_def peer_new_def)

subsection \<open>Releasing\<close>

lemma heap_release:
  "heap (release_binding m a port) =
     heap (set_peer m a (\<lambda>p. p\<lparr>p_bindings := AList.delete port (p_bindings p)\<rparr>))"
  by (simp add: release_binding_def Let_def split: option.splits ip_addr.splits)

lemma peer_release:
  "a < length (heap m) \<Longrightarrow>
     heap (release_binding m a port) ! a =
       (heap m ! a)\<lparr>p_bindings := AList.delete port (p_bindings (heap m ! a))\<rparr>"
  by (simp add: heap_release set_peer_nth)

lemma length_heap_release [simp]: "length (heap (release_binding m a port)) = length (heap m)"
  using touches_keeps(11) [OF touches_release] .

definition unbind :: "u16 list \<Rightarrow> (u16 \<times> binding) list \<Rightarrow> (u16 \<times> binding) list" where
  "unbind ports bs = filter (\<lambda>e. fst e \<notin> set ports) bs"

lemma peer_release_many:
  "a < length (heap m) \<Longrightarrow>
     heap (fold (\<lambda>port m. if P port then m else release_binding m a port) ports m) ! a =
       (heap m ! a)\<lparr>p_bindings := unbind (filter (\<lambda>port. \<not> P port) ports) (p_bindings (heap m ! a))\<rparr>"
proof (induction ports arbitrary: m)
  case Nil
  show ?case by (simp add: unbind_def)
next
  case (Cons port ports)
  have "AList.delete port bs = filter (\<lambda>e. fst e \<noteq> port) bs" for bs :: "(u16 \<times> binding) list"
    by (auto simp: AList.delete_eq case_prod_beta intro: filter_cong)
  then show ?case
    using Cons.IH [of m] Cons.IH [of "release_binding m a port"] Cons.prems
    by (auto simp: peer_release unbind_def conj_commute intro!: arg_cong [where f = "\<lambda>b. (heap m ! a)\<lparr>p_bindings := b\<rparr>"]
        filter_cong)
qed

lemma peer_release_all:
  assumes "a < length (heap m)"
  shows "heap (release_all m a) ! a = (heap m ! a)\<lparr>p_bindings := []\<rparr>"
proof -
  have "unbind (keys bs) bs = []" for bs :: "(u16 \<times> binding) list"
    by (auto simp: unbind_def filter_empty_conv)
  then show ?thesis
    using peer_release_many [OF assms, of "\<lambda>_. False" "keys (p_bindings (heap m ! a))"]
    by (simp add: release_all_def)
qed

subsection \<open>Binding\<close>

lemma bind_one_peer:
  assumes "a < length (heap m)"
  shows "heap (bind_one env m a ip port) ! a = heap m ! a \<or>
    (\<exists>b. binding_at (on_tun m) ip b \<and> heap (bind_one env m a ip port) ! a =
       (heap m ! a)\<lparr>p_bindings := AList.update port b (p_bindings (heap m ! a))\<rparr>)"
proof -
  obtain ok m' where l: "bind_loop BIND_ATTEMPTS env m ip port = (ok, m')" by fastforce
  then have h: "heap m' = heap m"
    using bind_loop_calls [of BIND_ATTEMPTS env m ip port] by auto
  have loop: "heap (case (ok, m') of (True, m') \<Rightarrow> record_binding m' a port (Listener ip) | (False, m') \<Rightarrow> m') ! a
      \<in> {heap m ! a, (heap m ! a)\<lparr>p_bindings := AList.update port (Listener ip) (p_bindings (heap m ! a))\<rparr>}"
    using assms h by (cases ok) (auto simp: record_binding_def set_peer_nth)
  show ?thesis
  proof (cases "\<exists>ns v4. pm_netstack m = Some ns \<and> ip = V4 v4")
    case True
    then show ?thesis
      using assms by (auto simp: bind_one_def record_binding_def set_peer_nth intro!: exI [of _ TunPlaceholder])
  next
    case False
    then have "bind_one env m a ip port =
        (case (ok, m') of (True, m') \<Rightarrow> record_binding m' a port (Listener ip) | (False, m') \<Rightarrow> m')"
      unfolding bind_one_def l by (auto split: option.splits ip_addr.splits)
    then show ?thesis using loop by (auto intro: exI [of _ "Listener ip"])
  qed
qed

text \<open>What binding ports at an address does to the bindings of a peer: it keeps the old ones and
  adds some of the ports, each at that address.\<close>

definition more_bound ::
  "bool \<Rightarrow> ip_addr \<Rightarrow> u16 set \<Rightarrow> (u16 \<times> binding) list \<Rightarrow> (u16 \<times> binding) list \<Rightarrow> bool" where
  "more_bound tun ip ports bs bs' \<longleftrightarrow> (hash_ok bs \<longrightarrow> hash_ok bs') \<and>
     set (keys bs) \<subseteq> set (keys bs') \<and> set (keys bs') \<subseteq> set (keys bs) \<union> ports \<and>
     (\<forall>e \<in> set bs'. e \<in> set bs \<or> binding_at tun ip (snd e))"

lemma more_bound_refl [simp]: "more_bound tun ip ports bs bs"
  by (auto simp: more_bound_def)

lemma more_bound_trans:
  assumes "more_bound tun ip P bs cs" "more_bound tun ip Q cs ds"
  shows "more_bound tun ip (P \<union> Q) bs ds"
proof -
  have "\<forall>e \<in> set ds. e \<in> set bs \<or> binding_at tun ip (snd e)"
    using assms unfolding more_bound_def by blast
  moreover have "set (keys bs) \<subseteq> set (keys ds)" "set (keys ds) \<subseteq> set (keys bs) \<union> (P \<union> Q)"
    using assms unfolding more_bound_def by (blast dest: subsetD)+
  ultimately show ?thesis using assms unfolding more_bound_def by blast
qed

lemma more_bound_update:
  "binding_at tun ip b \<Longrightarrow> more_bound tun ip {port} bs (AList.update port b bs)"
proof -
  assume b: "binding_at tun ip b"
  have "e \<in> set bs \<or> e = (port, b)" if "e \<in> set (AList.update port b bs)" for e
    using that by (induction bs) (auto split: if_splits)
  then have "\<forall>e \<in> set (AList.update port b bs). e \<in> set bs \<or> binding_at tun ip (snd e)"
    using b by force
  then show ?thesis by (auto simp: more_bound_def hm.ok_put dom_update)
qed

lemma bind_one_more:
  assumes "a < length (heap m)"
  shows "\<exists>bs. heap (bind_one env m a ip port) ! a = (heap m ! a)\<lparr>p_bindings := bs\<rparr> \<and>
    more_bound (on_tun m) ip {port} (p_bindings (heap m ! a)) bs"
  using bind_one_peer [OF assms, of env ip port]
proof (elim disjE exE conjE)
  assume "heap (bind_one env m a ip port) ! a = heap m ! a"
  then show ?thesis by (intro exI [of _ "p_bindings (heap m ! a)"]) simp
qed (auto dest: more_bound_update)

lemma bind_missing_more:
  "a < length (heap m) \<Longrightarrow>
     \<exists>bs. heap (bind_missing env a ip ports m) ! a = (heap m ! a)\<lparr>p_bindings := bs\<rparr> \<and>
       more_bound (on_tun m) ip (set ports) (p_bindings (heap m ! a)) bs"
proof (induction ports arbitrary: m)
  case Nil
  show ?case by (intro exI [of _ "p_bindings (heap m ! a)"]) (simp add: bind_missing_def)
next
  case (Cons port ports)
  obtain m1 where m1: "m1 = (if map_of (p_bindings (heap m ! a)) port \<noteq> None then m
      else bind_one env m a ip port)" by blast
  have t: "touches a m m1" by (simp add: m1 touches_bind_one)
  have "\<exists>bs. heap m1 ! a = (heap m ! a)\<lparr>p_bindings := bs\<rparr> \<and>
      more_bound (on_tun m) ip {port} (p_bindings (heap m ! a)) bs"
    using bind_one_more [OF Cons.prems, of env ip port] by (cases "m1 = m") (auto simp: m1 split: if_splits
        intro: exI [of _ "p_bindings (heap m ! a)"])
  then obtain bs where bs: "heap m1 ! a = (heap m ! a)\<lparr>p_bindings := bs\<rparr>"
    "more_bound (on_tun m) ip {port} (p_bindings (heap m ! a)) bs" by blast
  obtain cs where cs: "heap (bind_missing env a ip ports m1) ! a = (heap m1 ! a)\<lparr>p_bindings := cs\<rparr>"
    "more_bound (on_tun m1) ip (set ports) (p_bindings (heap m1 ! a)) cs"
    using Cons.IH [of m1] touches_keeps(11) [OF t] Cons.prems by auto
  have "bind_missing env a ip (port # ports) m = bind_missing env a ip ports m1"
    by (simp add: bind_missing_def m1)
  moreover have "on_tun m1 = on_tun m" using touches_keeps(12) [OF t] by simp
  ultimately show ?case
    using bs cs more_bound_trans [OF bs(2)] by (intro exI [of _ cs]) auto
qed

lemma more_bound_at_surface:
  assumes "more_bound tun ip P (p_bindings p) bs" "bound_at_surface tun p" "p_surface p = Some s"
    "sf_ip s = ip"
  shows "bound_at_surface tun (p\<lparr>p_bindings := bs\<rparr>)"
proof -
  have "\<exists>s. p_surface p = Some s \<and> binding_at tun (sf_ip s) (snd e)" if "e \<in> set bs" for e
    using that assms unfolding more_bound_def bound_at_surface_def by blast
  then show ?thesis using assms(1,2) by (auto simp: bound_at_surface_def more_bound_def)
qed

subsection \<open>Surfaces\<close>

lemma claim_addr_heap: "heap (snd (claim_addr env m ip name)) = heap m"
  by (simp add: claim_addr_def split: option.splits ip_addr.splits)

lemma unclaim_addr_heap: "heap (snd (unclaim_addr env m ip)) = heap m"
  by (simp add: unclaim_addr_def split: option.splits ip_addr.splits)

lemma surface_ip_peer:
  assumes "a < length (heap m)" "surface_ip env m a ports = (r, m')"
  shows "(case r of
      None \<Rightarrow> heap m' = heap m \<and> p_surface (heap m ! a) = None
    | Some ip \<Rightarrow> \<exists>s. sf_ip s = ip \<and> heap m' ! a = (heap m ! a)\<lparr>p_surface := Some s\<rparr> \<and>
        (p_surface (heap m ! a) = None \<or> p_surface (heap m ! a) = Some s))"
proof (cases "p_surface (heap m ! a)")
  case (Some s)
  have "heap m ! a = (heap m ! a)\<lparr>p_surface := Some s\<rparr>"
    using Some by simp
  with Some assms(2) show ?thesis by (auto simp: surface_ip_def intro: exI [of _ s])
next
  case None
  show ?thesis
  proof (cases "allocate (projected_ips m) (surface_base m)")
    case (Inl e)
    with None assms(2) show ?thesis by (auto simp: surface_ip_def split: if_splits)
  next
    case (Inr ip)
    obtain name where n: "name = Some (case p_label (heap m ! a) of Some l \<Rightarrow> l
        | None \<Rightarrow> default_name (e_show_key env) (p_endpoint_id (heap m ! a)))" by blast
    obtain c m1 where c: "claim_addr env m ip name = (c, m1)" by fastforce
    then have h: "heap m1 = heap m" using claim_addr_heap [of env m ip name] by simp
    let ?s = "\<lparr>sf_ip = ip, sf_name = name\<rparr>"
    have "ports = [] \<and> r = None \<and> m' = m \<or> (\<exists>e. c = Inl e) \<and> r = None \<and> m' = m1 \<or>
        r = Some ip \<and> m' = persist_surface env (set_peer m1 a (\<lambda>p. p\<lparr>p_surface := Some ?s\<rparr>))
          (p_endpoint_id (heap m ! a)) ip name"
      using None Inr assms(2) c n by (cases c) (auto simp: surface_ip_def Let_def split: if_splits)
    then show ?thesis
      using h None assms(1) by (auto simp: persist_surface_def set_peer_nth intro!: exI [of _ ?s])
  qed
qed

subsection \<open>Announced ports\<close>

text \<open>The states \<open>update_peer_ports\<close> goes through, seen at the peer: unannounced ports are
  released, a surface is found or made, missing ports are bound, the new list is recorded.\<close>

lemma update_ports_stages:
  assumes "a < length (heap m)"
  obtains r m2 where
    "surface_ip env (fold (\<lambda>port m. if port \<in> set ports then m else release_binding m a port)
       (p_exposed_ports (heap m ! a)) m) a ports = (r, m2)"
    "a < length (heap m2)" "on_tun m2 = on_tun m"
    "update_peer_ports env m a ports =
       set_peer (case r of None \<Rightarrow> m2 | Some ip \<Rightarrow> bind_missing env a ip ports m2) a
         (\<lambda>p. p\<lparr>p_exposed_ports := ports\<rparr>)"
    "case r of
       None \<Rightarrow> p_surface (heap m ! a) = None \<and> heap m2 ! a = (heap m ! a)\<lparr>p_bindings :=
         unbind (filter (\<lambda>x. x \<notin> set ports) (p_exposed_ports (heap m ! a))) (p_bindings (heap m ! a))\<rparr>
     | Some ip \<Rightarrow> \<exists>s. sf_ip s = ip \<and> heap m2 ! a = (heap m ! a)\<lparr>p_bindings :=
         unbind (filter (\<lambda>x. x \<notin> set ports) (p_exposed_ports (heap m ! a))) (p_bindings (heap m ! a)),
         p_surface := Some s\<rparr> \<and> (p_surface (heap m ! a) = None \<or> p_surface (heap m ! a) = Some s)"
proof -
  let ?m = "fold (\<lambda>port m. if port \<in> set ports then m else release_binding m a port)
    (p_exposed_ports (heap m ! a)) m"
  obtain r m2 where r: "surface_ip env ?m a ports = (r, m2)" by fastforce
  have t: "touches a m ?m" by (rule touches_fold) (simp add: touches_release)
  have t2: "touches a ?m m2" using touches_surface_ip [of a ?m env ports] r by simp
  have len: "a < length (heap ?m)" using touches_keeps(11) [OF t] assms by simp
  have peer: "heap ?m ! a = (heap m ! a)\<lparr>p_bindings :=
      unbind (filter (\<lambda>x. x \<notin> set ports) (p_exposed_ports (heap m ! a))) (p_bindings (heap m ! a))\<rparr>"
    by (rule peer_release_many [OF assms])
  show thesis
  proof (rule that [OF r])
    show "a < length (heap m2)" using len touches_keeps(11) [OF t2] by simp
    show "on_tun m2 = on_tun m" using touches_keeps(12) [OF t] touches_keeps(12) [OF t2] by simp
    show "update_peer_ports env m a ports =
       set_peer (case r of None \<Rightarrow> m2 | Some ip \<Rightarrow> bind_missing env a ip ports m2) a
         (\<lambda>p. p\<lparr>p_exposed_ports := ports\<rparr>)"
      unfolding update_peer_ports_def Let_def r by (cases r) simp_all
  qed (use surface_ip_peer [OF len r] peer in \<open>auto split: option.splits\<close>)
qed

lemma unbind_bound:
  "bound_at_surface tun p \<Longrightarrow> bound_at_surface tun (p\<lparr>p_bindings := unbind xs (p_bindings p)\<rparr>)"
  by (auto simp: bound_at_surface_def unbind_def hash_ok_def distinct_fst_filter)

lemma unbind_keys:
  assumes "set (keys bs) \<subseteq> set old"
  shows "set (keys (unbind (filter (\<lambda>x. x \<notin> set new) old) bs)) = set (keys bs) \<inter> set new"
  using assms by (force simp: unbind_def)

lemma update_ports_wf:
  assumes a: "a < length (heap m)" and wf: "peer_wf (on_tun m) (heap m ! a)"
  shows "peer_wf (on_tun m) (heap (update_peer_ports env m a ports) ! a)"
proof -
  let ?p = "heap m ! a"
  let ?bs = "unbind (filter (\<lambda>x. x \<notin> set ports) (p_exposed_ports ?p)) (p_bindings ?p)"
  have ex: "set (keys (p_bindings ?p)) \<subseteq> set (p_exposed_ports ?p)" and
    b0: "bound_at_surface (on_tun m) ?p" using wf by (auto simp: peer_wf_def)
  have b: "bound_at_surface (on_tun m) (?p\<lparr>p_bindings := ?bs\<rparr>)" using unbind_bound [OF b0] .
  have k: "set (keys ?bs) \<subseteq> set ports" using unbind_keys [OF ex, of ports] by simp
  obtain r m2 where st: "a < length (heap m2)" "on_tun m2 = on_tun m"
    "update_peer_ports env m a ports =
       set_peer (case r of None \<Rightarrow> m2 | Some ip \<Rightarrow> bind_missing env a ip ports m2) a
         (\<lambda>p. p\<lparr>p_exposed_ports := ports\<rparr>)"
    "case r of None \<Rightarrow> p_surface ?p = None \<and> heap m2 ! a = ?p\<lparr>p_bindings := ?bs\<rparr>
     | Some ip \<Rightarrow> \<exists>s. sf_ip s = ip \<and> heap m2 ! a = ?p\<lparr>p_bindings := ?bs, p_surface := Some s\<rparr> \<and>
         (p_surface ?p = None \<or> p_surface ?p = Some s)"
    by (rule update_ports_stages [OF a])
  show ?thesis
  proof (cases r)
    case None
    then show ?thesis
      using st b k by (simp add: set_peer_nth peer_wf_def bound_at_surface_def)
  next
    case (Some ip)
    then obtain s where s: "sf_ip s = ip" "heap m2 ! a = ?p\<lparr>p_bindings := ?bs, p_surface := Some s\<rparr>"
      "p_surface ?p = None \<or> p_surface ?p = Some s" using st(4) by auto
    have b2: "bound_at_surface (on_tun m) (heap m2 ! a)"
    proof (cases "p_surface ?p")
      case None
      then show ?thesis using bound_at_no_surface [OF b0] s(2) by (simp add: unbind_def)
    qed (use b s in \<open>auto simp: bound_at_surface_def\<close>)
    obtain cs where cs: "heap (bind_missing env a ip ports m2) ! a = (heap m2 ! a)\<lparr>p_bindings := cs\<rparr>"
      "more_bound (on_tun m) ip (set ports) (p_bindings (heap m2 ! a)) cs"
      using bind_missing_more [OF st(1), of env ip ports] st(2) by auto
    have "bound_at_surface (on_tun m) ((heap m2 ! a)\<lparr>p_bindings := cs\<rparr>)"
      using more_bound_at_surface [OF cs(2) b2] s by simp
    moreover have "set (keys cs) \<subseteq> set (keys ?bs) \<union> set ports"
      using cs(2) s(2) unfolding more_bound_def by simp
    then have "set (keys cs) \<subseteq> set ports" using k by blast
    moreover have "a < length (heap (bind_missing env a ip ports m2))"
      using st(1) touches_keeps(11) [OF touches_bind_missing] by simp
    ultimately show ?thesis
      using st(3) Some cs(1) by (simp add: set_peer_nth peer_wf_def bound_at_surface_def)
  qed
qed

subsection \<open>Retrying binds\<close>

text \<open>A bind fails at most four times in a row.\<close>

definition binds_in_time :: "env \<Rightarrow> bool" where
  "binds_in_time env \<longleftrightarrow> (\<forall>n ip port. \<exists>k < BIND_ATTEMPTS. e_bind env (n + k) ip port)"

lemma bind_loop_succeeds:
  "\<exists>k < n. e_bind env (calls m + k) ip port \<Longrightarrow> fst (bind_loop n env m ip port)"
proof (induction n arbitrary: m)
  case (Suc n)
  show ?case
  proof (cases "e_bind env (calls m) ip port")
    case False
    obtain k where k: "k < Suc n" "e_bind env (calls m + k) ip port" using Suc.prems by blast
    then obtain j where "k = Suc j" using False by (cases k) auto
    then show ?thesis using Suc.IH [of "m\<lparr>calls := calls m + 1\<rparr>"] k False by auto
  qed simp
qed simp

lemma bind_one_binds:
  assumes "binds_in_time env" "a < length (heap m)"
  shows "port \<in> set (keys (p_bindings (heap (bind_one env m a ip port) ! a)))"
proof -
  obtain m' where l: "bind_loop BIND_ATTEMPTS env m ip port = (True, m')"
    using bind_loop_succeeds [of BIND_ATTEMPTS env m ip port] assms(1)
    by (cases "bind_loop BIND_ATTEMPTS env m ip port") (auto simp: binds_in_time_def)
  then have "heap m' = heap m" using bind_loop_calls [of BIND_ATTEMPTS env m ip port] by auto
  moreover have "bind_one env m a ip port = record_binding m' a port (Listener ip) \<or>
      (\<exists>ns. bind_one env m a ip port = record_binding (m\<lparr>pm_netstack := ns\<rparr>) a port TunPlaceholder)"
    unfolding bind_one_def l by (auto split: option.splits ip_addr.splits)
  ultimately show ?thesis
    using assms(2) by (auto simp: record_binding_def set_peer_nth dom_update)
qed

lemma bind_missing_binds:
  "binds_in_time env \<Longrightarrow> a < length (heap m) \<Longrightarrow>
     set ports \<subseteq> set (keys (p_bindings (heap (bind_missing env a ip ports m) ! a)))"
proof (induction ports arbitrary: m)
  case (Cons port ports)
  obtain m1 where m1: "m1 = (if map_of (p_bindings (heap m ! a)) port \<noteq> None then m
      else bind_one env m a ip port)" by blast
  have t: "touches a m m1" by (simp add: m1 touches_bind_one)
  have len: "a < length (heap m1)" using Cons.prems(2) touches_keeps(11) [OF t] by simp
  have "port \<in> set (keys (p_bindings (heap m1 ! a)))"
    using bind_one_binds [OF Cons.prems, of port ip] by (auto simp: m1 dest: map_of_some_key)
  moreover obtain cs where "heap (bind_missing env a ip ports m1) ! a = (heap m1 ! a)\<lparr>p_bindings := cs\<rparr>"
    "more_bound (on_tun m1) ip (set ports) (p_bindings (heap m1 ! a)) cs"
    using bind_missing_more [OF len] by blast
  moreover have "bind_missing env a ip (port # ports) m = bind_missing env a ip ports m1"
    by (simp add: bind_missing_def m1)
  ultimately show ?case
    using Cons.IH [OF Cons.prems(1) len] by (auto simp: more_bound_def)
qed simp

end
