(* ===== verification/Peer_Wf.thy ===== *)
theory Peer_Wf
  imports Peer_Bind
begin

text \<open>
  The invariant of the peer manager, and that every operation keeps it: the peer map and the core
  agree on who is a peer, every map entry is a live object of its key, a connection leads to the key of its object, every
  object's bindings follow its announcement and its surface, and the core is well formed.
\<close>

subsection \<open>The invariant\<close>

definition object_wf :: "pm \<Rightarrow> peer \<Rightarrow> bool" where
  "object_wf m p \<longleftrightarrow> peer_wf (on_tun m) p \<and>
     (\<forall>c. p_connection p = Some c \<longrightarrow> c < length (conns m) \<and> c_remote (conns m ! c) = p_endpoint_id p)"

definition map_wf :: "pm \<Rightarrow> bool" where
  "map_wf m \<longleftrightarrow> hash_ok (peers m) \<and>
     (\<forall>e \<in> set (peers m). snd e < length (heap m) \<and> p_endpoint_id (heap m ! snd e) = fst e \<and>
        \<not> p_removed (heap m ! snd e))"

text \<open>\<open>pm_wf_but D\<close> allows for keys \<open>D\<close> that have left the map and not yet the core, which is the
  case in the middle of an eviction.\<close>

definition pm_wf_but :: "endpoint_id set \<Rightarrow> pm \<Rightarrow> bool" where
  "pm_wf_but D m \<longleftrightarrow> session_wf (pm_session m) \<and> map_wf m \<and>
     (\<forall>a < length (heap m). object_wf m (heap m ! a)) \<and>
     set (keys (peers m)) = set (keys (s_peers (pm_session m))) - D \<and>
     (\<forall>e \<in> set (enrolling m). en_conn (snd e) < length (conns m))"

abbreviation pm_wf :: "pm \<Rightarrow> bool" where
  "pm_wf \<equiv> pm_wf_but {}"

lemma pm_wfD:
  assumes "pm_wf_but D m"
  shows "session_wf (pm_session m)" "hash_ok (peers m)"
    "set (keys (peers m)) = set (keys (s_peers (pm_session m))) - D"
    "a < length (heap m) \<Longrightarrow> peer_wf (on_tun m) (heap m ! a)"
    "a < length (heap m) \<Longrightarrow> p_connection (heap m ! a) = Some c \<Longrightarrow> c < length (conns m)"
    "map_of (peers m) k = Some a \<Longrightarrow> a < length (heap m)"
    "map_of (peers m) k = Some a \<Longrightarrow> p_endpoint_id (heap m ! a) = k"
    "map_of (peers m) k = Some a \<Longrightarrow> \<not> p_removed (heap m ! a)"
    "map_of (enrolling m) i = Some en \<Longrightarrow> en_conn en < length (conns m)"
    "a < length (heap m) \<Longrightarrow> p_connection (heap m ! a) = Some c \<Longrightarrow>
       c_remote (conns m ! c) = p_endpoint_id (heap m ! a)"
proof -
  show "session_wf (pm_session m)" "hash_ok (peers m)"
    "set (keys (peers m)) = set (keys (s_peers (pm_session m))) - D"
    "a < length (heap m) \<Longrightarrow> peer_wf (on_tun m) (heap m ! a)"
    "a < length (heap m) \<Longrightarrow> p_connection (heap m ! a) = Some c \<Longrightarrow> c < length (conns m)"
    using assms unfolding pm_wf_but_def map_wf_def object_wf_def by blast+
  show "c_remote (conns m ! c) = p_endpoint_id (heap m ! a)"
    if "a < length (heap m)" "p_connection (heap m ! a) = Some c"
    using assms that unfolding pm_wf_but_def object_wf_def by blast
  have en: "en_conn (snd e) < length (conns m)" if "e \<in> set (enrolling m)" for e
    using assms that unfolding pm_wf_but_def by blast
  show "en_conn en < length (conns m)" if "map_of (enrolling m) i = Some en"
    using en [OF map_of_SomeD [OF that]] by simp
  have pe: "snd e < length (heap m) \<and> p_endpoint_id (heap m ! snd e) = fst e \<and> \<not> p_removed (heap m ! snd e)"
    if "e \<in> set (peers m)" for e
    using assms that unfolding pm_wf_but_def map_wf_def by blast
  show "a < length (heap m)" "p_endpoint_id (heap m ! a) = k" "\<not> p_removed (heap m ! a)"
    if "map_of (peers m) k = Some a"
    using pe [OF map_of_SomeD [OF that]] by simp_all
qed

lemma member_iff_admitted:
  assumes "pm_wf m"
  shows "map_of (peers m) k = None \<longleftrightarrow> map_of (s_peers (pm_session m)) k = None"
  using pm_wfD(3) [OF assms] by (simp add: map_of_eq_None_iff)

subsection \<open>Steps that keep it\<close>

lemma pm_wf_touches:
  assumes t: "touches a m m'" and wf: "pm_wf_but D m" and p: "a < length (heap m) \<Longrightarrow> peer_wf (on_tun m) (heap m' ! a)"
  shows "pm_wf_but D m'"
proof -
  note k = touches_keeps [OF t]
  have c: "p_connection (heap m' ! b) = p_connection (heap m ! b)" for b
    using touches_keeps_peer [OF t] by (simp add: peer_kept_def)
  have i: "p_endpoint_id (heap m' ! b) = p_endpoint_id (heap m ! b)" for b
    using touches_keeps_peer [OF t] by (simp add: peer_kept_def)
  have r: "p_removed (heap m' ! b) = p_removed (heap m ! b)" for b
    using touches_keeps_peer [OF t] by (simp add: peer_kept_def)
  have "object_wf m' (heap m' ! b)" if "b < length (heap m')" for b
    using that wf p k(13) [of b] by (cases "b = a") (auto simp: object_wf_def pm_wf_but_def c i k(2,11,12))
  then show ?thesis using wf by (simp add: pm_wf_but_def map_wf_def k(1,2,4,9,11) i r)
qed

lemma pm_wf_set_peer:
  assumes "pm_wf_but D m"
    and "p_bindings (f (heap m ! a)) = p_bindings (heap m ! a)" "p_surface (f (heap m ! a)) = p_surface (heap m ! a)"
      "p_exposed_ports (f (heap m ! a)) = p_exposed_ports (heap m ! a)"
      "p_endpoint_id (f (heap m ! a)) = p_endpoint_id (heap m ! a)"
    and "p_removed (f (heap m ! a)) \<Longrightarrow> p_removed (heap m ! a) \<or> a \<notin> snd ` set (peers m)"
    and "\<And>c. a < length (heap m) \<Longrightarrow> p_connection (f (heap m ! a)) = Some c \<Longrightarrow>
      c < length (conns m) \<and> c_remote (conns m ! c) = p_endpoint_id (heap m ! a)"
  shows "pm_wf_but D (set_peer m a f)"
proof -
  have obj: "object_wf m (heap (set_peer m a f) ! b)" if "b < length (heap m)" for b
    using assms that by (auto simp: set_peer_nth pm_wf_but_def object_wf_def peer_wf_def bound_at_surface_def)
  have len: "length (heap (set_peer m a f)) = length (heap m)" by (simp add: set_peer_def)
  have rest: "peers (set_peer m a f) = peers m" "pm_session (set_peer m a f) = pm_session m"
    "conns (set_peer m a f) = conns m" "pm_netstack (set_peer m a f) = pm_netstack m"
    "enrolling (set_peer m a f) = enrolling m" by (simp_all add: set_peer_def)
  have map: "map_wf (set_peer m a f)"
    using assms unfolding map_wf_def rest len pm_wf_but_def by (auto simp: set_peer_nth)
  show ?thesis
    using assms(1) obj map by (simp add: pm_wf_but_def rest len object_wf_def)
qed

lemma pm_wf_conns:
  assumes "pm_wf_but D m" and r: "map c_remote cs = map c_remote (conns m)"
  shows "pm_wf_but D (m\<lparr>conns := cs\<rparr>)"
proof -
  have l: "length cs = length (conns m)" using map_eq_imp_length_eq [OF r] .
  have "c_remote (cs ! c) = c_remote (conns m ! c)" if "c < length (conns m)" for c
    using arg_cong [OF r, of "\<lambda>xs. xs ! c"] that l by simp
  then have "object_wf (m\<lparr>conns := cs\<rparr>) p = object_wf m p" for p
    using l by (auto simp: object_wf_def)
  then show ?thesis using assms(1) l by (simp add: pm_wf_but_def map_wf_def)
qed

lemma same_remotes: "c_remote x = c_remote (xs ! c) \<Longrightarrow> map c_remote (xs[c := x]) = map c_remote xs"
  by (cases "c < length xs") (simp_all add: map_update list_update_beyond not_less, metis list_update_id nth_map)

lemma pm_wf_close: "pm_wf_but D m \<Longrightarrow> pm_wf_but D (close_conn m c reason)"
  unfolding close_conn_def by (rule pm_wf_conns, assumption, rule same_remotes) (simp split: option.splits)

lemma close_remote [simp]: "c_remote (conns (close_conn m c reason) ! d) = c_remote (conns m ! d)"
proof (cases "c < length (conns m)")
  case True
  then show ?thesis by (cases "d = c") (simp_all add: close_conn_def split: option.splits)
qed (simp add: close_conn_def list_update_beyond not_less)

lemma close_length [simp]: "length (conns (close_conn m c reason)) = length (conns m)"
  by (simp add: close_conn_def)

lemma close_heap [simp]: "heap (close_conn m c reason) = heap m"
  by (simp add: close_conn_def)

lemma pm_wf_irrelevant [simp]:
  "pm_wf_but D (m\<lparr>pins_file := f\<rparr>) = pm_wf_but D m" "pm_wf_but D (m\<lparr>surfaces_file := f\<rparr>) = pm_wf_but D m"
  "pm_wf_but D (m\<lparr>next_conn_id := n\<rparr>) = pm_wf_but D m" "pm_wf_but D (m\<lparr>calls := i\<rparr>) = pm_wf_but D m"
  by (simp_all add: pm_wf_but_def map_wf_def object_wf_def)

lemma pm_wf_session:
  "pm_wf_but D m \<Longrightarrow> session_wf s \<Longrightarrow> set (keys (s_peers s)) = set (keys (s_peers (pm_session m))) \<Longrightarrow>
     pm_wf_but D (m\<lparr>pm_session := s\<rparr>)"
  by (simp add: pm_wf_but_def map_wf_def object_wf_def)

lemma pm_wf_send_message: "pm_wf_but D m \<Longrightarrow> pm_wf_but D (snd (send_message env m c msg))"
  by (auto simp: send_message_def split: option.splits intro!: pm_wf_conns same_remotes)

lemma pm_wf_send_to: "pm_wf_but D m \<Longrightarrow> pm_wf_but D (send_to env m a msg)"
  by (simp add: send_to_def pm_wf_send_message split: option.splits)

lemma pm_wf_announce_to: "pm_wf_but D m \<Longrightarrow> pm_wf_but D (announce_to env m a)"
  by (simp add: announce_to_def announce_def send_ports_def pm_wf_send_to)

lemma pm_wf_fold: "(\<And>x m. pm_wf_but D m \<Longrightarrow> pm_wf_but D (f x m)) \<Longrightarrow> pm_wf_but D m \<Longrightarrow> pm_wf_but D (fold f xs m)"
  by (induction xs arbitrary: m) auto

lemma pm_wf_broadcast: "pm_wf_but D m \<Longrightarrow> pm_wf_but D (broadcast_grants env m)"
  unfolding broadcast_grants_def by (rule pm_wf_fold) (simp_all add: pm_wf_announce_to)

lemma pm_wf_update_ports: "pm_wf_but D m \<Longrightarrow> pm_wf_but D (update_peer_ports env m a ports)"
  by (rule pm_wf_touches [OF touches_update_ports]) (simp_all only: update_ports_wf pm_wfD(4))

lemma pm_wf_release_all: "pm_wf_but D m \<Longrightarrow> pm_wf_but D (release_all m a)"
  by (rule pm_wf_touches [OF touches_release_all])
    (auto dest: pm_wfD(4) simp: peer_release_all peer_wf_def)

lemma pm_wf_apply: "pm_wf_but D m \<Longrightarrow> pm_wf_but D (apply_actions env m a acts)"
  unfolding apply_actions_def
proof (rule pm_wf_fold)
  fix act m assume "pm_wf_but D m"
  then show "pm_wf_but D (apply_action env a act m)"
    by (cases act) (simp_all add: apply_action_def send_ports_def pm_wf_send_to pm_wf_update_ports)
qed

text \<open>Entering a fresh object under a key the core has just admitted.\<close>

lemma pm_wf_install:
  assumes wf: "pm_wf m" and s: "session_wf s"
    "set (keys (s_peers s)) = insert key (set (keys (s_peers (pm_session m))))"
    and p: "p_endpoint_id p = key" "\<not> p_removed p" "peer_wf (on_tun m) p"
      "\<And>c. p_connection p = Some c \<Longrightarrow> c < length (conns m) \<and> c_remote (conns m ! c) = key"
  shows "pm_wf (install_peer (m\<lparr>pm_session := s\<rparr>) key p)"
proof -
  let ?m = "install_peer (m\<lparr>pm_session := s\<rparr>) key p"
  have h: "hash_ok (peers m)" using pm_wfD(2) [OF wf] .
  have len: "length (heap ?m) = Suc (length (heap m))" by (simp add: install_peer_def)
  have new: "heap ?m ! length (heap m) = p" by (simp add: install_peer_def)
  have old: "heap ?m ! a = heap m ! a" if "a < length (heap m)" for a
    using that by (simp add: install_peer_def nth_append)
  have prs: "set (peers ?m) = insert (key, length (heap m)) {e \<in> set (peers m). fst e \<noteq> key}"
    using hm.entries_put [OF h] by (simp add: install_peer_def)
  have rest: "conns ?m = conns m" "pm_netstack ?m = pm_netstack m" by (simp_all add: install_peer_def)
  have "object_wf ?m (heap ?m ! a)" if "a < length (heap ?m)" for a
  proof (cases "a = length (heap m)")
    case True
    then show ?thesis using p by (simp add: new object_wf_def rest)
  next
    case False
    then have "a < length (heap m)" using that len by simp
    then show ?thesis using wf by (simp add: old object_wf_def rest pm_wf_but_def)
  qed
  moreover have "snd e < length (heap ?m) \<and> p_endpoint_id (heap ?m ! snd e) = fst e \<and>
      \<not> p_removed (heap ?m ! snd e)" if "e \<in> set (peers ?m)" for e
  proof (cases "e = (key, length (heap m))")
    case True
    then show ?thesis using p by (simp add: new len)
  next
    case False
    then have "e \<in> set (peers m)" using that prs by blast
    then have e: "snd e < length (heap m)" "p_endpoint_id (heap m ! snd e) = fst e"
      "\<not> p_removed (heap m ! snd e)" using wf by (auto simp: pm_wf_but_def map_wf_def)
    then show ?thesis by (simp add: old len)
  qed
  then have "map_wf ?m" using h by (auto simp: map_wf_def) (simp add: install_peer_def hm.ok_put)
  moreover have "set (keys (peers ?m)) = set (keys (s_peers (pm_session ?m)))"
    using s(2) pm_wfD(3) [OF wf] hm.keys_put [OF h] by (simp add: install_peer_def)
  ultimately show ?thesis using wf s(1) by (simp add: pm_wf_but_def install_peer_def)
qed

end
