(* ===== verification/Peer_Ops.thy ===== *)
theory Peer_Ops
  imports Peer_Wf
begin

text \<open>
  Every operation of the peer manager keeps the invariant, and every one moves the core only by
  events of the core, so what is proved of histories of the core holds of the whole manager.
\<close>

subsection \<open>Moving the core\<close>

definition core_runs :: "session \<Rightarrow> session \<Rightarrow> bool" where
  "core_runs s s' \<longleftrightarrow> (\<exists>es. s' = session_run s es)"

lemma session_run_append: "session_run s (xs @ ys) = session_run (session_run s xs) ys"
  by (induction xs arbitrary: s) auto

lemma core_runs_refl [simp]: "core_runs s s"
  unfolding core_runs_def by (rule exI [of _ "[]"]) simp

lemma core_runs_trans: "core_runs s t \<Longrightarrow> core_runs t u \<Longrightarrow> core_runs s u"
  unfolding core_runs_def using session_run_append by metis

lemma core_runs_step: "core_runs s (snd (session_step s e))"
  unfolding core_runs_def by (rule exI [of _ "[e]"]) simp

lemma core_runs_ops:
  "core_runs s (snd (admit_known s k l adm))" "core_runs s (snd (on_inbound s c k))"
  "core_runs s (snd (on_unadmitted s c k msg now))" "core_runs s (snd (on_enroll_timeout s c))"
  "core_runs s (snd (evict s k))" "core_runs s (snd (expose s p ks))"
  "core_runs s (snd (unexpose s p t))" "core_runs s (snd (mint_token s n ps rnd now))"
  using core_runs_step [of s "AdmitKnown k l adm"] core_runs_step [of s "Inbound c k"]
    core_runs_step [of s "Unadmitted c k msg now"] core_runs_step [of s "Timeout c"]
    core_runs_step [of s "Evict k"] core_runs_step [of s "Expose p ks"]
    core_runs_step [of s "Unexpose p t"] core_runs_step [of s "Mint n ps rnd now"] by simp_all

lemma session_wf_ops:
  assumes "session_wf s"
  shows "session_wf (snd (admit_known s k l adm))" "session_wf (snd (on_inbound s c k))"
    "session_wf (snd (on_unadmitted s c k msg now))" "session_wf (snd (on_enroll_timeout s c))"
    "session_wf (snd (evict s k))" "session_wf (snd (expose s p ks))"
    "session_wf (snd (unexpose s p t))" "session_wf (snd (mint_token s n ps rnd now))"
  using session_wf_step [OF assms, of "AdmitKnown k l adm"] session_wf_step [OF assms, of "Inbound c k"]
    session_wf_step [OF assms, of "Unadmitted c k msg now"] session_wf_step [OF assms, of "Timeout c"]
    session_wf_step [OF assms, of "Evict k"] session_wf_step [OF assms, of "Expose p ks"]
    session_wf_step [OF assms, of "Unexpose p t"] session_wf_step [OF assms, of "Mint n ps rnd now"]
  by simp_all

text \<open>What each operation of the core does to the set of admitted keys.\<close>

abbreviation members :: "session \<Rightarrow> endpoint_id set" where
  "members s \<equiv> fst ` set (s_peers s)"

lemma members_admit: "session_wf s \<Longrightarrow> members (snd (admit_known s k l adm)) = insert k (members s)"
  by (auto simp: admit_known_def session_wf_def key_sets dest: map_of_SomeD intro: rev_image_eqI)

lemma members_inbound: "members (snd (on_inbound s c k)) = members s"
  by (simp add: on_inbound_def)

lemma members_timeout: "members (snd (on_enroll_timeout s c)) = members s"
  by (simp add: on_enroll_timeout_def)

lemma members_evict: "session_wf s \<Longrightarrow> members (snd (evict s k)) = members s - {k}"
  by (auto simp: evict_def session_wf_def key_sets map_of_eq_None_iff)

lemma members_unadmitted:
  assumes "session_wf s" "on_unadmitted s c k msg now = (acts, s')"
  shows "members s' = (if list_ex is_admit acts then insert k (members s) else members s)"
proof (cases msg)
  case (Enroll token v)
  obtain r ts where r: "claim (s_tokens s) token now = (r, ts)" by fastforce
  show ?thesis
    using assms Enroll r
    by (cases r; clarsimp simp: on_unadmitted_def Let_def session_wf_def key_sets is_admit_def)
qed (use assms in \<open>auto simp: on_unadmitted_def is_admit_def split: option.splits\<close>)

lemma unadmitted_refusal:
  assumes "on_unadmitted s c k msg now = (acts, s')" "List.map_filter is_refuse acts \<noteq> []"
  shows "\<not> list_ex is_admit acts"
proof (cases msg)
  case (Enroll token v)
  obtain r ts where r: "claim (s_tokens s) token now = (r, ts)" by fastforce
  show ?thesis
    using assms Enroll r
    by (cases r) (auto simp: on_unadmitted_def Let_def is_admit_def is_refuse_def announce_def
        List.map_filter_def split: if_splits)
qed (use assms in \<open>auto simp: on_unadmitted_def List.map_filter_def\<close>)

subsection \<open>The session under the frame\<close>

lemma session_set_peer [simp]: "pm_session (set_peer m a f) = pm_session m"
  by (simp add: set_peer_def)

lemma session_close [simp]: "pm_session (close_conn m c r) = pm_session m"
  by (simp add: close_conn_def)

lemma session_send_to [simp]: "pm_session (send_to env m a msg) = pm_session m"
  by (simp add: send_to_def send_message_def split: option.splits)

lemma session_fold: "(\<And>x m. pm_session (f x m) = pm_session m) \<Longrightarrow> pm_session (fold f xs m) = pm_session m"
  by (induction xs arbitrary: m) auto

lemma session_apply [simp]: "pm_session (apply_actions env m a acts) = pm_session m"
  unfolding apply_actions_def
proof (rule session_fold)
  fix act m
  show "pm_session (apply_action env a act m) = pm_session m"
    by (cases act) (simp_all add: apply_action_def send_ports_def touches_keeps(4) [OF touches_update_ports])
qed

lemma session_broadcast [simp]: "pm_session (broadcast_grants env m) = pm_session m"
  unfolding broadcast_grants_def
  by (rule session_fold) (simp add: announce_to_def announce_def send_ports_def)

lemmas session_touching = touching [THEN touches_keeps(4)]

subsection \<open>Becoming a peer\<close>

lemma pm_wf_install_known:
  assumes wf: "pm_wf m"
  shows "pm_wf (install_peer (m\<lparr>pm_session := snd (admit_known (pm_session m) key name adm)\<rparr>)
    key (peer_new key name d tok None))"
  using members_admit [OF pm_wfD(1) [OF wf]] session_wf_ops(1) [OF pm_wfD(1) [OF wf]]
  by (intro pm_wf_install [OF wf]) (simp_all add: peer_wf_new, simp_all add: peer_new_def)

lemma pm_wf_add_peer: "pm_wf m \<Longrightarrow> pm_wf (snd (add_peer m key name code))"
  by (simp add: add_peer_def pm_wf_install_known)

lemma pm_wf_add_pinned: "pm_wf m \<Longrightarrow> pm_wf (snd (add_pinned env m key name))"
  by (simp add: add_pinned_def pm_wf_install_known split: option.splits)

lemma pm_wf_pin_peer: "pm_wf m \<Longrightarrow> pm_wf (snd (pin_peer env m key name))"
  using pm_wf_add_pinned [of m env key name]
  by (auto simp: pin_peer_def split: prod.splits sum.splits)

subsection \<open>Forgetting a peer\<close>

lemma session_evict_object: "pm_session (evict_object env m key reason) = pm_session m"
  by (simp add: evict_object_def Let_def take_connection_def session_touching split: option.splits)

lemma pm_wf_drop_surface:
  assumes "pm_wf_but D m" "a < length (heap m) \<Longrightarrow> p_bindings (heap m ! a) = []"
  shows "pm_wf_but D (drop_surface env m a)"
proof (rule pm_wf_touches [OF touches_drop_surface assms(1)])
  assume a: "a < length (heap m)"
  have "p_bindings (heap (drop_surface env m a) ! a) = []"
    using assms(2) [OF a] a
    by (auto simp: drop_surface_def unclaim_addr_heap set_peer_nth split: option.splits)
  then show "peer_wf (on_tun m) (heap (drop_surface env m a) ! a)" by (simp add: peer_wf_def)
qed

lemma pm_wf_take_connection: "pm_wf_but D m \<Longrightarrow> pm_wf_but D (take_connection m a reason)"
  by (auto simp: take_connection_def split: option.splits
      intro!: pm_wf_close pm_wf_set_peer)

lemma pm_wf_session_but:
  assumes "pm_wf_but D m" "session_wf s" "members s = members (pm_session m) - D"
  shows "pm_wf (m\<lparr>pm_session := s\<rparr>)"
  using assms pm_wfD(3) [OF assms(1)] by (simp add: pm_wf_but_def map_wf_def object_wf_def)

lemma delete_member:
  assumes wf: "pm_wf m" and a: "map_of (peers m) key = Some a"
  shows "pm_wf_but {key} (m\<lparr>peers := AList.delete key (peers m)\<rparr>)"
    "a \<notin> snd ` set (AList.delete key (peers m))"
proof -
  have h: "hash_ok (peers m)" using pm_wfD(2) [OF wf] .
  have sub: "set (AList.delete key (peers m)) = {e \<in> set (peers m). fst e \<noteq> key}"
    using hm.entries_del [OF h] .
  have "set (keys (AList.delete key (peers m))) = set (keys (peers m)) - {key}"
    using hm.keys_del [OF h] .
  then show "pm_wf_but {key} (m\<lparr>peers := AList.delete key (peers m)\<rparr>)"
    using wf h pm_wfD(3) [OF wf] by (simp add: pm_wf_but_def map_wf_def object_wf_def sub hm.ok_del)
  have "p_endpoint_id (heap m ! a) \<noteq> key" if "(k, a) \<in> set (AList.delete key (peers m))" for k
    using that wf by (auto simp: sub pm_wf_but_def map_wf_def)
  then show "a \<notin> snd ` set (AList.delete key (peers m))"
    using pm_wfD(7) [OF wf a] by auto
qed

lemma pm_wf_evict_object:
  assumes wf: "pm_wf m"
  shows "pm_wf_but {key} (evict_object env m key reason)"
proof (cases "map_of (peers m) key")
  case None
  then have "key \<notin> members (pm_session m)" using member_iff_admitted [OF wf] by (simp add: map_of_eq_None_iff)
  then have "pm_wf_but {key} m"
    using wf pm_wfD(3) [OF wf] by (simp add: pm_wf_but_def)
  with None show ?thesis by (simp add: evict_object_def)
next
  case (Some a)
  let ?m = "m\<lparr>peers := AList.delete key (peers m)\<rparr>"
  let ?m1 = "set_peer ?m a (\<lambda>p. p\<lparr>p_removed := True, p_conn_notify := True\<rparr>)"
  let ?m2 = "release_all (take_connection ?m1 a reason) a"
  have a: "a < length (heap m)" using pm_wfD(6) [OF wf Some] .
  have "pm_wf_but {key} ?m1"
    using delete_member [OF wf Some] pm_wfD(5,10) [OF wf a]
    by (intro pm_wf_set_peer) (auto simp: image_def)
  then have m2: "pm_wf_but {key} ?m2" by (intro pm_wf_release_all pm_wf_take_connection)
  have len: "length (heap (take_connection ?m1 a reason)) = length (heap m)"
    by (simp add: take_connection_def close_conn_def set_peer_def split: option.splits)
  have "p_bindings (heap ?m2 ! a) = []"
    using peer_release_all [of a "take_connection ?m1 a reason"] len a by simp
  then have "pm_wf_but {key} (drop_surface env ?m2 a)" by (intro pm_wf_drop_surface m2)
  with Some show ?thesis by (simp add: evict_object_def Let_def)
qed

lemma drop_pins_fields:
  "\<exists>f. fold (drop_pin env) acts m = m\<lparr>pins_file := f\<rparr>"
proof (induction acts arbitrary: m)
  case Nil
  show ?case by (rule exI [of _ "pins_file m"]) simp
next
  case (Cons act acts)
  have "\<exists>f. drop_pin env act m = m\<lparr>pins_file := f\<rparr>"
    by (cases act) (auto simp: drop_pin_def intro: exI [of _ "pins_file m"])
  then obtain f where f: "drop_pin env act m = m\<lparr>pins_file := f\<rparr>" by blast
  from Cons.IH [of "m\<lparr>pins_file := f\<rparr>"] show ?case using f by auto
qed

lemma session_evict_peer: "pm_session (evict_peer env m key reason) = snd (evict (pm_session m) key)"
proof -
  obtain acts s where e: "evict (pm_session m) key = (acts, s)" by fastforce
  obtain f where "fold (drop_pin env) acts ((evict_object env m key reason)\<lparr>pm_session := s\<rparr>) =
      ((evict_object env m key reason)\<lparr>pm_session := s\<rparr>)\<lparr>pins_file := f\<rparr>"
    using drop_pins_fields by blast
  then show ?thesis by (simp add: evict_peer_def session_evict_object e Let_def)
qed

lemma pm_wf_evict_peer:
  assumes wf: "pm_wf m"
  shows "pm_wf (evict_peer env m key reason)"
proof -
  let ?m = "evict_object env m key reason"
  obtain acts s where e: "evict (pm_session m) key = (acts, s)" by fastforce
  have "pm_wf (?m\<lparr>pm_session := s\<rparr>)"
    using members_evict [OF pm_wfD(1) [OF wf], of key] session_wf_ops(5) [OF pm_wfD(1) [OF wf], of key] e
    by (intro pm_wf_session_but [OF pm_wf_evict_object [OF wf]]) (simp_all add: session_evict_object)
  moreover obtain f where "fold (drop_pin env) acts (?m\<lparr>pm_session := s\<rparr>) =
      (?m\<lparr>pm_session := s\<rparr>)\<lparr>pins_file := f\<rparr>" using drop_pins_fields by blast
  ultimately show ?thesis
    unfolding evict_peer_def Let_def session_evict_object e by simp
qed

lemma pm_wf_remove_peer: "pm_wf m \<Longrightarrow> pm_wf (snd (remove_peer env m peer_ref))"
  by (simp add: remove_peer_def pm_wf_evict_peer split: option.splits)

lemma core_remove_peer: "core_runs (pm_session m) (pm_session (snd (remove_peer env m peer_ref)))"
  by (simp add: remove_peer_def session_evict_peer core_runs_ops split: option.splits)

lemma core_install: "pm_session (install_peer m key p) = pm_session m"
  by (simp add: install_peer_def)

lemma core_add_peer: "core_runs (pm_session m) (pm_session (snd (add_peer m key name code)))"
  by (simp add: add_peer_def core_install core_runs_ops)

lemma core_add_pinned: "core_runs (pm_session m) (pm_session (snd (add_pinned env m key name)))"
  by (simp add: add_pinned_def core_install core_runs_ops split: option.splits)

lemma core_pin_peer: "core_runs (pm_session m) (pm_session (snd (pin_peer env m key name)))"
  using core_add_pinned [of m env key name] by (auto simp: pin_peer_def split: prod.splits sum.splits)

subsection \<open>Connections and enrollments\<close>

lemma pm_wf_install_connection:
  assumes "pm_wf m" "c < length (conns m)" "c_remote (conns m ! c) = p_endpoint_id (heap m ! a)"
  shows "pm_wf (install_connection m a c by_us)"
proof -
  let ?m = "case p_connection (heap m ! a) of None \<Rightarrow> m | Some old \<Rightarrow> close_conn m old ''replaced''"
  have "pm_wf ?m" "c < length (conns ?m)" "c_remote (conns ?m ! c) = p_endpoint_id (heap ?m ! a)"
    using assms by (simp_all add: pm_wf_close split: option.splits)
  then show ?thesis
    unfolding install_connection_def Let_def by (intro pm_wf_set_peer) auto
qed

lemma pm_wf_enrolling:
  assumes "pm_wf m" "en_conn en < length (conns m)"
  shows "pm_wf (m\<lparr>enrolling := AList.update i en (enrolling m)\<rparr>)"
    "pm_wf (m\<lparr>enrolling := AList.delete i (enrolling m)\<rparr>)"
proof -
  have "set (AList.update i en es) \<subseteq> insert (i, en) (set es)" for es :: "(conn_id \<times> enrollment) list"
    by (induction es) auto
  moreover have "set (AList.delete i es) \<subseteq> set es" for es :: "(conn_id \<times> enrollment) list"
    by (auto simp: AList.delete_eq)
  ultimately show "pm_wf (m\<lparr>enrolling := AList.update i en (enrolling m)\<rparr>)"
    "pm_wf (m\<lparr>enrolling := AList.delete i (enrolling m)\<rparr>)"
    using assms unfolding pm_wf_but_def map_wf_def object_wf_def by (simp_all, fastforce+)
qed

lemma pm_wf_handle_connection:
  assumes wf: "pm_wf m" and c: "c < length (conns m)"
  shows "pm_wf (handle_connection env m c)"
proof -
  let ?k = "c_remote (conns m ! c)"
  obtain acts s where o: "on_inbound (pm_session m) (next_conn_id m) ?k = (acts, s)" by fastforce
  let ?m = "m\<lparr>next_conn_id := next_conn_id m + 1, pm_session := s\<rparr>"
  have s: "session_wf s" "members s = members (pm_session m)"
    using session_wf_ops(2) [OF pm_wfD(1) [OF wf], of "next_conn_id m" ?k]
      members_inbound [of "pm_session m" "next_conn_id m" ?k] o by simp_all
  have "pm_wf (m\<lparr>next_conn_id := next_conn_id m + 1\<rparr>)" using wf by simp
  then have "pm_wf ((m\<lparr>next_conn_id := next_conn_id m + 1\<rparr>)\<lparr>pm_session := s\<rparr>)"
    by (rule pm_wf_session) (use s in simp_all)
  then have m: "pm_wf ?m" by simp
  have cm: "c < length (conns ?m)" using c by simp
  have "pm_wf (?m\<lparr>enrolling := AList.update (next_conn_id m) \<lparr>en_conn = c, en_version = None\<rparr> (enrolling ?m)\<rparr>)"
    by (rule pm_wf_enrolling(1) [OF m]) (use c in simp)
  moreover have "pm_wf (set_peer (install_connection ?m a c False) a (\<lambda>p. p\<lparr>p_dial := True, p_conn_notify := True\<rparr>))"
    if "map_of (peers m) ?k = Some a" for a
  proof -
    have i: "pm_wf (install_connection ?m a c False)"
      by (rule pm_wf_install_connection [OF m cm]) (simp add: pm_wfD(7) [OF wf that])
    show ?thesis by (rule pm_wf_set_peer [OF i]) (use pm_wfD(5,10) [OF i] in simp_all)
  qed
  ultimately show ?thesis
    using pm_wf_close [OF m]
    by (simp add: handle_connection_def Let_def o pm_wf_apply split: option.splits)
qed

lemma core_handle_connection: "core_runs (pm_session m) (pm_session (handle_connection env m c))"
proof -
  obtain acts s where o: "on_inbound (pm_session m) (next_conn_id m) (c_remote (conns m ! c)) = (acts, s)"
    by fastforce
  have "pm_session (handle_connection env m c) = s"
    by (simp add: handle_connection_def Let_def o install_connection_def split: option.splits)
  then show ?thesis using core_runs_ops(2) [of "pm_session m" "next_conn_id m" "c_remote (conns m ! c)"] o by simp
qed

text \<open>A verdict is settled: \<open>s\<close> is the core after the message that brought it.\<close>

lemma pm_wf_settle:
  assumes wf: "pm_wf m" and en: "en_conn en < length (conns m)" and s: "session_wf s"
    and mem: "members s = (if list_ex is_admit acts
      then insert (c_remote (conns m ! en_conn en)) (members (pm_session m)) else members (pm_session m))"
    and ref: "List.map_filter is_refuse acts \<noteq> [] \<Longrightarrow> \<not> list_ex is_admit acts"
  shows "pm_wf (settle_enrollment env (m\<lparr>pm_session := s\<rparr>) i en acts)"
proof -
  let ?m = "m\<lparr>enrolling := AList.delete i (enrolling m)\<rparr>"
  let ?k = "c_remote (conns m ! en_conn en)"
  have m: "pm_wf ?m" by (rule pm_wf_enrolling(2) [OF wf en])
  have swap: "(m\<lparr>pm_session := s\<rparr>)\<lparr>enrolling := AList.delete i (enrolling (m\<lparr>pm_session := s\<rparr>))\<rparr> =
      ?m\<lparr>pm_session := s\<rparr>" by simp
  show ?thesis
  proof (cases "list_ex is_admit acts")
    case False
    then have "pm_wf (?m\<lparr>pm_session := s\<rparr>)"
      using mem by (intro pm_wf_session [OF m s]) simp
    then show ?thesis
      unfolding settle_enrollment_def swap using False by (simp add: Let_def pm_wf_close split: list.splits)
  next
    case True
    then have r: "List.map_filter is_refuse acts = []" using ref by blast
    let ?p = "(peer_new ?k (label_of s ?k) True None (Some (en_conn en)))\<lparr>p_version := en_version en\<rparr>"
    have "pm_wf (install_peer (?m\<lparr>pm_session := s\<rparr>) ?k ?p)"
      using True mem en
      by (intro pm_wf_install [OF m s]) (simp_all add: peer_new_def peer_wf_def bound_at_surface_def)
    then show ?thesis
      unfolding settle_enrollment_def swap using True r by (simp add: Let_def pm_wf_apply)
  qed
qed

lemma session_settle [simp]: "pm_session (settle_enrollment env m i en acts) = pm_session m"
  by (simp add: settle_enrollment_def Let_def core_install split: list.splits)

lemma pm_wf_enrollment_stream:
  assumes wf: "pm_wf m"
  shows "pm_wf (enrollment_stream env m i data now)"
proof (cases "map_of (enrolling m) i")
  case None
  then show ?thesis using wf by (simp add: enrollment_stream_def)
next
  case (Some en)
  show ?thesis
  proof (cases "e_decode env data")
    case None
    then show ?thesis using wf Some by (simp add: enrollment_stream_def)
  next
    case msg: (Some msg)
    let ?k = "c_remote (conns m ! en_conn en)"
    obtain acts s where o: "on_unadmitted (pm_session m) i ?k msg now = (acts, s)" by fastforce
    let ?en = "case msg of Enroll _ (Some v) \<Rightarrow> en\<lparr>en_version := Some v\<rparr> | _ \<Rightarrow> en"
    let ?m = "m\<lparr>enrolling := AList.update i ?en (enrolling m)\<rparr>"
    have c: "en_conn ?en = en_conn en" by (simp split: peer_message.splits option.splits)
    have en: "en_conn ?en < length (conns m)" using pm_wfD(9) [OF wf Some] c by simp
    have m: "pm_wf ?m" by (rule pm_wf_enrolling(1) [OF wf en])
    have s: "session_wf s" using session_wf_ops(3) [OF pm_wfD(1) [OF wf], of i ?k msg now] o by simp
    have mem: "members s = (if list_ex is_admit acts then insert ?k (members (pm_session m)) else members (pm_session m))"
      by (rule members_unadmitted [OF pm_wfD(1) [OF wf] o])
    have "pm_wf (settle_enrollment env (?m\<lparr>pm_session := s\<rparr>) i ?en acts)"
      by (rule pm_wf_settle [OF m _ s]) (use en mem unadmitted_refusal [OF o] c in simp_all)
    moreover have "pm_wf (?m\<lparr>pm_session := s\<rparr>)" if "acts = []"
      using that mem by (intro pm_wf_session [OF m s]) simp
    ultimately show ?thesis
      by (simp add: enrollment_stream_def Some msg o Let_def)
  qed
qed

lemma core_enrollment_stream: "core_runs (pm_session m) (pm_session (enrollment_stream env m i data now))"
proof -
  have "core_runs (pm_session m) s"
    if "on_unadmitted (pm_session m) i k msg now = (acts, s)" for k msg acts s
    using that core_runs_ops(3) [of "pm_session m" i k msg now] by simp
  then show ?thesis
    by (auto simp: enrollment_stream_def Let_def split: option.splits prod.splits)
qed

lemma pm_wf_enrollment_ends:
  assumes wf: "pm_wf m"
  shows "pm_wf (enrollment_ends env m i)"
proof (cases "map_of (enrolling m) i")
  case None
  then show ?thesis using wf by (simp add: enrollment_ends_def)
next
  case (Some en)
  obtain acts s where o: "on_enroll_timeout (pm_session m) i = (acts, s)" by fastforce
  have na: "\<not> list_ex is_admit acts"
    using o by (auto simp: on_enroll_timeout_def is_admit_def split: if_splits)
  have "pm_wf (settle_enrollment env (m\<lparr>pm_session := s\<rparr>) i en acts)"
    using session_wf_ops(4) [OF pm_wfD(1) [OF wf], of i] members_timeout [of "pm_session m" i] o na
    by (intro pm_wf_settle [OF wf pm_wfD(9) [OF wf Some]]) simp_all
  then show ?thesis by (simp add: enrollment_ends_def Some o)
qed

lemma core_enrollment_ends: "core_runs (pm_session m) (pm_session (enrollment_ends env m i))"
  using core_runs_ops(4) [of "pm_session m" i]
  by (auto simp: enrollment_ends_def split: option.splits prod.splits)

lemma pm_wf_handle_enrollment: "pm_wf m \<Longrightarrow> pm_wf (handle_enrollment env m i stream now)"
  by (simp add: handle_enrollment_def pm_wf_enrollment_ends pm_wf_enrollment_stream split: option.splits)

lemma core_handle_enrollment: "core_runs (pm_session m) (pm_session (handle_enrollment env m i stream now))"
  by (simp add: handle_enrollment_def core_enrollment_ends core_enrollment_stream split: option.splits)

subsection \<open>Streams, projecting, restoring\<close>

lemma pm_wf_handle_uni: "pm_wf m \<Longrightarrow> pm_wf (handle_uni_stream env m a stream)"
  unfolding handle_uni_stream_def
  by (auto simp: pm_wf_update_ports pm_wfD(5,10) split: option.splits peer_message.splits
      intro!: pm_wf_set_peer)

lemma core_handle_uni: "pm_session (handle_uni_stream env m a stream) = pm_session m"
  by (auto simp: handle_uni_stream_def session_touching split: option.splits peer_message.splits)

lemma pm_wf_teardown: "pm_wf m \<Longrightarrow> pm_wf (teardown_surface env m a)"
  unfolding teardown_surface_def
  by (auto split: option.splits intro!: pm_wf_drop_surface pm_wf_release_all
      simp: peer_release_all touches_keeps(11) [OF touches_release_all])

text \<open>After a teardown the peer has no surface and no binding.\<close>

lemma teardown_peer:
  assumes "pm_wf m" "a < length (heap m)"
  shows "heap (teardown_surface env m a) ! a = (heap m ! a)\<lparr>p_surface := None, p_bindings := []\<rparr>"
proof (cases "p_surface (heap m ! a)")
  case None
  have "p_bindings (heap m ! a) = []"
    using pm_wfD(4) [OF assms] None bound_at_no_surface by (auto simp: peer_wf_def)
  with None show ?thesis by (simp add: teardown_surface_def)
next
  case (Some s)
  have r: "heap (release_all m a) ! a = (heap m ! a)\<lparr>p_bindings := []\<rparr>" by (rule peer_release_all [OF assms(2)])
  then show ?thesis
    using Some assms(2) touches_keeps(11) [OF touches_release_all, of m a]
    by (simp add: teardown_surface_def drop_surface_def unclaim_addr_heap set_peer_nth)
qed

lemma place_surface_peer:
  assumes "a < length (heap m)" "p_bindings (heap m ! a) = []"
    "place_surface env m key a ip name = (Inr (), m')"
  shows "\<exists>bs. heap m' ! a =
      (heap m ! a)\<lparr>p_surface := Some \<lparr>sf_ip = ip, sf_name = name\<rparr>, p_bindings := bs\<rparr> \<and>
    hash_ok bs \<and> set (keys bs) \<subseteq> set (p_exposed_ports (heap m ! a)) \<and>
    (\<forall>e \<in> set bs. binding_at (on_tun m) ip (snd e)) \<and>
    (binds_in_time env \<longrightarrow> set (keys bs) = set (p_exposed_ports (heap m ! a)))"
proof -
  obtain m1 where c: "claim_addr env m ip name = (Inr (), m1)"
    using assms(3) by (auto simp: place_surface_def Let_def split: prod.splits sum.splits)
  let ?s = "\<lparr>sf_ip = ip, sf_name = name\<rparr>"
  let ?m2 = "persist_surface env (set_peer m1 a (\<lambda>p. p\<lparr>p_surface := Some ?s\<rparr>)) key ip name"
  have h: "heap m1 = heap m" "on_tun m1 = on_tun m"
    using claim_addr_heap [of env m ip name] touches_keeps(12) [OF touches_claim, of env m ip name] c by auto
  have p2: "heap ?m2 ! a = (heap m ! a)\<lparr>p_surface := Some ?s\<rparr>" "a < length (heap ?m2)" "on_tun ?m2 = on_tun m"
    using assms(1) h by (simp_all add: persist_surface_def set_peer_nth, simp_all add: set_peer_def)
  let ?ps = "p_exposed_ports (heap m ! a)"
  have m': "m' = bind_missing env a ip ?ps ?m2"
    using assms(3) p2(1) c by (simp add: place_surface_def Let_def)
  obtain bs where bs: "heap m' ! a = (heap ?m2 ! a)\<lparr>p_bindings := bs\<rparr>"
    "more_bound (on_tun m) ip (set ?ps) (p_bindings (heap ?m2 ! a)) bs"
    using bind_missing_more [OF p2(2), of env ip ?ps] m' p2(3) by auto
  have "set (keys bs) = set ?ps" if "binds_in_time env"
    using bind_missing_binds [OF that p2(2), of ?ps ip] bs assms(2) p2(1) m'
    by (auto simp: more_bound_def)
  then show ?thesis
    using bs p2(1) assms(2) by (intro exI [of _ bs]) (auto simp: more_bound_def hash_ok_def)
qed

lemma pm_wf_place:
  assumes wf: "pm_wf m" and b: "a < length (heap m) \<Longrightarrow> p_bindings (heap m ! a) = []"
  shows "pm_wf (snd (place_surface env m key a ip name))"
proof (rule pm_wf_touches [OF touches_place wf])
  assume a: "a < length (heap m)"
  obtain r m' where r: "place_surface env m key a ip name = (r, m')" by fastforce
  show "peer_wf (on_tun m) (heap (snd (place_surface env m key a ip name)) ! a)"
  proof (cases r)
    case (Inl e)
    have "heap m' = heap m"
      using r Inl claim_addr_heap [of env m ip name]
      by (auto simp: place_surface_def Let_def split: prod.splits sum.splits)
    then show ?thesis using r pm_wfD(4) [OF wf a] by simp
  next
    case (Inr u)
    have ok: "place_surface env m key a ip name = (Inr (), m')" using r Inr by simp
    obtain bs where bs: "heap m' ! a =
        (heap m ! a)\<lparr>p_surface := Some \<lparr>sf_ip = ip, sf_name = name\<rparr>, p_bindings := bs\<rparr>"
      "hash_ok bs" "set (keys bs) \<subseteq> set (p_exposed_ports (heap m ! a))"
      "\<forall>e \<in> set bs. binding_at (on_tun m) ip (snd e)"
      using place_surface_peer [OF a b [OF a] ok] by blast
    have "bound_at_surface (on_tun m) (heap m' ! a)"
      unfolding bound_at_surface_def bs(1) using bs(2,4) by simp
    then show ?thesis using bs(1,3) r by (simp add: peer_wf_def)
  qed
qed

lemma pm_wf_project: "pm_wf m \<Longrightarrow> pm_wf (snd (project env m peer_ref ip name))"
  using pm_wf_teardown [of m env] teardown_peer [of m _ env]
    touches_keeps(11) [OF touches_teardown, of env m]
  by (auto simp: project_def Let_def split: option.splits sum.splits intro!: pm_wf_place)

lemma core_project: "pm_session (snd (project env m peer_ref ip name)) = pm_session m"
  by (auto simp: project_def Let_def session_touching split: option.splits sum.splits)

lemma pm_wf_unproject: "pm_wf m \<Longrightarrow> pm_wf (snd (unproject env m peer_ref))"
proof -
  assume wf: "pm_wf m"
  have "pm_wf (snd (unclaim_addr env (set_peer (release_all m a) a (\<lambda>p. p\<lparr>p_surface := None\<rparr>)) ip))" for a ip
    by (rule pm_wf_touches [OF touches_trans [OF touches_release_all
            touches_trans [OF touches_surface touches_unclaim]] wf])
      (simp add: unclaim_addr_heap set_peer_nth peer_release_all peer_wf_def
        touches_keeps(11) [OF touches_release_all])
  with wf show ?thesis
    by (auto simp: unproject_def split: option.splits prod.splits sum.splits) (metis snd_conv)+
qed

lemma core_unproject: "pm_session (snd (unproject env m peer_ref)) = pm_session m"
proof -
  have "pm_session (snd (unclaim_addr env (set_peer (release_all m a) a (\<lambda>p. p\<lparr>p_surface := None\<rparr>)) ip)) =
      pm_session m" for a ip
    by (simp add: session_touching)
  then show ?thesis
    by (auto simp: unproject_def split: option.splits prod.splits sum.splits) (metis snd_conv)+
qed

end
