(* ===== verification/Peer_Loop.thy ===== *)
theory Peer_Loop
  imports Peer_Ops
begin

text \<open>
  The task that keeps a peer connected (\<open>peer_connection_loop\<close> and \<open>run_connection\<close> in
  \<open>src/peer.rs\<close>), as a step relation over the manager, the place the task is at and its backoff.
  The places are the points where the task awaits something: between two of them it runs alone.
  \<open>Sleeping\<close> is the \<open>select!\<close> of the backoff timer and the notification, \<open>Dialing\<close> the bounded
  connect, \<open>Running\<close> the accept loop of \<open>run_connection\<close>. A dial gives a connection to the key it
  was made to, which is iroh's promise.
\<close>

subsection \<open>The steps\<close>

datatype place = AtTop | Running nat | AwaitingCall | Sleeping | Dialing | Ended

definition loop_start :: "pm \<Rightarrow> nat \<Rightarrow> place \<times> backoff" where
  "loop_start m a =
     (AtTop, if p_connection (heap m ! a) \<noteq> None then backoff_connected else backoff_unreached)"

text \<open>From the end of a connection, or from its absence: the checks up to the next await.\<close>

definition without_connection :: "pm \<Rightarrow> nat \<Rightarrow> place" where
  "without_connection m a =
     (if p_removed (heap m ! a) then Ended
      else if \<not> p_dial (heap m ! a) then AwaitingCall
      else Sleeping)"

text \<open>A dial succeeded with connection \<open>c\<close>.\<close>

definition dialed :: "env \<Rightarrow> pm \<Rightarrow> nat \<Rightarrow> nat \<Rightarrow> pm" where
  "dialed env m a c =
     (if resolve (our_id m) (p_endpoint_id (heap m ! a)) (held_is_live m a)
           (p_conn_dialed_by_us (heap m ! a)) True = Held
      then close_conn m c ''kept ours''
      else (let m1 = install_connection m a c True;
                m2 = (case p_enroll_token (heap m1 ! a) of
                        None \<Rightarrow> m1
                      | Some token \<Rightarrow> snd (send_message env m1 c (enroll_message token)))
            in announce_to env m2 a))"

definition clear_notify :: "pm \<Rightarrow> nat \<Rightarrow> pm" where
  "clear_notify m a = set_peer m a (\<lambda>p. p\<lparr>p_conn_notify := False\<rparr>)"

definition start_running :: "env \<Rightarrow> pm \<Rightarrow> nat \<Rightarrow> pm" where
  "start_running env m a =
     (if p_enroll_token (heap m ! a) = None then send_version env m a else m)"

inductive loop_step :: "env \<Rightarrow> nat \<Rightarrow> pm \<times> place \<times> backoff \<Rightarrow> pm \<times> place \<times> backoff \<Rightarrow> bool"
  for env a where
  run: "p_connection (heap m ! a) = Some c \<Longrightarrow>
    loop_step env a (m, AtTop, b) (start_running env m a, Running c, b)"
| no_connection: "p_connection (heap m ! a) = None \<Longrightarrow>
    loop_step env a (m, AtTop, b) (m, without_connection m a, b)"
| connection_ends: "c_close_reason (conns m ! c) \<noteq> None \<Longrightarrow>
    loop_step env a (m, Running c, b) (m, without_connection m a, b)"
| called: "p_conn_notify (heap m ! a) \<Longrightarrow>
    loop_step env a (m, AwaitingCall, b)
      (clear_notify m a, if p_removed (heap m ! a) then Ended else AtTop, b)"
| woken: "p_conn_notify (heap m ! a) \<Longrightarrow>
    loop_step env a (m, Sleeping, b) (clear_notify m a, AtTop, backoff_reset b)"
| slept: "loop_step env a (m, Sleeping, b)
    (m, if p_removed (heap m ! a) then Ended else Dialing, b)"
| dial_failed: "loop_step env a (m, Dialing, b)
    (m, if p_removed (heap m ! a) then Ended else Sleeping, backoff_failed b)"
| dial_succeeded: "c < length (conns m) \<Longrightarrow> c_remote (conns m ! c) = p_endpoint_id (heap m ! a) \<Longrightarrow>
    loop_step env a (m, Dialing, b) (dialed env m a c, AtTop, backoff_reset b)"

inductive_cases top_stepE: "loop_step env a (m, AtTop, b) t"
inductive_cases running_stepE: "loop_step env a (m, Running c, b) t"
inductive_cases awaiting_stepE: "loop_step env a (m, AwaitingCall, b) t"
inductive_cases sleeping_stepE: "loop_step env a (m, Sleeping, b) t"
inductive_cases dialing_stepE: "loop_step env a (m, Dialing, b) t"
inductive_cases ended_stepE: "loop_step env a (m, Ended, b) t"

subsection \<open>The invariant\<close>

lemma pm_wf_dialed:
  assumes wf: "pm_wf m" and c: "c < length (conns m)" "c_remote (conns m ! c) = p_endpoint_id (heap m ! a)"
  shows "pm_wf (dialed env m a c)"
  using pm_wf_install_connection [OF wf c, of True] pm_wf_close [OF wf]
  by (simp add: dialed_def Let_def pm_wf_announce_to pm_wf_send_message split: option.splits)

lemma core_dialed: "pm_session (dialed env m a c) = pm_session m"
  by (simp add: dialed_def Let_def announce_to_def announce_def send_ports_def install_connection_def
      send_message_def split: option.splits)

lemma pm_wf_clear_notify: "pm_wf m \<Longrightarrow> pm_wf (clear_notify m a)"
  unfolding clear_notify_def by (auto intro!: pm_wf_set_peer simp: pm_wfD(5,10))

lemma pm_wf_start_running: "pm_wf m \<Longrightarrow> pm_wf (start_running env m a)"
  by (simp add: start_running_def send_version_def pm_wf_send_to)

lemma loop_step_wf:
  "loop_step env a (m, l, b) (m', l', b') \<Longrightarrow> pm_wf m \<Longrightarrow> pm_wf m'"
  by (cases rule: loop_step.cases) (auto simp: pm_wf_start_running pm_wf_clear_notify pm_wf_dialed)

lemma loop_step_session:
  "loop_step env a (m, l, b) (m', l', b') \<Longrightarrow> pm_session m' = pm_session m"
  by (cases rule: loop_step.cases)
    (auto simp: start_running_def send_version_def clear_notify_def core_dialed)

text \<open>What the steps never change at the peer.\<close>

lemma send_message_heap: "heap (snd (send_message env m c msg)) = heap m"
  by (simp add: send_message_def split: option.splits)

lemma send_to_heap: "heap (send_to env m a msg) = heap m"
  by (simp add: send_to_def send_message_heap split: option.splits)

lemma dialed_heap:
  "heap (dialed env m a c) = heap m \<or>
     heap (dialed env m a c) =
       (heap m)[a := (heap m ! a)\<lparr>p_conn_dialed_by_us := True, p_connection := Some c\<rparr>]"
proof -
  have "heap (install_connection m a c True) =
      (heap m)[a := (heap m ! a)\<lparr>p_conn_dialed_by_us := True, p_connection := Some c\<rparr>]"
    by (simp add: install_connection_def Let_def set_peer_def close_conn_def split: option.splits)
  moreover have "heap (announce_to env m' a) = heap m'" for m'
    by (simp add: announce_to_def announce_def send_ports_def send_to_heap)
  ultimately show ?thesis
    by (auto simp: dialed_def Let_def close_conn_def send_message_heap split: option.splits)
qed

lemma loop_step_removed:
  assumes "loop_step env a (m, l, b) (m', l', b')"
  shows "p_removed (heap m' ! a) = p_removed (heap m ! a)" "length (heap m') = length (heap m)"
proof -
  have "\<exists>f. heap m' = (heap m)[a := f] \<and> p_removed f = p_removed (heap m ! a) \<or> heap m' = heap m"
    using assms
  proof (cases rule: loop_step.cases)
    case (dial_succeeded c)
    then show ?thesis using dialed_heap [of env m a c] by force
  qed (auto simp: start_running_def send_version_def send_to_heap clear_notify_def set_peer_def)
  then consider (upd) f where "heap m' = (heap m)[a := f]" "p_removed f = p_removed (heap m ! a)"
    | (same) "heap m' = heap m" by blast
  then have "p_removed (heap m' ! a) = p_removed (heap m ! a) \<and> length (heap m') = length (heap m)"
  proof cases
    case upd
    then show ?thesis by (cases "a < length (heap m)") (simp_all add: list_update_beyond not_less)
  qed simp
  then show "p_removed (heap m' ! a) = p_removed (heap m ! a)" "length (heap m') = length (heap m)"
    by simp_all
qed

end
