(* ===== verification/History.thy ===== *)
theory History
  imports Prelude
begin

text \<open>
  Histories of a machine, independent of the program: a condition that some events establish and
  others end (the locale \<open>latch\<close>) holds after a history exactly when an event of the history
  established it and no later one ended it; and an invariant that every step keeps holds in every
  reachable state (the locale \<open>machine\<close>).
\<close>

fun run_all :: "('s \<Rightarrow> 'e \<Rightarrow> 's) \<Rightarrow> 's \<Rightarrow> 'e list \<Rightarrow> 's" where
  "run_all step s [] = s"
| "run_all step s (e # es) = run_all step (step s e) es"

lemma run_all_append: "run_all step s (xs @ ys) = run_all step (run_all step s xs) ys"
  by (induction xs arbitrary: s) auto

text \<open>No event of \<open>es\<close>, run from \<open>s\<close>, ends a condition that \<open>gives\<close> establishes and
  \<open>takes\<close> ends.\<close>

fun kept_through ::
  "('s \<Rightarrow> 'e \<Rightarrow> 's) \<Rightarrow> ('s \<Rightarrow> 'e \<Rightarrow> bool) \<Rightarrow> ('s \<Rightarrow> 'e \<Rightarrow> bool) \<Rightarrow> 's \<Rightarrow> 'e list \<Rightarrow> bool" where
  "kept_through step gives takes s [] = True"
| "kept_through step gives takes s (e # es) =
     ((gives s e \<or> \<not> takes s e) \<and> kept_through step gives takes (step s e) es)"

lemma kept_through_append:
  "kept_through step gives takes s (xs @ ys) \<longleftrightarrow>
     kept_through step gives takes s xs \<and> kept_through step gives takes (run_all step s xs) ys"
  by (induction xs arbitrary: s) auto

locale machine =
  fixes step :: "'s \<Rightarrow> 'e \<Rightarrow> 's"
    and init :: 's
    and good :: "'s \<Rightarrow> bool"
  assumes good_init: "good init"
    and good_step: "good s \<Longrightarrow> good (step s e)"
begin

lemma good_run_from: "good s \<Longrightarrow> good (run_all step s es)"
  by (induction es arbitrary: s) (auto simp: good_step)

lemma good_run: "good (run_all step init es)"
  by (rule good_run_from [OF good_init])

end

locale latch = machine +
  fixes holds :: "'s \<Rightarrow> bool"
    and gives :: "'s \<Rightarrow> 'e \<Rightarrow> bool"
    and takes :: "'s \<Rightarrow> 'e \<Rightarrow> bool"
  assumes holds_init: "\<not> holds init"
    and holds_step: "good s \<Longrightarrow> holds (step s e) \<longleftrightarrow> gives s e \<or> holds s \<and> \<not> takes s e"
begin

lemma holds_iff_from:
  assumes good: "good s0" and off: "\<not> holds s0"
  shows "holds (run_all step s0 es) \<longleftrightarrow>
     (\<exists>xs e ys. es = xs @ e # ys \<and> gives (run_all step s0 xs) e \<and>
        kept_through step gives takes (step (run_all step s0 xs) e) ys)"
proof (induction es rule: rev_induct)
  case Nil
  then show ?case by (simp add: off)
next
  case (snoc e es)
  let ?s = "run_all step s0 es"
  have "holds (run_all step s0 (es @ [e])) \<longleftrightarrow> gives ?s e \<or> holds ?s \<and> \<not> takes ?s e"
    using holds_step [OF good_run_from [OF good]] by (simp add: run_all_append)
  also have "\<dots> \<longleftrightarrow> (\<exists>xs f ys. es @ [e] = xs @ f # ys \<and> gives (run_all step s0 xs) f \<and>
      kept_through step gives takes (step (run_all step s0 xs) f) ys)" (is "_ \<longleftrightarrow> ?R")
  proof
    assume "gives ?s e \<or> holds ?s \<and> \<not> takes ?s e"
    then show ?R
    proof
      assume "gives ?s e"
      then show ?R by (intro exI [of _ es] exI [of _ e] exI [of _ "[]"]) simp
    next
      assume "holds ?s \<and> \<not> takes ?s e"
      then obtain xs f ys where h: "es = xs @ f # ys" "gives (run_all step s0 xs) f"
        "kept_through step gives takes (step (run_all step s0 xs) f) ys" and "\<not> takes ?s e"
        using snoc.IH by blast
      then have "kept_through step gives takes (step (run_all step s0 xs) f) (ys @ [e])"
        by (simp add: kept_through_append run_all_append)
      with h show ?R by (intro exI [of _ xs] exI [of _ f] exI [of _ "ys @ [e]"]) simp
    qed
  next
    assume ?R
    then obtain xs f ys where h: "es @ [e] = xs @ f # ys" "gives (run_all step s0 xs) f"
      "kept_through step gives takes (step (run_all step s0 xs) f) ys" by blast
    show "gives ?s e \<or> holds ?s \<and> \<not> takes ?s e"
    proof (cases ys rule: rev_cases)
      case Nil
      with h show ?thesis by simp
    next
      case (snoc zs z)
      with h have z: "es = xs @ f # zs" "z = e" by auto
      with h snoc have k: "kept_through step gives takes (step (run_all step s0 xs) f) zs"
        "gives ?s e \<or> \<not> takes ?s e" by (auto simp: kept_through_append run_all_append)
      have "holds ?s" using snoc.IH z h(2) k(1) by blast
      with k(2) show ?thesis by blast
    qed
  qed
  finally show ?case .
qed

lemma holds_iff:
  "holds (run_all step init es) \<longleftrightarrow>
     (\<exists>xs e ys. es = xs @ e # ys \<and> gives (run_all step init xs) e \<and>
        kept_through step gives takes (step (run_all step init xs) e) ys)"
  by (rule holds_iff_from [OF good_init holds_init])

lemma gives_now: "gives (run_all step init es) e \<Longrightarrow> holds (run_all step init (es @ [e]))"
  using holds_step [OF good_run] by (simp add: run_all_append)

end

end
