(* ===== verification/Daemon.thy ===== *)
theory Daemon
  imports Peer_Loop History
begin

text \<open>
  The daemon (\<open>src/daemon.rs\<close>): its key file, its start from the persisted pins and surfaces, and
  the requests of the command line. The daemon's own fields are the endpoint, the session and the
  peer manager, which shares both, so its state is the manager's. The events at the end are
  everything that can happen to a running daemon.
\<close>

subsection \<open>The key file\<close>

text \<open>\<open>PathBuf::join\<close> with a relative path.\<close>

definition path_join :: "string \<Rightarrow> string \<Rightarrow> string" where
  "path_join p q =
     (if p = [] then q else if last p = CHR ''/'' then p @ q else p @ ''/'' @ q)"

definition default_key_path :: "string option \<Rightarrow> string option \<Rightarrow> string" where
  "default_key_path xdg_state_home home =
     (let base = (case xdg_state_home of
                    Some p \<Rightarrow> p
                  | None \<Rightarrow> (case home of
                               Some h \<Rightarrow> path_join (path_join h ''.local'') ''state''
                             | None \<Rightarrow> ''.''))
      in path_join (path_join base ''pai-sho'') ''key'')"

text \<open>The mode a key file is created with is octal 600, which is 384.\<close>

record key_file = state_file +
  create_ok :: bool
  mode :: "nat option"

definition load_or_create_key :: "key_file \<Rightarrow> bytes \<Rightarrow> bytes result \<times> key_file" where
  "load_or_create_key f generated =
     (case contents f of
        Some bs \<Rightarrow>
          if \<not> read_ok f then (Inl (FailedToRead (file_path f)), f)
          else if length bs \<noteq> 32 then (Inl (NotThirtyTwoBytes (file_path f)), f)
          else (Inr bs, f)
      | None \<Rightarrow>
          if \<not> mkdir_ok f then (Inl (FailedToCreate (file_path f)), f)
          else if \<not> create_ok f then (Inl (FailedToCreate (file_path f)), f)
          else if \<not> write_ok f
            then (Inl (FailedToWrite (file_path f)), f\<lparr>contents := torn f, mode := Some 384\<rparr>)
          else (Inr generated, f\<lparr>contents := Some generated, mode := Some 384\<rparr>))"

subsection \<open>Starting\<close>

definition load_pins :: "env \<Rightarrow> pin list \<Rightarrow> pm \<Rightarrow> pm" where
  "load_pins env ps m = fold (\<lambda>p m. snd (add_pinned env m (pin_key p) (pin_label p))) ps m"

definition with_endpoint ::
  "env \<Rightarrow> endpoint_id \<Rightarrow> ip_addr \<Rightarrow> state_file \<Rightarrow> state_file \<Rightarrow> netstack option \<Rightarrow> string option \<Rightarrow> pm result" where
  "with_endpoint env me h pf sf ns name =
     (case pins_load (e_pins env) pf of
        Inl e \<Rightarrow> Inl e
      | Inr ps \<Rightarrow> Inr (restore_surfaces env (load_pins env ps (pm_new me h session_new pf sf ns name))))"

text \<open>\<open>Daemon::new\<close>: the endpoint is built from the key, whose public half is iroh's to compute.\<close>

definition daemon_new ::
  "env \<Rightarrow> (bytes \<Rightarrow> endpoint_id option) \<Rightarrow> key_file \<Rightarrow> bytes \<Rightarrow> ip_addr \<Rightarrow> state_file \<Rightarrow> state_file \<Rightarrow>
     netstack option \<Rightarrow> string option \<Rightarrow> pm result \<times> key_file" where
  "daemon_new env bind_endpoint kf generated h pf sf ns name =
     (case load_or_create_key kf generated of
        (Inl e, kf') \<Rightarrow> (Inl e, kf')
      | (Inr key, kf') \<Rightarrow>
          (case bind_endpoint key of
             None \<Rightarrow> (Inl (CommandFailed ''failed to create iroh endpoint''), kf')
           | Some me \<Rightarrow> (with_endpoint env me h pf sf ns name, kf')))"

subsection \<open>Grants\<close>

definition d_expose :: "env \<Rightarrow> pm \<Rightarrow> u16 \<Rightarrow> endpoint_id list \<Rightarrow> pm" where
  "d_expose env m port to =
     broadcast_grants env (m\<lparr>pm_session := snd (expose (pm_session m) port to)\<rparr>)"

definition d_unexpose :: "env \<Rightarrow> pm \<Rightarrow> u16 \<Rightarrow> endpoint_id option \<Rightarrow> pm" where
  "d_unexpose env m port to =
     broadcast_grants env (m\<lparr>pm_session := snd (unexpose (pm_session m) port to)\<rparr>)"

subsection \<open>Requests\<close>

definition d_invite ::
  "env \<Rightarrow> pm \<Rightarrow> string option \<Rightarrow> string option \<Rightarrow> u16 list \<Rightarrow> bytes \<Rightarrow> instant \<Rightarrow> response \<times> pm" where
  "d_invite env m key name ports rnd now =
     (case key of
        Some k \<Rightarrow>
          (case pin_peer env m k name of
             (Inl e, m') \<Rightarrow> (RespError e, m')
           | (Inr _, m') \<Rightarrow>
               (case e_parse_key env k of
                  None \<Rightarrow> (RespError InvalidKey, m')
                | Some grantee \<Rightarrow> (RespOk, fold (\<lambda>port m. d_expose env m port [grantee]) ports m')))
      | None \<Rightarrow>
          (case mint_token (pm_session m) name ports rnd now of
             (code, s) \<Rightarrow>
               (RespInvite (invite_to_string (e_show_key env) \<lparr>inv_key = our_id m, inv_code = code\<rparr>),
                m\<lparr>pm_session := s\<rparr>)))"

definition d_accept :: "env \<Rightarrow> pm \<Rightarrow> string \<Rightarrow> string option \<Rightarrow> unit result \<times> pm" where
  "d_accept env m hdl name =
     (case handle_from_str (e_parse_key env) hdl of
        Inl e \<Rightarrow> (Inl e, m)
      | Inr h \<Rightarrow> add_peer m (handle_key h) name (handle_code h))"

definition d_list :: "env \<Rightarrow> pm \<Rightarrow> list_info" where
  "d_list env m =
     \<lparr>li_me = e_show_key env (our_id m), li_cli = [], li_daemon = VERSION,
      li_peers = list_peers env m, li_i_expose = granted_ports (pm_session m),
      li_grants = map (\<lambda>g. \<lparr>gi_port = fst g, gi_to = e_show_key env (snd g)\<rparr>) (all_grants (pm_session m))\<rparr>"

text \<open>\<open>collect\<close> into a \<open>Result\<close>: the first error, or all the values.\<close>

fun collect :: "'a result list \<Rightarrow> 'a list result" where
  "collect [] = Inr []"
| "collect (Inl e # rs) = Inl e"
| "collect (Inr x # rs) = (case collect rs of Inl e \<Rightarrow> Inl e | Inr xs \<Rightarrow> Inr (x # xs))"

fun reply_unit :: "unit result \<times> pm \<Rightarrow> response \<times> pm" where
  "reply_unit (Inl e, m) = (RespError e, m)"
| "reply_unit (Inr _, m) = (RespOk, m)"

definition grantees_of :: "env \<Rightarrow> pm \<Rightarrow> string list \<Rightarrow> bool \<Rightarrow> endpoint_id list result" where
  "grantees_of env m to every =
     (if every then
        (if peer_keys (pm_session m) = [] then Inl NoPeersToGrant else Inr (peer_keys (pm_session m)))
      else collect (map (resolve_grantee (e_parse_key env) (pm_session m)) to))"

fun handle_request :: "env \<Rightarrow> pm \<Rightarrow> request \<Rightarrow> bytes \<Rightarrow> instant \<Rightarrow> response \<times> pm" where
  "handle_request env m (ReqInvite key name ports) rnd now = d_invite env m key name ports rnd now"
| "handle_request env m (ReqAccept hdl name) rnd now = reply_unit (d_accept env m hdl name)"
| "handle_request env m (ReqForget p) rnd now = reply_unit (remove_peer env m p)"
| "handle_request env m (ReqExpose port to every) rnd now =
     (case grantees_of env m to every of
        Inl e \<Rightarrow> (RespError e, m)
      | Inr ks \<Rightarrow> (RespOk, d_expose env m port ks))"
| "handle_request env m (ReqUnexpose port to) rnd now =
     (case to of
        None \<Rightarrow> (RespOk, d_unexpose env m port None)
      | Some r \<Rightarrow>
          (case resolve_grantee (e_parse_key env) (pm_session m) r of
             Inl e \<Rightarrow> (RespError e, m)
           | Inr k \<Rightarrow> (RespOk, d_unexpose env m port (Some k))))"
| "handle_request env m ReqList rnd now = (RespList (d_list env m), m)"
| "handle_request env m ReqKey rnd now = (RespKey (e_show_key env (our_id m)), m)"
| "handle_request env m (ReqProject p ip name) rnd now =
     (case ip of
        None \<Rightarrow> reply_unit (project env m p None name)
      | Some s \<Rightarrow>
          (case parse_ip s of
             None \<Rightarrow> (RespError InvalidIpAddress, m)
           | Some addr \<Rightarrow> reply_unit (project env m p (Some addr) name)))"
| "handle_request env m (ReqUnproject p) rnd now = reply_unit (unproject env m p)"

subsection \<open>The start of the process\<close>

text \<open>From the daemon to the router: \<open>--accept\<close> handles that parse, \<open>-e\<close> ports granted to their
  keys, each accepted, and the grants announced.\<close>

definition parsed_handles :: "env \<Rightarrow> string list \<Rightarrow> handle list" where
  "parsed_handles env accept =
     List.map_filter (\<lambda>h. case handle_from_str (e_parse_key env) h of Inl _ \<Rightarrow> None | Inr x \<Rightarrow> Some x) accept"

definition run_startup :: "env \<Rightarrow> pm \<Rightarrow> string list \<Rightarrow> u16 list \<Rightarrow> pm" where
  "run_startup env m accept ports =
     (let handles = parsed_handles env accept;
          grantees = map handle_key handles;
          m1 = fold (\<lambda>port m. d_expose env m port grantees) ports m;
          m2 = fold (\<lambda>h m. snd (add_peer m (handle_key h) None (handle_code h))) handles m1
      in if handles \<noteq> [] then broadcast_grants env m2 else m2)"

text \<open>The name map entry of the daemon's own name, on the TUN backend.\<close>

definition self_surface :: "netstack option \<Rightarrow> string option \<Rightarrow> ip_addr \<Rightarrow> netstack option" where
  "self_surface ns name h =
     (case (ns, name, h) of
        (Some n, Some nm, V4 v4) \<Rightarrow> Some (add_surface n v4 (Some nm))
      | _ \<Rightarrow> ns)"

subsection \<open>Everything that happens to a daemon\<close>

datatype daemon_event =
    Startup "string list" "u16 list"
  | Request request bytes instant
  | Incoming endpoint_id bool
  | EnrollmentStream conn_id "bytes option" instant
  | UniStream nat "bytes option"
  | Dialed nat bool
  | RunConnection nat
  | ClearNotify nat
  | ConnectionLost nat string

definition new_conn :: "pm \<Rightarrow> endpoint_id \<Rightarrow> bool \<Rightarrow> pm" where
  "new_conn m remote opens =
     m\<lparr>conns := conns m @ [\<lparr>c_remote = remote, c_close_reason = None, c_opens_streams = opens, c_sent = []\<rparr>]\<rparr>"

fun daemon_step :: "env \<Rightarrow> pm \<Rightarrow> daemon_event \<Rightarrow> pm" where
  "daemon_step env m (Startup accept ports) = run_startup env m accept ports"
| "daemon_step env m (Request r rnd now) = snd (handle_request env m r rnd now)"
| "daemon_step env m (Incoming remote opens) =
     handle_connection env (new_conn m remote opens) (length (conns m))"
| "daemon_step env m (EnrollmentStream i stream now) = handle_enrollment env m i stream now"
| "daemon_step env m (UniStream a stream) = handle_uni_stream env m a stream"
| "daemon_step env m (Dialed a opens) =
     dialed env (new_conn m (p_endpoint_id (heap m ! a)) opens) a (length (conns m))"
| "daemon_step env m (RunConnection a) = start_running env m a"
| "daemon_step env m (ClearNotify a) = clear_notify m a"
| "daemon_step env m (ConnectionLost c reason) = close_conn m c reason"

abbreviation daemon_run :: "env \<Rightarrow> pm \<Rightarrow> daemon_event list \<Rightarrow> pm" where
  "daemon_run env \<equiv> run_all (daemon_step env)"

end
