(* ===== verification/Session_Props.thy ===== *)
theory Session_Props
  imports Session History
begin

text \<open>
  The properties of the admission core, over single events and over whole histories. A history
  is a list of events run from the empty session.
\<close>

subsection \<open>What an event grants and what it revokes\<close>

abbreviation next_session :: "session \<Rightarrow> event \<Rightarrow> session" where
  "next_session s e \<equiv> snd (session_step s e)"

lemma session_run_eq: "session_run s es = run_all next_session s es"
  by (induction es arbitrary: s) auto

text \<open>The code an event presents with success, if it is a successful claim by \<open>k\<close>.\<close>

definition redeems :: "session \<Rightarrow> event \<Rightarrow> endpoint_id \<Rightarrow> claimed option" where
  "redeems s e k =
     (case e of
        Unadmitted conn r (Enroll token v) now \<Rightarrow>
          if r = k then worth (s_tokens s) now token else None
      | _ \<Rightarrow> None)"

definition grants_access :: "u16 \<Rightarrow> endpoint_id \<Rightarrow> session \<Rightarrow> event \<Rightarrow> bool" where
  "grants_access p k s e \<longleftrightarrow>
     (\<exists>ks. e = Expose p ks \<and> k \<in> set ks) \<or>
     (\<exists>c. redeems s e k = Some c \<and> p \<in> set (claimed_ports c))"

definition revokes_access :: "u16 \<Rightarrow> endpoint_id \<Rightarrow> session \<Rightarrow> event \<Rightarrow> bool" where
  "revokes_access p k s e \<longleftrightarrow>
     e = Unexpose p None \<or> e = Unexpose p (Some k) \<or> (e = Evict k \<and> map_of (s_peers s) k \<noteq> None)"

definition admits :: "endpoint_id \<Rightarrow> session \<Rightarrow> event \<Rightarrow> bool" where
  "admits k s e \<longleftrightarrow> (\<exists>l a. e = AdmitKnown k l a) \<or> redeems s e k \<noteq> None"

definition mints :: "string \<Rightarrow> claimed \<Rightarrow> instant \<Rightarrow> event \<Rightarrow> bool" where
  "mints token c now e \<longleftrightarrow>
     (\<exists>rnd t. e = Mint (claimed_name c) (claimed_ports c) rnd t \<and> hex_bytes rnd = token \<and>
        now < t + TOKEN_TTL)"

lemma enroll_abs:
  assumes "session_wf s"
  shows "spec_enroll (abs_session s) conn k token now =
    (case worth (s_tokens s) now token of
       None \<Rightarrow> (abs_session s)\<lparr>a_codes := (unexpired (a_codes (abs_session s)) now)(token := None),
                 a_waiting := (a_waiting (abs_session s))(conn := None)\<rparr>
     | Some c \<Rightarrow> (abs_session s)\<lparr>a_codes := (unexpired (a_codes (abs_session s)) now)(token := None),
                 a_waiting := (a_waiting (abs_session s))(conn := None),
                 a_peers := (map_of (s_peers s))(k \<mapsto> \<lparr>label = claimed_name c, admission = Code\<rparr>),
                 a_grants := a_grants (abs_session s) \<union> set (claimed_ports c) \<times> {k}\<rparr>)"
proof -
  have wf: "tokens_wf (s_tokens s)" using assms by (simp add: session_wf_def)
  have "a_codes (abs_session s) = map_of (pending_tokens (s_tokens s))"
    by (simp add: abs_session_def)
  then show ?thesis
    using unexpired_worth [OF wf, of now token]
    by (auto simp: spec_enroll_def Let_def split: option.splits)
qed

lemma allows_step:
  assumes "session_wf s"
  shows "allows (s_grants (next_session s e)) p k \<longleftrightarrow>
    grants_access p k s e \<or> allows (s_grants s) p k \<and> \<not> revokes_access p k s e"
proof -
  have "allows (s_grants (next_session s e)) p k \<longleftrightarrow> (p, k) \<in> a_grants (spec_step (abs_session s) e)"
    using refine_step [OF assms, of e] by (metis abs_grant)
  also have "\<dots> \<longleftrightarrow> grants_access p k s e \<or> allows (s_grants s) p k \<and> \<not> revokes_access p k s e"
  proof (cases e)
    case (Unadmitted conn r msg now)
    then show ?thesis
      by (cases msg) (auto simp: grants_access_def revokes_access_def redeems_def
          enroll_abs [OF assms] split: option.splits)
  qed (auto simp: grants_access_def revokes_access_def redeems_def dom_def)
  finally show ?thesis .
qed

lemma peers_step:
  assumes "session_wf s"
  shows "map_of (s_peers (next_session s e)) k \<noteq> None \<longleftrightarrow>
    admits k s e \<or> map_of (s_peers s) k \<noteq> None \<and> e \<noteq> Evict k"
proof -
  have "map_of (s_peers (next_session s e)) k = a_peers (spec_step (abs_session s) e) k"
    using refine_step [OF assms, of e] by (metis abs_peer)
  moreover have "a_peers (spec_step (abs_session s) e) k \<noteq> None \<longleftrightarrow>
      admits k s e \<or> map_of (s_peers s) k \<noteq> None \<and> e \<noteq> Evict k"
  proof (cases e)
    case (Unadmitted conn r msg now)
    then show ?thesis
      by (cases msg) (auto simp: admits_def redeems_def enroll_abs [OF assms] split: option.splits)
  qed (auto simp: admits_def redeems_def dom_def)
  ultimately show ?thesis by simp
qed

lemma worth_step:
  assumes "session_wf s" "worth (s_tokens (next_session s e)) now token = Some c"
  shows "mints token c now e \<or> worth (s_tokens s) now token = Some c"
proof -
  have w: "session_wf (next_session s e)" by (rule session_wf_step [OF assms(1)])
  have u: "\<And>s. session_wf s \<Longrightarrow> worth (s_tokens s) now token = map_option
     (\<lambda>t. \<lparr>claimed_name = token_name t, claimed_ports = token_ports t\<rparr>)
     (unexpired (a_codes (abs_session s)) now token)"
    using unexpired_worth by (simp add: session_wf_def abs_session_def)
  have "a_codes (abs_session (next_session s e)) = a_codes (spec_step (abs_session s) e)"
    using refine_step [OF assms(1), of e] by simp
  then have h: "map_option (\<lambda>t. \<lparr>claimed_name = token_name t, claimed_ports = token_ports t\<rparr>)
     (unexpired (a_codes (spec_step (abs_session s) e)) now token) = Some c"
    using u [OF w] assms(2) by simp
  show ?thesis
  proof (cases e)
    case (Unadmitted conn r msg t)
    then show ?thesis using h u [OF assms(1)]
      by (cases msg) (auto simp: spec_enroll_def Let_def unexpired_def split: option.splits if_splits)
  next
    case (Mint n ps rnd t)
    then show ?thesis using h u [OF assms(1)]
      by (auto simp: mints_def unexpired_def split: if_splits)
  qed (use h u [OF assms(1)] in \<open>auto split: if_splits\<close>)
qed

subsection \<open>Histories\<close>

interpretation sess: machine next_session session_new session_wf
  by unfold_locales (auto intro: session_wf_new session_wf_step)

interpretation access: latch next_session session_new session_wf
  "\<lambda>s. allows (s_grants s) p k" "grants_access p k" "revokes_access p k" for p k
  by unfold_locales (auto simp: session_new_def allows_default allows_step)

interpretation membership: latch next_session session_new session_wf
  "\<lambda>s. map_of (s_peers s) k \<noteq> None" "admits k" "\<lambda>s e. e = Evict k" for k
  by unfold_locales (use peers_step in \<open>auto simp: session_new_def\<close>)

lemma worth_minted:
  "worth (s_tokens (session_run session_new es)) now token = Some c \<Longrightarrow> \<exists>e \<in> set es. mints token c now e"
proof (induction es rule: rev_induct)
  case Nil
  then show ?case by (simp add: session_new_def tokens_default_def worth_def)
next
  case (snoc e es)
  have "session_wf (session_run session_new es)" by (simp add: session_wf_run session_wf_new)
  then show ?case
    using snoc worth_step [where s = "session_run session_new es" and now = now and e = e and
        token = token and c = c]
    by (auto simp: session_run_eq run_all_append)
qed

subsection \<open>Properties\<close>

lemma sorted_list_of_ports:
  "grants_wf g \<Longrightarrow> ports_for g k = sorted_list_of_set {p. allows g p k}"
  by (metis ports_for_set ports_for_sorted sorted_list_of_set.idem_if_sorted_distinct)

text \<open>C3: whatever sequence of events the shell feeds the core, its state stays well formed and is,
  under the abstraction, the state of the abstract access-control machine; the verdict on a
  tunnel is membership in the abstract grant relation, and what a peer is told is exactly the
  ports granted to it, in ascending order.\<close>

theorem session_refines_spec:
  "let s = session_run session_new es; a = fold (\<lambda>e a. spec_step a e) es spec_new
   in session_wf s \<and> abs_session s = a \<and>
      (\<forall>k p. on_tunnel s k p =
         (if (p, k) \<in> a_grants a then ServeTunnel p else RejectTunnel NotGranted)) \<and>
      (\<forall>k. announce s k = Announce k (sorted_list_of_set {p. (p, k) \<in> a_grants a}))"
proof -
  let ?s = "session_run session_new es"
  have wf: "session_wf ?s" by (simp add: session_wf_run session_wf_new)
  have a: "abs_session ?s = fold (\<lambda>e a. spec_step a e) es spec_new"
    using refine_run [OF session_wf_new, of es] by (simp add: abs_session_new)
  have "grants_wf (s_grants ?s)" using wf by (simp add: session_wf_def)
  then show ?thesis
    using wf a abs_grant [of _ _ ?s]
    by (auto simp: Let_def on_tunnel_def announce_def sorted_list_of_ports)
qed

text \<open>C13: default deny, over histories. A tunnel for a port is served to a key exactly when some
  event of the history granted that port to that key, by an \<open>expose\<close> naming it or by the key
  redeeming a code that carried the port, and no later event revoked it.\<close>

theorem tunnel_served_iff_granted:
  "on_tunnel (session_run session_new es) k p = ServeTunnel p \<longleftrightarrow>
     (\<exists>xs e ys. es = xs @ e # ys \<and> grants_access p k (session_run session_new xs) e \<and>
        kept_through next_session (grants_access p k) (revokes_access p k)
          (next_session (session_run session_new xs) e) ys)"
  using access.holds_iff [where es = es and p = p and k = k]
  by (simp add: on_tunnel_def session_run_eq)

text \<open>C14: nobody is a peer by accident. A key is admitted after a history exactly when an event of
  the history named it or was its successful claim of a code, and it was not evicted since.\<close>

theorem admitted_iff_named_or_claimed:
  "admission_of (session_run session_new es) k \<noteq> None \<longleftrightarrow>
     (\<exists>xs e ys. es = xs @ e # ys \<and> admits k (session_run session_new xs) e \<and>
        kept_through next_session (admits k) (\<lambda>s e. e = Evict k)
          (next_session (session_run session_new xs) e) ys)"
  using membership.holds_iff [where es = es and k = k]
  by (simp add: admission_of_def session_run_eq)

text \<open>A code that is worth something was minted by this daemon less than five minutes before,
  for exactly the name and ports it is exchanged for.\<close>

theorem claimed_code_was_minted:
  assumes "redeems (session_run session_new es) (Unadmitted conn k (Enroll token v) now) k = Some c"
  shows "\<exists>rnd t. Mint (claimed_name c) (claimed_ports c) rnd t \<in> set es \<and>
    hex_bytes rnd = token \<and> now < t + secs 300"
  using worth_minted [of es now token c] assms
  by (fastforce simp: redeems_def mints_def TOKEN_TTL_def)

theorem claimed_code_was_minted_witness:
  "\<exists>rnd t. Mint None [8080] rnd t \<in> set [Mint None [8080] [171] 5] \<and>
    hex_bytes rnd = ''ab'' \<and> 7 < t + secs 300"
proof -
  have "redeems (session_run session_new [Mint None [8080] [171] 5])
      (Unadmitted 1 (EndpointId [9]) (Enroll ''ab'' None) 7) (EndpointId [9]) =
      Some \<lparr>claimed_name = None, claimed_ports = [8080]\<rparr>"
    by (simp add: redeems_def session_new_def mint_token_def mint_def mint_with_ttl_def Let_def
        worth_def tokens_default_def TOKEN_TTL_def secs_def hex_bytes_def hex_byte_def hex_digits_def)
  from claimed_code_was_minted [OF this] show ?thesis by simp
qed

subsection \<open>The verdict on a claim\<close>

lemma claim_of_worth:
  assumes "session_wf s"
  obtains ts where "claim (s_tokens s) token now = (worth (s_tokens s) now token, ts)"
  using claim_worth [of "s_tokens s" token now] assms
  by (metis prod.collapse session_wf_def)

lemma enroll_worthless:
  assumes "session_wf s" "worth (s_tokens s) now token = None"
  shows "\<exists>s'. on_unadmitted s conn k (Enroll token v) now = ([Refuse conn NotAuthorized], s') \<and>
    s_peers s' = s_peers s \<and> s_grants s' = s_grants s"
proof -
  obtain ts where "claim (s_tokens s) token now = (None, ts)"
    using claim_of_worth [OF assms(1)] assms(2) by metis
  then show ?thesis by (simp add: on_unadmitted_def)
qed

text \<open>C22: the verdict on a claim, on every branch. A code that is worth nothing (unknown, spent or
  expired) refuses the connection and changes no peer and no grant. A live one admits the key
  under the issuer's name, asks the shell to pin it, applies the ports announced early, and tells
  the peer its ports; afterwards exactly the carried ports have been granted, to that key alone.\<close>

theorem enroll_verdict:
  assumes "session_wf s"
  shows "case on_unadmitted s conn k (Enroll token v) now of (acts, s') \<Rightarrow>
    (case worth (s_tokens s) now token of
       None \<Rightarrow> acts = [Refuse conn NotAuthorized] \<and> s_peers s' = s_peers s \<and> s_grants s' = s_grants s
     | Some c \<Rightarrow>
         acts = [Admit conn k False, PersistPin k (claimed_name c)] @
           (if early_of s conn = [] then [] else [ApplyPorts k (early_of s conn)]) @ [announce s' k] \<and>
         admission_of s' k = Some Code \<and> label_of s' k = claimed_name c \<and>
         (\<forall>p q. allows (s_grants s') p q \<longleftrightarrow>
            allows (s_grants s) p q \<or> q = k \<and> p \<in> set (claimed_ports c))) \<and>
    worth (s_tokens s') now token = None \<and> map_of (s_pending s') conn = None"
proof -
  obtain ts where ts: "claim (s_tokens s) token now = (worth (s_tokens s) now token, ts)"
    using claim_of_worth [OF assms] by blast
  have wf: "tokens_wf (s_tokens s)" "grants_wf (s_grants s)" "btree_ok (s_pending s)"
    "btree_ok (s_peers s)"
    using assms by (auto simp: session_wf_def)
  have "worth ts now token = None"
    using worth_claim [OF wf(1), of now now token token] ts by simp
  then show ?thesis using wf
    by (auto simp: on_unadmitted_def ts Let_def btree_specs gt.permits_add_ports admission_of_def
        label_of_def split: option.splits)
qed

theorem enroll_verdict_witness:
  "session_wf session_new \<and>
   fst (on_unadmitted session_new 1 (EndpointId [9]) (Enroll ''nope'' None) 0) = [Refuse 1 NotAuthorized]"
  using enroll_verdict [OF session_wf_new, where conn = 1 and k = "EndpointId [9]" and
      token = "''nope''" and v = None and now = 0] session_wf_new
  by (simp add: session_new_def tokens_default_def worth_def split: prod.splits)

lemma codes_unminted:
  assumes "session_wf s" "\<forall>e \<in> set es. \<forall>n ps rnd t. e = Mint n ps rnd t \<longrightarrow> hex_bytes rnd \<noteq> token"
    and "worth (s_tokens s) now token = None"
  shows "worth (s_tokens (session_run s es)) now token = None"
  using assms
proof (induction es arbitrary: s)
  case Nil
  then show ?case by simp
next
  case (Cons e es)
  have "\<not> mints token c now e" for c using Cons.prems(2) by (auto simp: mints_def)
  then have "worth (s_tokens (next_session s e)) now token = None"
    using worth_step [OF Cons.prems(1), where now = now and e = e and token = token] Cons.prems(3) by (metis not_None_eq)
  then show ?case using Cons by (simp add: session_wf_step)
qed

text \<open>C15: a code is good once. After any claim that presents a code, successful or not, a later
  claim of the same code by anyone, on any connection, after any events that do not mint that
  very code again, is refused and changes no peer and no grant.\<close>

theorem code_is_single_use:
  assumes "session_wf s"
    and "s1 = next_session s (Unadmitted conn k (Enroll token v) now)"
    and "\<forall>e \<in> set es. \<forall>n ps rnd t. e = Mint n ps rnd t \<longrightarrow> hex_bytes rnd \<noteq> token"
    and "now \<le> later"
  shows "case on_unadmitted (session_run s1 es) conn' k' (Enroll token v') later of (acts, s2) \<Rightarrow>
    acts = [Refuse conn' NotAuthorized] \<and> s_peers s2 = s_peers (session_run s1 es) \<and>
    s_grants s2 = s_grants (session_run s1 es)"
proof -
  have wf1: "session_wf s1" unfolding assms(2) by (rule session_wf_step [OF assms(1)])
  then have wf: "session_wf (session_run s1 es)" by (rule session_wf_run)
  obtain ts where "claim (s_tokens s) token now = (worth (s_tokens s) now token, ts)"
    using claim_of_worth [OF assms(1)] by blast
  then have "s_tokens s1 = snd (claim (s_tokens s) token now)"
    using assms(2) by (auto simp: on_unadmitted_def Let_def split: option.splits)
  then have "worth (s_tokens s1) later token = None"
    using worth_claim [OF _ assms(4), of "s_tokens s" token token] assms(1) by (simp add: session_wf_def)
  then have "worth (s_tokens (session_run s1 es)) later token = None"
    by (rule codes_unminted [OF wf1 assms(3)])
  then show ?thesis
    using enroll_worthless [OF wf, of later token conn' k' v'] by auto
qed

theorem code_is_single_use_witness:
  "let s = session_run session_new [Mint None [8080] [171] 5];
       s1 = next_session s (Unadmitted 1 (EndpointId [9]) (Enroll ''ab'' None) 6)
   in fst (on_unadmitted (session_run s1 [Inbound 2 (EndpointId [8])]) 2 (EndpointId [8]) (Enroll ''ab'' None) 7)
      = [Refuse 2 NotAuthorized]"
proof -
  let ?s = "session_run session_new [Mint None [8080] [171] 5]"
  have "session_wf ?s" by (rule session_wf_run [OF session_wf_new])
  then show ?thesis
    using code_is_single_use [where s = ?s and conn = 1 and k = "EndpointId [9]" and token = "''ab''"
        and v = None and now = 6 and es = "[Inbound 2 (EndpointId [8])]" and later = 7 and conn' = 2
        and k' = "EndpointId [8]" and v' = None]
    by (simp add: Let_def split: prod.splits)
qed

subsection \<open>Announcements, eviction, names\<close>

lemma session_step_announces:
  "Announce k ps \<in> set (fst (session_step s e)) \<Longrightarrow> announce (next_session s e) k = Announce k ps"
proof (cases e)
  case (Unadmitted conn r msg now)
  assume "Announce k ps \<in> set (fst (session_step s e))"
  then show ?thesis using Unadmitted
    by (cases msg) (auto simp: on_unadmitted_def announce_def Let_def split: prod.splits option.splits)
qed (auto simp: session_op_defs announce_def Let_def split: if_splits)

text \<open>No announcement is ever out of date or over-broad. Every port list any event makes the
  shell send lists, in ascending order and without repetition, exactly the ports for which a
  tunnel from that peer would be served in the state after the event.\<close>

theorem announcements_are_exact:
  assumes "session_wf s" and "Announce k ps \<in> set (fst (session_step s e))"
  shows "sorted ps \<and> distinct ps \<and>
    set ps = {p. on_tunnel (next_session s e) k p = ServeTunnel p}"
proof -
  let ?s = "next_session s e"
  have wf: "grants_wf (s_grants ?s)"
    using session_wf_step [OF assms(1), of e] by (simp add: session_wf_def)
  have "ps = ports_for (s_grants ?s) k"
    using session_step_announces [OF assms(2)] by (simp add: announce_def)
  then show ?thesis
    using ports_for_set [OF wf] ports_for_sorted [OF wf] by (auto simp: on_tunnel_def)
qed

theorem announcements_are_exact_witness:
  "let s = session_run session_new [AdmitKnown (EndpointId [1]) None Added, Expose 80 [EndpointId [1]]]
   in Announce (EndpointId [1]) [22, 80] \<in> set (fst (session_step s (Expose 22 [EndpointId [1]]))) \<and>
      set [22, 80] = {p. on_tunnel (next_session s (Expose 22 [EndpointId [1]])) (EndpointId [1]) p = ServeTunnel p}"
proof -
  let ?s = "session_run session_new [AdmitKnown (EndpointId [1]) None Added, Expose 80 [EndpointId [1]]]"
  have "session_wf ?s" by (rule session_wf_run [OF session_wf_new])
  moreover have "Announce (EndpointId [1]) [22, 80] \<in> set (fst (session_step ?s (Expose 22 [EndpointId [1]])))"
    by (simp add: session_op_defs Let_def session_new_def grants_add_def grants_default_def
        announce_def ports_for_def)
  ultimately show ?thesis
    using announcements_are_exact [where s = ?s and k = "EndpointId [1]" and ps = "[22, 80]" and
        e = "Expose 22 [EndpointId [1]]"]
    by (simp add: Let_def)
qed

text \<open>Forgetting a peer is final. After evicting an admitted key the pin is dropped, no tunnel is
  served to it on any port, it is told of no port, its next connection is not admitted, and every
  other key keeps exactly the access it had.\<close>

theorem eviction_cuts_off:
  assumes "session_wf s" and "admission_of s k \<noteq> None"
  shows "case evict s k of (acts, s') \<Rightarrow>
    acts = [DropPin k] \<and> admission_of s' k = None \<and> announce s' k = Announce k [] \<and>
    (\<forall>p. on_tunnel s' k p = RejectTunnel NotGranted) \<and> fst (on_inbound s' conn k) = [] \<and>
    (\<forall>q p. q \<noteq> k \<longrightarrow> on_tunnel s' q p = on_tunnel s q p \<and> admission_of s' q = admission_of s q)"
proof -
  have wf: "grants_wf (s_grants s)" "btree_ok (s_peers s)" using assms(1) by (auto simp: session_wf_def)
  have "ports_for (revoke_grantee (s_grants s) k) k = []"
    using gt.granted_empty_iff [of "revoke_grantee (s_grants s) k" k] wf(1)
    by (simp add: allows_revoke grants_wf_revoke)
  then show ?thesis
    using wf assms(2)
    by (auto simp: evict_def admission_of_def announce_def on_tunnel_def on_inbound_def allows_revoke
        btree_specs)
qed

theorem eviction_cuts_off_witness:
  "let s = session_run session_new [AdmitKnown (EndpointId [1]) None Added, Expose 80 [EndpointId [1]]]
   in on_tunnel s (EndpointId [1]) 80 = ServeTunnel 80 \<and>
      on_tunnel (snd (evict s (EndpointId [1]))) (EndpointId [1]) 80 = RejectTunnel NotGranted"
proof -
  let ?s = "session_run session_new [AdmitKnown (EndpointId [1]) None Added, Expose 80 [EndpointId [1]]]"
  have "session_wf ?s" by (rule session_wf_run [OF session_wf_new])
  moreover have "admission_of ?s (EndpointId [1]) \<noteq> None" "on_tunnel ?s (EndpointId [1]) 80 = ServeTunnel 80"
    by (simp_all add: session_op_defs Let_def session_new_def grants_add_def grants_default_def
        admission_of_def on_tunnel_def allows_def)
  ultimately show ?thesis
    using eviction_cuts_off [where s = ?s and k = "EndpointId [1]" and conn = 1]
    by (simp add: Let_def case_prod_unfold)
qed

text \<open>A connection is installed only with cause. If any event of the core says to admit a
  connection for a key, then the key was already admitted before the event and the connection
  replaces an older one, or the event is the claim of a live code on that very connection; and in
  either case the key is admitted afterwards.\<close>

theorem admit_action_has_cause:
  assumes "session_wf s" and "Admit conn k replacing \<in> set (fst (session_step s e))"
  shows "admission_of (next_session s e) k \<noteq> None \<and>
    (if replacing then e = Inbound conn k \<and> admission_of s k \<noteq> None
     else (\<exists>token v now. e = Unadmitted conn k (Enroll token v) now \<and>
             worth (s_tokens s) now token \<noteq> None))"
proof (cases e)
  case (Unadmitted c r msg now)
  show ?thesis
  proof (cases msg)
    case (Enroll token v)
    obtain ts where "claim (s_tokens s) token now = (worth (s_tokens s) now token, ts)"
      using claim_of_worth [OF assms(1)] by blast
    then show ?thesis using assms Unadmitted Enroll
      by (auto simp: on_unadmitted_def announce_def Let_def admission_of_def map_of_bput
          split: option.splits if_splits)
  qed (use assms Unadmitted in \<open>auto simp: on_unadmitted_def\<close>)
qed (use assms in \<open>auto simp: session_op_defs Let_def announce_def admission_of_def split: if_splits\<close>)

theorem admit_action_has_cause_witness:
  "let s = session_run session_new [AdmitKnown (EndpointId [1]) None Added]
   in Admit 7 (EndpointId [1]) True \<in> set (fst (session_step s (Inbound 7 (EndpointId [1])))) \<and>
      admission_of (next_session s (Inbound 7 (EndpointId [1]))) (EndpointId [1]) \<noteq> None"
proof -
  let ?s = "session_run session_new [AdmitKnown (EndpointId [1]) None Added]"
  have "session_wf ?s" by (rule session_wf_run [OF session_wf_new])
  moreover have "Admit 7 (EndpointId [1]) True \<in> set (fst (session_step ?s (Inbound 7 (EndpointId [1]))))"
    by (simp add: session_op_defs session_new_def)
  ultimately show ?thesis using admit_action_has_cause [of ?s] by (metis (no_types, lifting))
qed

lemma grantee_by_label:
  assumes "session_wf s" and "parse_key r = None"
  shows "resolve_grantee parse_key s r = Inr k \<longleftrightarrow> {q. label_of s q = Some r} = {k}"
    "resolve_grantee parse_key s r = Inl e \<longleftrightarrow>
       e = NoPeerMatches r \<and> {q. label_of s q = Some r} = {} \<or>
       e = AmbiguousName r \<and> (\<exists>a b. a \<noteq> b \<and> {a, b} \<subseteq> {q. label_of s q = Some r})"
proof -
  let ?ks = "map fst (filter (\<lambda>e. label (snd e) = Some r) (s_peers s))"
  have "distinct (keys (s_peers s))" using assms(1) by (auto simp: session_wf_def intro: btree_ok_distinct)
  then have d: "distinct ?ks" by (rule distinct_fst_filter)
  have "q \<in> set ?ks \<longleftrightarrow> label_of s q = Some r" for q
    using assms(1) bm.entry_iff [of "s_peers s" q]
    by (force simp: label_of_def session_wf_def split: option.splits)
  then have ks: "{q. label_of s q = Some r} = set ?ks" by blast
  obtain ys where ys: "?ks = ys" by blast
  have r: "resolve_grantee parse_key s r =
      (case ys of [key] \<Rightarrow> Inr key | _ # _ # _ \<Rightarrow> Inl (AmbiguousName r) | [] \<Rightarrow> Inl (NoPeerMatches r))"
    using assms(2) ys by (simp add: resolve_grantee_def)
  have y: "distinct ys" "{q. label_of s q = Some r} = set ys" using d ks ys by simp_all
  show "resolve_grantee parse_key s r = Inr k \<longleftrightarrow> {q. label_of s q = Some r} = {k}"
    unfolding r using y by (cases ys rule: remdups_adj.cases) (auto simp: doubleton_eq_iff)
  show "resolve_grantee parse_key s r = Inl e \<longleftrightarrow>
       e = NoPeerMatches r \<and> {q. label_of s q = Some r} = {} \<or>
       e = AmbiguousName r \<and> (\<exists>a b. a \<noteq> b \<and> {a, b} \<subseteq> {q. label_of s q = Some r})"
    unfolding r using y by (cases ys rule: remdups_adj.cases) auto
qed

text \<open>C36: a grant never guesses. A reference resolves to a key exactly when it parses as that key, admitted
  or not and whatever labels there are, or does not parse and that key is the only admitted peer that carries it
  as its label; it is an error exactly when it does not parse and no peer or more than one carries it. So
  the printed text of a key always names that key.\<close>

theorem grantee_never_guessed:
  assumes "session_wf s"
  shows "(resolve_grantee parse_key s r = Inr k \<longleftrightarrow>
      parse_key r = Some k \<or> parse_key r = None \<and> {q. label_of s q = Some r} = {k}) \<and>
    (resolve_grantee parse_key s r = Inl e \<longleftrightarrow> parse_key r = None \<and>
      (e = NoPeerMatches r \<and> {q. label_of s q = Some r} = {} \<or>
       e = AmbiguousName r \<and> (\<exists>a b. a \<noteq> b \<and> {a, b} \<subseteq> {q. label_of s q = Some r}))) \<and>
    (key_codec show_key parse_key \<longrightarrow> resolve_grantee parse_key s (show_key k) = Inr k)"
proof (cases "parse_key r")
  case None
  then show ?thesis using grantee_by_label [where parse_key = parse_key, OF assms None] by (auto simp: resolve_grantee_def key_codecD)
next
  case (Some q)
  then show ?thesis by (auto simp: resolve_grantee_def key_codecD)
qed

theorem grantee_never_guessed_witness:
  "let s = session_run session_new [AdmitKnown (EndpointId [1]) (Some ''box'') Added]
   in resolve_grantee hex_parse s ''box'' = Inr (EndpointId [1]) \<and>
      resolve_grantee hex_parse s (hex_show (EndpointId [7])) = Inr (EndpointId [7])"
proof -
  let ?s = "session_run session_new [AdmitKnown (EndpointId [1]) (Some ''box'') Added]"
  have wf: "session_wf ?s" by (rule session_wf_run [OF session_wf_new])
  have "{q. label_of ?s q = Some ''box''} = {EndpointId [1]}"
    by (auto simp: label_of_def session_op_defs session_new_def split: if_splits)
  then have "resolve_grantee hex_parse ?s ''box'' = Inr (EndpointId [1])"
    using grantee_never_guessed [OF wf, of hex_parse "''box''" "EndpointId [1]" _ hex_show] by simp
  moreover have "resolve_grantee hex_parse ?s (hex_show (EndpointId [7])) = Inr (EndpointId [7])"
    using grantee_never_guessed [OF wf, of hex_parse "[]" "EndpointId [7]" _ hex_show] hex_codec by simp
  ultimately show ?thesis by (simp only: Let_def)
qed

end
