(* ===== verification/Plain_Codec.thy ===== *)
theory Plain_Codec
  imports Enroll Surface Protocol
begin

text \<open>
  A concrete codec for the records the daemon stores and the messages it sends. The program's own
  encoding is serde's JSON, a parameter of the model; this plain encoding shows that the laws the
  theorems assume of that parameter can be met, and gives the witnesses something to compute with.
  A value is a list of numbers, and a number is that many ones and a zero.
\<close>

subsection \<open>Codes over numbers\<close>

type_synonym 'a enc = "'a \<Rightarrow> nat list"
type_synonym 'a dec = "nat list \<Rightarrow> ('a \<times> nat list) option"

definition code_ok :: "'a enc \<Rightarrow> 'a dec \<Rightarrow> bool" where
  "code_ok e d \<longleftrightarrow> (\<forall>x r. d (e x @ r) = Some (x, r))"

fun dec_nat :: "nat dec" where
  "dec_nat [] = None"
| "dec_nat (n # r) = Some (n, r)"

definition enc_pair :: "'a enc \<Rightarrow> 'b enc \<Rightarrow> ('a \<times> 'b) enc" where
  "enc_pair e f p = e (fst p) @ f (snd p)"

definition dec_pair :: "'a dec \<Rightarrow> 'b dec \<Rightarrow> ('a \<times> 'b) dec" where
  "dec_pair d g r =
     (case d r of None \<Rightarrow> None
      | Some (x, r') \<Rightarrow> (case g r' of None \<Rightarrow> None | Some (y, r'') \<Rightarrow> Some ((x, y), r'')))"

definition enc_map :: "('b \<Rightarrow> 'a) \<Rightarrow> 'a enc \<Rightarrow> 'b enc" where
  "enc_map f e y = e (f y)"

definition dec_map :: "('a \<Rightarrow> 'b) \<Rightarrow> 'a dec \<Rightarrow> 'b dec" where
  "dec_map g d r = (case d r of None \<Rightarrow> None | Some (x, r') \<Rightarrow> Some (g x, r'))"

fun enc_option :: "'a enc \<Rightarrow> 'a option enc" where
  "enc_option e None = [0]"
| "enc_option e (Some x) = 1 # e x"

fun dec_option :: "'a dec \<Rightarrow> 'a option dec" where
  "dec_option d [] = None"
| "dec_option d (n # r) = (if n = 0 then Some (None, r) else dec_map Some d r)"

fun dec_times :: "nat \<Rightarrow> 'a dec \<Rightarrow> 'a list dec" where
  "dec_times 0 d r = Some ([], r)"
| "dec_times (Suc n) d r = dec_map (\<lambda>p. fst p # snd p) (dec_pair d (dec_times n d)) r"

definition enc_list :: "'a enc \<Rightarrow> 'a list enc" where
  "enc_list e xs = length xs # concat (map e xs)"

fun dec_list :: "'a dec \<Rightarrow> 'a list dec" where
  "dec_list d [] = None"
| "dec_list d (n # r) = dec_times n d r"

lemma code_nat: "code_ok (\<lambda>n. [n]) dec_nat"
  by (simp add: code_ok_def)

lemma code_pair: "code_ok e d \<Longrightarrow> code_ok f g \<Longrightarrow> code_ok (enc_pair e f) (dec_pair d g)"
  by (simp add: code_ok_def enc_pair_def dec_pair_def)

lemma code_map: "code_ok e d \<Longrightarrow> (\<And>y. g (f y) = y) \<Longrightarrow> code_ok (enc_map f e) (dec_map g d)"
  by (simp add: code_ok_def enc_map_def dec_map_def)

lemma code_option: "code_ok e d \<Longrightarrow> code_ok (enc_option e) (dec_option d)"
  unfolding code_ok_def
proof (intro allI)
  fix x :: "'a option" and r
  assume "\<forall>x r. d (e x @ r) = Some (x, r)"
  then show "dec_option d (enc_option e x @ r) = Some (x, r)" by (cases x) (auto simp: dec_map_def)
qed

lemma code_times:
  "code_ok e d \<Longrightarrow> dec_times (length xs) d (concat (map e xs) @ r) = Some (xs, r)"
  by (induction xs) (auto simp: code_ok_def dec_map_def dec_pair_def)

lemma code_list: "code_ok e d \<Longrightarrow> code_ok (enc_list e) (dec_list d)"
  using code_times by (auto simp: code_ok_def enc_list_def)

lemmas code_intros = code_nat code_pair code_map code_option code_list

subsection \<open>Numbers as bytes\<close>

definition to_unary :: "nat list \<Rightarrow> bytes" where
  "to_unary ns = concat (map (\<lambda>n. replicate n 1 @ [0]) ns)"

fun of_unary :: "nat \<Rightarrow> bytes \<Rightarrow> nat list" where
  "of_unary n [] = []"
| "of_unary n (b # bs) = (if b = 0 then n # of_unary 0 bs else of_unary (Suc n) bs)"

lemma of_unary_replicate: "of_unary m (replicate n 1 @ 0 # bs) = (m + n) # of_unary 0 bs"
  by (induction n arbitrary: m) auto

lemma of_to_unary: "of_unary 0 (to_unary ns) = ns"
  by (induction ns) (auto simp: to_unary_def of_unary_replicate)

definition plain_codec :: "'r enc \<Rightarrow> 'r dec \<Rightarrow> 'r codec" where
  "plain_codec e d =
     \<lparr>serialize = (\<lambda>rs. Some (to_unary (enc_list e rs))),
      deserialize = (\<lambda>b. map_option fst (dec_list d (of_unary 0 b)))\<rparr>"

lemma plain_codec_ok: "code_ok e d \<Longrightarrow> codec_ok (plain_codec e d)"
  using code_list [of e d]
  by (auto simp: codec_ok_def plain_codec_def of_to_unary code_ok_def dest: spec [where x = "[]"])
    (metis append_Nil2 fst_conv option.simps(9))

subsection \<open>The stored records\<close>

abbreviation enc_string :: "string enc" where
  "enc_string \<equiv> enc_list (enc_map of_char (\<lambda>n. [n]))"

abbreviation dec_string :: "string dec" where
  "dec_string \<equiv> dec_list (dec_map char_of dec_nat)"

lemma code_string: "code_ok enc_string dec_string"
  by (intro code_intros) simp

definition pin_codec :: "pin codec" where
  "pin_codec = plain_codec
     (enc_map (\<lambda>p. (pin_key p, pin_label p)) (enc_pair enc_string (enc_option enc_string)))
     (dec_map (\<lambda>(k, l). \<lparr>pin_key = k, pin_label = l\<rparr>) (dec_pair dec_string (dec_option dec_string)))"

lemma pin_codec_ok: "codec_ok pin_codec"
  unfolding pin_codec_def by (intro plain_codec_ok code_intros code_string) simp_all

fun ip_parts :: "ip_addr \<Rightarrow> nat list" where
  "ip_parts (V4 (Ipv4 a b c d)) = [unat a, unat b, unat c, unat d]"
| "ip_parts (V6 w) = [unat w]"

fun ip_of_parts :: "nat list \<Rightarrow> ip_addr" where
  "ip_of_parts [a, b, c, d] = V4 (Ipv4 (of_nat a) (of_nat b) (of_nat c) (of_nat d))"
| "ip_of_parts ns = V6 (of_nat (hd ns))"

lemma ip_of_parts [simp]: "ip_of_parts (ip_parts ip) = ip"
  by (induction ip rule: ip_parts.induct) simp_all

abbreviation enc_ip :: "ip_addr enc" where
  "enc_ip \<equiv> enc_map ip_parts (enc_list (\<lambda>n. [n]))"

abbreviation dec_ip :: "ip_addr dec" where
  "dec_ip \<equiv> dec_map ip_of_parts (dec_list dec_nat)"

definition surface_codec :: "surface_record codec" where
  "surface_codec = plain_codec
     (enc_map (\<lambda>r. (sr_key r, sr_ip r, sr_name r))
        (enc_pair enc_string (enc_pair enc_ip (enc_option enc_string))))
     (dec_map (\<lambda>(k, i, n). \<lparr>sr_key = k, sr_ip = i, sr_name = n\<rparr>)
        (dec_pair dec_string (dec_pair dec_ip (dec_option dec_string))))"

lemma surface_codec_ok: "codec_ok surface_codec"
  unfolding surface_codec_def by (intro plain_codec_ok code_intros code_string) simp_all

subsection \<open>Messages between peers\<close>

abbreviation enc_ports :: "u16 list enc" where
  "enc_ports \<equiv> enc_list (enc_map unat (\<lambda>n. [n]))"

abbreviation dec_ports :: "u16 list dec" where
  "dec_ports \<equiv> dec_list (dec_map of_nat dec_nat)"

fun enc_message :: "peer_message enc" where
  "enc_message (ExposedPorts ports) = 0 # enc_ports ports"
| "enc_message (Connect port) = [1, unat port]"
| "enc_message (Enroll token version) = 2 # enc_pair enc_string (enc_option enc_string) (token, version)"
| "enc_message (PeerError e) = 3 # enc_string e"

fun dec_message :: "peer_message dec" where
  "dec_message [] = None"
| "dec_message (n # r) =
     (if n = 0 then dec_map ExposedPorts dec_ports r
      else if n = 1 then dec_map (Connect \<circ> of_nat) dec_nat r
      else if n = 2 then dec_map (\<lambda>p. Enroll (fst p) (snd p)) (dec_pair dec_string (dec_option dec_string)) r
      else dec_map PeerError dec_string r)"

definition encode_message :: "peer_message \<Rightarrow> bytes option" where
  "encode_message msg = Some (to_unary (enc_message msg))"

definition decode_message :: "bytes \<Rightarrow> peer_message option" where
  "decode_message b = map_option fst (dec_message (of_unary 0 b))"

lemma code_ports: "code_ok enc_ports dec_ports"
  by (intro code_intros) simp

lemma code_at_end: "code_ok e d \<Longrightarrow> d (e x) = Some (x, [])"
proof -
  assume "code_ok e d"
  then have "d (e x @ []) = Some (x, [])" unfolding code_ok_def by blast
  then show ?thesis by simp
qed

lemma code_message: "dec_message (enc_message msg) = Some (msg, [])"
proof (cases msg)
  case (ExposedPorts ports)
  then show ?thesis using code_at_end [OF code_ports, of ports] by (simp add: dec_map_def [of ExposedPorts])
next
  case (Enroll token version)
  have "code_ok (enc_pair enc_string (enc_option enc_string)) (dec_pair dec_string (dec_option dec_string))"
    by (intro code_intros code_string)
  from code_at_end [OF this, of "(token, version)"] show ?thesis
    using Enroll by (simp add: dec_map_def [of "\<lambda>p. Enroll (fst p) (snd p)"])
next
  case (PeerError e)
  then show ?thesis using code_at_end [OF code_string, of e] by (simp add: dec_map_def [of PeerError])
qed (simp add: dec_map_def)

lemma message_codec_ok: "\<exists>b. encode_message msg = Some b \<and> decode_message b = Some msg"
  by (simp add: encode_message_def decode_message_def of_to_unary code_message)

lemma length_to_unary: "length (to_unary ns) = sum_list ns + length ns"
  by (induction ns) (auto simp: to_unary_def)

subsection \<open>A file that works\<close>

definition new_file :: "string \<Rightarrow> state_file" where
  "new_file path = \<lparr>file_path = path, contents = None, read_ok = True, mkdir_ok = True,
     write_ok = True, torn = None\<rparr>"

lemma new_file_usable [simp]: "file_usable (new_file path)"
  by (simp add: new_file_def file_usable_def)

lemma new_file_absent [simp]: "contents (new_file path) = None"
  by (simp add: new_file_def)

end
