(* ===== verification/Daemon_Props.thy ===== *)
theory Daemon_Props
  imports Daemon Session_Props Plain_Codec
begin

text \<open>
  The properties of a whole daemon: the invariant over every history of requests, connections,
  messages and dials, and that the shell moves the core only by events of the core, so that what is
  proved of histories of the core holds of the whole daemon.
\<close>

subsection \<open>The invariant over histories\<close>

lemma new_conn_last:
  "length (conns m) < length (conns (new_conn m remote opens))"
  "c_remote (conns (new_conn m remote opens) ! length (conns m)) = remote"
  "heap (new_conn m remote opens) = heap m" "pm_session (new_conn m remote opens) = pm_session m"
  "peers (new_conn m remote opens) = peers m" "enrolling (new_conn m remote opens) = enrolling m"
  "length (conns (new_conn m remote opens)) = Suc (length (conns m))"
  by (simp_all add: new_conn_def)

lemma pm_wf_new_conn: "pm_wf m \<Longrightarrow> pm_wf (new_conn m remote opens)"
proof -
  assume wf: "pm_wf m"
  have "object_wf (new_conn m remote opens) p" if "object_wf m p" for p
    using that by (auto simp: object_wf_def new_conn_def nth_append)
  then show ?thesis
    using wf unfolding pm_wf_but_def map_wf_def new_conn_last(3-7) by (simp add: less_SucI)
qed

lemma same_peers:
  "s_peers (snd (expose s port ks)) = s_peers s" "s_peers (snd (unexpose s port t)) = s_peers s"
  "s_peers (snd (mint_token s n ps rnd now)) = s_peers s"
  by (simp_all add: expose_def unexpose_def mint_token_def Let_def split: prod.splits)

lemma pm_wf_expose: "pm_wf m \<Longrightarrow> pm_wf (d_expose env m port ks)"
  unfolding d_expose_def
  by (intro pm_wf_broadcast pm_wf_session) (simp_all only: same_peers session_wf_ops pm_wfD(1))

lemma pm_wf_unexpose: "pm_wf m \<Longrightarrow> pm_wf (d_unexpose env m port t)"
  unfolding d_unexpose_def
  by (intro pm_wf_broadcast pm_wf_session) (simp_all only: same_peers session_wf_ops pm_wfD(1))

lemma pm_wf_mint: "pm_wf m \<Longrightarrow> pm_wf (m\<lparr>pm_session := snd (mint_token (pm_session m) n ps rnd now)\<rparr>)"
  by (intro pm_wf_session) (simp_all only: same_peers session_wf_ops pm_wfD(1))

lemma pm_wf_invite: "pm_wf m \<Longrightarrow> pm_wf (snd (d_invite env m key name ports rnd now))"
  using pm_wf_pin_peer [of m env "the key" name] pm_wf_mint [of m name ports rnd now]
  by (auto simp: d_invite_def split: option.splits prod.splits sum.splits intro!: pm_wf_fold pm_wf_expose)

lemma snd_reply_unit [simp]: "snd (reply_unit r) = snd r"
  by (cases r rule: reply_unit.cases) simp_all

lemma pm_wf_accept: "pm_wf m \<Longrightarrow> pm_wf (snd (d_accept env m hdl name))"
  by (simp add: d_accept_def pm_wf_add_peer split: sum.splits)

lemma pm_wf_request: "pm_wf m \<Longrightarrow> pm_wf (snd (handle_request env m r rnd now))"
  by (cases r) (simp_all add: pm_wf_invite pm_wf_accept pm_wf_remove_peer pm_wf_project
      pm_wf_unproject pm_wf_expose pm_wf_unexpose split: sum.splits option.splits)

lemma pm_wf_startup: "pm_wf m \<Longrightarrow> pm_wf (run_startup env m accept ports)"
  by (auto simp: run_startup_def Let_def intro!: pm_wf_broadcast pm_wf_fold pm_wf_expose pm_wf_add_peer)

lemma pm_wf_daemon_step: "pm_wf m \<Longrightarrow> pm_wf (daemon_step env m e)"
proof (cases e)
  case (Incoming k opens)
  assume "pm_wf m"
  then show ?thesis
    using Incoming pm_wf_handle_connection [OF pm_wf_new_conn new_conn_last(1)] by simp
next
  case (Dialed a opens)
  assume "pm_wf m"
  then show ?thesis
    using Dialed pm_wf_dialed [OF pm_wf_new_conn new_conn_last(1)] by (simp add: new_conn_last)
qed (simp_all add: pm_wf_startup pm_wf_request pm_wf_handle_enrollment pm_wf_handle_uni pm_wf_start_running
    pm_wf_clear_notify pm_wf_close)

lemma pm_wf_pm_new: "pm_wf (pm_new me h session_new pf sf ns name)"
  by (simp add: pm_wf_but_def pm_new_def map_wf_def session_wf_new) (simp add: session_new_def)

interpretation dm: machine "daemon_step env" "pm_new me h session_new pf sf ns name" pm_wf
  for env me h pf sf ns name
  by unfold_locales (simp_all add: pm_wf_pm_new pm_wf_daemon_step)

subsection \<open>Starting from the files\<close>

text \<open>A state in which nothing is bound yet.\<close>

definition unbound :: "pm \<Rightarrow> bool" where
  "unbound m \<longleftrightarrow> (\<forall>a < length (heap m). p_bindings (heap m ! a) = [])"

lemma unbound_add_pinned: "unbound m \<Longrightarrow> unbound (snd (add_pinned env m key name))"
  by (auto simp: unbound_def add_pinned_def install_peer_def nth_append peer_new_def less_Suc_eq
      split: option.splits)

lemma unbound_restore_record: "unbound m \<Longrightarrow> unbound (restore_record env r m)"
proof -
  assume u: "unbound m"
  have "heap (snd (claim_addr env m (sr_ip r) (sr_name r))) = heap m" by (rule claim_addr_heap)
  moreover have "unbound (set_peer m' a (\<lambda>p. p\<lparr>p_surface := s\<rparr>))" if "heap m' = heap m" for m' a s
  proof -
    have "length (heap (set_peer m' a (\<lambda>p. p\<lparr>p_surface := s\<rparr>))) = length (heap m)"
      using that by (simp add: set_peer_def)
    then show ?thesis using u that by (auto simp: unbound_def set_peer_nth)
  qed
  ultimately show ?thesis
    using u by (auto simp: unbound_def [of m] restore_record_def split: option.splits prod.splits sum.splits)
      (simp add: unbound_def)
qed

lemma pm_wf_restore_record:
  assumes wf: "pm_wf m" and u: "unbound m"
  shows "pm_wf (restore_record env r m)"
proof (cases "Option.bind (e_parse_key env (sr_key r)) (map_of (peers m))")
  case None
  then show ?thesis using wf by (simp add: restore_record_def)
next
  case (Some a)
  obtain c m' where c: "claim_addr env m (sr_ip r) (sr_name r) = (c, m')" by fastforce
  have t: "touches a m m'" and h: "heap m' = heap m"
    using touches_claim [of a m env "sr_ip r" "sr_name r"] claim_addr_heap [of env m "sr_ip r" "sr_name r"] c
    by simp_all
  have "touches a m (restore_record env r m)"
    using t touches_trans [OF t touches_surface] by (cases c) (simp_all add: restore_record_def Some c)
  moreover have "peer_wf (on_tun m) (heap (restore_record env r m) ! a)" if "a < length (heap m)"
    using that u h
    by (cases c) (simp_all add: restore_record_def Some c set_peer_nth unbound_def peer_wf_def)
  ultimately show ?thesis by (rule pm_wf_touches [OF _ wf])
qed

lemma session_restore_record: "pm_session (restore_record env r m) = pm_session m"
  using touches_claim [of 0 m env "sr_ip r" "sr_name r", THEN touches_keeps(4)]
  by (auto simp: restore_record_def split: option.splits prod.splits sum.splits)

lemma load_pins_start:
  "pm_wf m \<Longrightarrow> unbound m \<Longrightarrow>
     pm_wf (load_pins env ps m) \<and> unbound (load_pins env ps m) \<and>
     core_runs (pm_session m) (pm_session (load_pins env ps m))"
proof (induction ps arbitrary: m)
  case Nil
  then show ?case by (simp add: load_pins_def)
next
  case (Cons p ps)
  let ?m = "snd (add_pinned env m (pin_key p) (pin_label p))"
  have "load_pins env (p # ps) m = load_pins env ps ?m" by (simp add: load_pins_def)
  moreover have "pm_wf (load_pins env ps ?m) \<and> unbound (load_pins env ps ?m) \<and>
      core_runs (pm_session ?m) (pm_session (load_pins env ps ?m))"
    by (rule Cons.IH [OF pm_wf_add_pinned [OF Cons.prems(1)] unbound_add_pinned [OF Cons.prems(2)]])
  ultimately show ?case
    using core_runs_trans [OF core_add_pinned [of m env "pin_key p" "pin_label p"]] by simp
qed

lemma restore_records_start:
  "pm_wf m \<Longrightarrow> unbound m \<Longrightarrow>
     pm_wf (fold (restore_record env) rs m) \<and> pm_session (fold (restore_record env) rs m) = pm_session m"
proof (induction rs arbitrary: m)
  case (Cons r rs)
  then show ?case
    using pm_wf_restore_record unbound_restore_record session_restore_record by simp
qed simp

lemma with_endpoint_start:
  assumes "with_endpoint env me h pf sf ns name = Inr m"
  shows "pm_wf m \<and> core_runs session_new (pm_session m)"
proof -
  let ?m = "pm_new me h session_new pf sf ns name"
  obtain ps where m: "m = restore_surfaces env (load_pins env ps ?m)"
    using assms by (auto simp: with_endpoint_def split: sum.splits)
  have "unbound ?m" "pm_session ?m = session_new" by (simp_all add: unbound_def pm_new_def)
  then have l: "pm_wf (load_pins env ps ?m)" "unbound (load_pins env ps ?m)"
    "core_runs session_new (pm_session (load_pins env ps ?m))"
    using load_pins_start [OF pm_wf_pm_new, of me h pf sf ns name env ps] by simp_all
  then show ?thesis
    using restore_records_start [OF l(1,2)] by (simp add: m restore_surfaces_def split: sum.splits)
qed

subsection \<open>The shell moves the core by the core's events only\<close>

lemma core_fold:
  "(\<And>x m. core_runs (pm_session m) (pm_session (f x m))) \<Longrightarrow>
     core_runs (pm_session m) (pm_session (fold f xs m))"
  by (induction xs arbitrary: m) (auto intro: core_runs_trans)

lemma core_expose: "core_runs (pm_session m) (pm_session (d_expose env m port ks))"
  by (simp add: d_expose_def core_runs_ops)

lemma core_unexpose: "core_runs (pm_session m) (pm_session (d_unexpose env m port t))"
  by (simp add: d_unexpose_def core_runs_ops)

lemma core_invite: "core_runs (pm_session m) (pm_session (snd (d_invite env m key name ports rnd now)))"
proof (cases key)
  case None
  then show ?thesis
    using core_runs_ops(8) [of "pm_session m" name ports rnd now]
    by (simp add: d_invite_def split: prod.splits) (metis snd_conv)
next
  case (Some k)
  obtain r m' where p: "pin_peer env m k name = (r, m')" by fastforce
  then have m': "core_runs (pm_session m) (pm_session m')" using core_pin_peer [of m env k name] by simp
  then have "core_runs (pm_session m) (pm_session (fold (\<lambda>port m. d_expose env m port [g]) ports m'))" for g
    by (rule core_runs_trans) (rule core_fold, rule core_expose)
  then show ?thesis
    using m' Some p by (simp add: d_invite_def split: sum.splits option.splits)
qed

lemma core_request: "core_runs (pm_session m) (pm_session (snd (handle_request env m r rnd now)))"
proof -
  have "core_runs (pm_session m) (pm_session (snd (d_accept env m hdl name)))" for hdl name
    by (simp add: d_accept_def core_add_peer split: sum.splits)
  then show ?thesis
    by (cases r) (simp_all add: core_invite core_remove_peer core_project core_unproject core_expose
        core_unexpose split: sum.splits option.splits)
qed

lemma core_startup: "core_runs (pm_session m) (pm_session (run_startup env m accept ports))"
proof -
  have "core_runs (pm_session m) (pm_session (fold (\<lambda>h m. snd (add_peer m (handle_key h) None (handle_code h))) hs
      (fold (\<lambda>port m. d_expose env m port ks) ports m)))" for ks hs
    by (rule core_runs_trans [OF core_fold core_fold]) (rule core_expose core_add_peer)+
  then show ?thesis by (simp add: run_startup_def Let_def core_fold core_expose)
qed

lemma core_daemon_step: "core_runs (pm_session m) (pm_session (daemon_step env m e))"
proof (cases e)
  case (Incoming k opens)
  then show ?thesis using core_handle_connection [of "new_conn m k opens"] by (simp add: new_conn_last)
next
  case (Dialed a opens)
  then show ?thesis by (simp add: core_dialed new_conn_last)
qed (simp_all add: core_startup core_request core_handle_enrollment core_handle_uni start_running_def
    send_version_def clear_notify_def)

lemma core_daemon_run: "core_runs (pm_session m) (pm_session (daemon_run env m es))"
  by (induction es arbitrary: m) (auto intro: core_runs_trans [OF core_daemon_step])

end
