(* ===== verification/Daemon_Access.thy ===== *)
theory Daemon_Access
  imports Daemon_Props
begin

text \<open>
  Access at the level of the daemon: which of the things that happen to a daemon give a key a port,
  which take it away, and that nothing else does either. The locale \<open>latch\<close> then turns the step
  lemma into a characterisation over whole histories of a daemon.
\<close>

subsection \<open>What gives a port and what takes it\<close>

abbreviation may :: "pm \<Rightarrow> u16 \<Rightarrow> endpoint_id \<Rightarrow> bool" where
  "may m p k \<equiv> allows (s_grants (pm_session m)) p k"

text \<open>The operator's requests and flags that name the key for the port.\<close>

fun operator_grants :: "env \<Rightarrow> u16 \<Rightarrow> endpoint_id \<Rightarrow> pm \<Rightarrow> daemon_event \<Rightarrow> bool" where
  "operator_grants env p k m (Startup accept ports) =
     (p \<in> set ports \<and> k \<in> handle_key ` set (parsed_handles env accept))"
| "operator_grants env p k m (Request (ReqExpose port to every) rnd now) =
     (port = p \<and> (case grantees_of env m to every of Inl _ \<Rightarrow> False | Inr ks \<Rightarrow> k \<in> set ks))"
| "operator_grants env p k m (Request (ReqInvite (Some key) name ports) rnd now) =
     (p \<in> set ports \<and> e_parse_key env key = Some k \<and> fst (pin_peer env m key name) = Inr ())"
| "operator_grants env p k m _ = False"

text \<open>The claim, by the key itself, of a live code that carries the port.\<close>

fun code_grants :: "env \<Rightarrow> u16 \<Rightarrow> endpoint_id \<Rightarrow> pm \<Rightarrow> daemon_event \<Rightarrow> bool" where
  "code_grants env p k m (EnrollmentStream i (Some data) now) =
     (length data \<le> READ_LIMIT \<and>
      (case (map_of (enrolling m) i, e_decode env data) of
         (Some en, Some (Enroll token _)) \<Rightarrow>
           c_remote (conns m ! en_conn en) = k \<and>
           (case worth (s_tokens (pm_session m)) now token of
              None \<Rightarrow> False
            | Some c \<Rightarrow> p \<in> set (claimed_ports c))
       | _ \<Rightarrow> False))"
| "code_grants env p k m _ = False"

fun operator_revokes :: "env \<Rightarrow> u16 \<Rightarrow> endpoint_id \<Rightarrow> pm \<Rightarrow> daemon_event \<Rightarrow> bool" where
  "operator_revokes env p k m (Request (ReqUnexpose port None) rnd now) = (port = p)"
| "operator_revokes env p k m (Request (ReqUnexpose port (Some r)) rnd now) =
     (port = p \<and> resolve_grantee (e_parse_key env) (pm_session m) r = Inr k)"
| "operator_revokes env p k m (Request (ReqForget r) rnd now) = (resolve_peer env m r = Some k)"
| "operator_revokes env p k m _ = False"

definition daemon_grants :: "env \<Rightarrow> u16 \<Rightarrow> endpoint_id \<Rightarrow> pm \<Rightarrow> daemon_event \<Rightarrow> bool" where
  "daemon_grants env p k m e \<longleftrightarrow> operator_grants env p k m e \<or> code_grants env p k m e"

subsection \<open>The operations\<close>

lemma core_wf: "pm_wf m \<Longrightarrow> session_wf (pm_session m)"
  by (rule pm_wfD(1))

lemma may_expose: "pm_wf m \<Longrightarrow> may (d_expose env m q ks) p k \<longleftrightarrow> p = q \<and> k \<in> set ks \<or> may m p k"
  using allows_step [OF core_wf, of m "Expose q ks" p k]
  by (auto simp: d_expose_def grants_access_def revokes_access_def redeems_def)

lemma may_exposes:
  "pm_wf m \<Longrightarrow> may (fold (\<lambda>q m. d_expose env m q ks) qs m) p k \<longleftrightarrow> p \<in> set qs \<and> k \<in> set ks \<or> may m p k"
  by (induction qs arbitrary: m) (auto simp: may_expose pm_wf_expose)

lemma may_unexpose:
  "pm_wf m \<Longrightarrow> may (d_unexpose env m q t) p k \<longleftrightarrow> may m p k \<and> \<not> (p = q \<and> (t = None \<or> t = Some k))"
  using allows_step [OF core_wf, of m "Unexpose q t" p k]
  by (auto simp: d_unexpose_def grants_access_def revokes_access_def redeems_def)

lemma grants_admit: "s_grants (snd (admit_known s k l adm)) = s_grants s"
  by (simp add: admit_known_def)

lemma grants_add_peer: "s_grants (pm_session (snd (add_peer m key name code))) = s_grants (pm_session m)"
  by (simp add: add_peer_def core_install grants_admit)

lemma grants_add_pinned: "s_grants (pm_session (snd (add_pinned env m key name))) = s_grants (pm_session m)"
  by (simp add: add_pinned_def core_install grants_admit split: option.splits)

lemma grants_pin_peer: "s_grants (pm_session (snd (pin_peer env m key name))) = s_grants (pm_session m)"
  using grants_add_pinned [of env m key name] by (auto simp: pin_peer_def split: prod.splits sum.splits)

lemma may_startup:
  assumes "pm_wf m"
  shows "may (run_startup env m accept ports) p k \<longleftrightarrow>
    p \<in> set ports \<and> k \<in> handle_key ` set (parsed_handles env accept) \<or> may m p k"
proof -
  have "s_grants (pm_session (fold (\<lambda>h m. snd (add_peer m (handle_key h) None (handle_code h))) hs m)) =
      s_grants (pm_session m)" for hs m
    by (induction hs arbitrary: m) (simp_all add: grants_add_peer)
  then show ?thesis
    using may_exposes [OF assms, of env "map handle_key (parsed_handles env accept)" ports p k]
    by (simp add: run_startup_def Let_def may_exposes [OF assms])
qed

lemma may_invite:
  assumes "pm_wf m"
  shows "may (snd (d_invite env m key name ports rnd now)) p k \<longleftrightarrow>
    operator_grants env p k m (Request (ReqInvite key name ports) rnd now) \<or> may m p k"
proof (cases key)
  case None
  then show ?thesis by (simp add: d_invite_def mint_token_def split: prod.splits)
next
  case (Some s)
  obtain r m' where p: "pin_peer env m s name = (r, m')" by fastforce
  have "may m' p k = may m p k" "pm_wf m'"
    using grants_pin_peer [of env m s name] pm_wf_pin_peer [OF assms, of env s name] p by simp_all
  then show ?thesis
    using Some p by (cases r) (auto simp: d_invite_def may_exposes split: option.splits)
qed

lemma resolve_peer_known:
  assumes "resolve_peer env m r = Some q"
  shows "map_of (peers m) q \<noteq> None"
proof -
  have "fst ` set (peers m) = dom (map_of (peers m))" by (simp add: dom_map_of_conv_image_fst)
  moreover have "fst e \<in> fst ` set (peers m)" if "find P (peers m) = Some e" for P e
    using that by (auto simp: find_Some_iff)
  ultimately have "map_of (peers m) (fst e) \<noteq> None" if "find P (peers m) = Some e" for P e
    using that by blast
  then show ?thesis using assms by (auto simp: resolve_peer_def Let_def split: option.splits if_splits)
qed

lemma may_forget:
  assumes "pm_wf m"
  shows "may (snd (remove_peer env m r)) p k \<longleftrightarrow> may m p k \<and> resolve_peer env m r \<noteq> Some k"
proof (cases "resolve_peer env m r")
  case None
  then show ?thesis by (simp add: remove_peer_def)
next
  case (Some q)
  have "map_of (peers m) q \<noteq> None"
    using resolve_peer_known [OF Some] .
  moreover from this have "map_of (s_peers (pm_session m)) q \<noteq> None"
    using member_iff_admitted [OF assms, of q] by simp
  ultimately show ?thesis
    using Some allows_step [OF core_wf [OF assms], of "Evict q" p k]
    by (auto simp: remove_peer_def session_evict_peer grants_access_def revokes_access_def redeems_def)
qed

lemma may_request:
  assumes "pm_wf m"
  shows "may (snd (handle_request env m r rnd now)) p k \<longleftrightarrow>
    operator_grants env p k m (Request r rnd now) \<or>
    may m p k \<and> \<not> operator_revokes env p k m (Request r rnd now)"
proof (cases r)
  case (ReqUnexpose q t)
  then show ?thesis using may_unexpose [OF assms] by (cases t) (auto split: sum.splits)
next
  case (ReqAccept h n)
  then show ?thesis by (simp add: d_accept_def grants_add_peer split: sum.splits)
qed (use assms in \<open>auto simp: may_invite may_forget may_expose core_project core_unproject split: sum.splits option.splits\<close>)

lemma may_enrollment:
  assumes "pm_wf m"
  shows "may (handle_enrollment env m i stream now) p k \<longleftrightarrow>
    code_grants env p k m (EnrollmentStream i stream now) \<or> may m p k"
proof -
  have ends: "s_grants (pm_session (enrollment_ends env m i)) = s_grants (pm_session m)"
    by (auto simp: enrollment_ends_def on_enroll_timeout_def split: option.splits prod.splits)
  show ?thesis
  proof (cases stream)
    case None
    then show ?thesis by (simp add: handle_enrollment_def ends)
  next
    case (Some data)
    have "may (enrollment_stream env m i data now) p k \<longleftrightarrow>
        code_grants env p k m (EnrollmentStream i (Some data) now) \<or> may m p k" if "length data \<le> READ_LIMIT"
    proof (cases "map_of (enrolling m) i")
      case None
      then show ?thesis by (simp add: enrollment_stream_def)
    next
      case en: (Some en)
      show ?thesis
      proof (cases "e_decode env data")
        case None
        then show ?thesis using en by (simp add: enrollment_stream_def)
      next
        case msg: (Some msg)
        let ?e = "Unadmitted i (c_remote (conns m ! en_conn en)) msg now"
        have "pm_session (enrollment_stream env m i data now) = next_session (pm_session m) ?e"
          using en msg by (simp add: enrollment_stream_def Let_def split: prod.splits)
        then show ?thesis
          using allows_step [OF core_wf [OF assms], of ?e p k] en msg that
          by (cases msg) (auto simp: grants_access_def revokes_access_def redeems_def split: option.splits)
      qed
    qed
    then show ?thesis using Some by (simp add: handle_enrollment_def ends)
  qed
qed

lemma may_step:
  assumes "pm_wf m"
  shows "may (daemon_step env m e) p k \<longleftrightarrow>
    daemon_grants env p k m e \<or> may m p k \<and> \<not> operator_revokes env p k m e"
proof (cases e)
  case (Startup accept ports)
  then show ?thesis using may_startup [OF assms] by (simp add: daemon_grants_def)
next
  case (Request r rnd now)
  then show ?thesis using may_request [OF assms] by (simp add: daemon_grants_def)
next
  case (EnrollmentStream i stream now)
  then show ?thesis using may_enrollment [OF assms] by (simp add: daemon_grants_def)
next
  case (Incoming k' opens)
  have "s_grants (pm_session (handle_connection env m' c)) = s_grants (pm_session m')" for m' c
    by (auto simp: handle_connection_def Let_def on_inbound_def install_connection_def split: prod.splits option.splits)
  then show ?thesis using Incoming by (simp add: daemon_grants_def new_conn_last)
next
  case (Dialed a opens)
  then show ?thesis by (simp add: daemon_grants_def core_dialed new_conn_last)
qed (simp_all add: daemon_grants_def core_handle_uni start_running_def send_version_def clear_notify_def)

interpretation port: latch "daemon_step env" "pm_new me h session_new pf sf ns name" pm_wf
  "\<lambda>m. may m p k" "daemon_grants env p k" "operator_revokes env p k" for env me h pf sf ns name p k
  by unfold_locales (auto simp: pm_new_def session_new_def allows_default may_step)

end
