(* ===== verification/Peer_Props.thy ===== *)
theory Peer_Props
  imports Peer_Loop Plain_Codec
begin

text \<open>
  The properties of the peer manager and of the task that keeps a peer connected. The witnesses run
  on \<open>plain_env\<close>, a Linux machine on which system calls succeed, with the hexadecimal key text and
  the plain codecs.
\<close>

subsection \<open>A concrete environment\<close>

definition plain_env :: env where
  "plain_env =
     \<lparr>e_os = Linux, e_exec = (\<lambda>_ _ _. Exited True []), e_bind = (\<lambda>_ _ _. True),
      e_show_key = hex_show, e_parse_key = hex_parse, e_pins = pin_codec, e_surfaces = surface_codec,
      e_encode = encode_message, e_decode = decode_message\<rparr>"

definition plain_pm :: pm where
  "plain_pm = pm_new (EndpointId [1]) localhost session_new (new_file ''key.peers.json'')
     (new_file ''key.surfaces.json'') None None"

lemma plain_env_simps [simp]:
  "e_os plain_env = Linux" "e_exec plain_env = (\<lambda>_ _ _. Exited True [])" "e_bind plain_env = (\<lambda>_ _ _. True)"
  "e_show_key plain_env = hex_show" "e_parse_key plain_env = hex_parse" "e_pins plain_env = pin_codec"
  "e_surfaces plain_env = surface_codec" "e_encode plain_env = encode_message"
  "e_decode plain_env = decode_message"
  by (simp_all add: plain_env_def)

lemma plain_binds: "binds_in_time plain_env"
  by (auto simp: binds_in_time_def BIND_ATTEMPTS_def intro: exI [of _ 0])

lemma plain_pm_wf: "pm_wf plain_pm"
  by (simp add: plain_pm_def pm_wf_but_def pm_new_def map_wf_def session_wf_new) (simp add: session_new_def)

text \<open>The manager with one peer, added by key under a name.\<close>

definition one_peer :: pm where
  "one_peer = snd (add_peer plain_pm (EndpointId [7]) (Some ''box'') None)"

lemma one_peer_wf: "pm_wf one_peer"
  unfolding one_peer_def by (rule pm_wf_add_peer [OF plain_pm_wf])

lemma one_peer_at:
  "peers one_peer = [(EndpointId [7], 0)]" "heap one_peer = [peer_new (EndpointId [7]) (Some ''box'') True None None]"
  by (simp_all add: one_peer_def add_peer_def plain_pm_def pm_new_def install_peer_def)

subsection \<open>Announced ports\<close>

lemma update_ports_complete:
  assumes a: "a < length (heap m)" and wf: "peer_wf (on_tun m) (heap m ! a)" and ok: "binds_in_time env"
  shows "p_exposed_ports (heap (update_peer_ports env m a ports) ! a) = ports \<and>
    (p_surface (heap (update_peer_ports env m a ports) ! a) \<noteq> None \<longrightarrow>
       set ports \<subseteq> set (keys (p_bindings (heap (update_peer_ports env m a ports) ! a))))"
proof -
  obtain r m2 where st: "a < length (heap m2)" "on_tun m2 = on_tun m"
    "update_peer_ports env m a ports =
       set_peer (case r of None \<Rightarrow> m2 | Some ip \<Rightarrow> bind_missing env a ip ports m2) a
         (\<lambda>p. p\<lparr>p_exposed_ports := ports\<rparr>)"
    and c: "case r of
       None \<Rightarrow> p_surface (heap m ! a) = None \<and> heap m2 ! a = (heap m ! a)\<lparr>p_bindings :=
         unbind (filter (\<lambda>x. x \<notin> set ports) (p_exposed_ports (heap m ! a))) (p_bindings (heap m ! a))\<rparr>
     | Some ip \<Rightarrow> \<exists>s. sf_ip s = ip \<and> heap m2 ! a = (heap m ! a)\<lparr>p_bindings :=
         unbind (filter (\<lambda>x. x \<notin> set ports) (p_exposed_ports (heap m ! a))) (p_bindings (heap m ! a)),
         p_surface := Some s\<rparr> \<and> (p_surface (heap m ! a) = None \<or> p_surface (heap m ! a) = Some s)"
    by (rule update_ports_stages [OF a])
  have len: "a < length (heap (bind_missing env a ip ports m2))" for ip
    using st(1) touches_keeps(11) [OF touches_bind_missing] by simp
  show ?thesis
  proof (cases r)
    case None
    then show ?thesis using st c by (simp add: set_peer_nth)
  next
    case (Some ip)
    then show ?thesis
      using st(3) len bind_missing_binds [OF ok st(1), of ports ip] by (simp add: set_peer_nth)
  qed
qed

subsection \<open>Evicting\<close>

lemma close_conn_reason:
  "c < length (conns m) \<Longrightarrow> c_close_reason (conns (close_conn m c r) ! c) \<noteq> None"
  by (simp add: close_conn_def split: option.splits)

lemma conns_touching: "touches a m m' \<Longrightarrow> conns m' = conns m"
  by (rule touches_keeps(2))

lemma evict_object_peer:
  assumes wf: "pm_wf m" and k: "map_of (peers m) key = Some a"
  shows "p_removed (heap (evict_object env m key r) ! a) \<and> p_conn_notify (heap (evict_object env m key r) ! a) \<and>
    p_connection (heap (evict_object env m key r) ! a) = None \<and>
    p_surface (heap (evict_object env m key r) ! a) = None \<and>
    p_bindings (heap (evict_object env m key r) ! a) = [] \<and>
    length (heap (evict_object env m key r)) = length (heap m) \<and>
    (\<forall>b. b \<noteq> a \<longrightarrow> heap (evict_object env m key r) ! b = heap m ! b) \<and>
    peers (evict_object env m key r) = AList.delete key (peers m) \<and>
    conns (evict_object env m key r) =
      (case p_connection (heap m ! a) of None \<Rightarrow> conns m | Some c \<Rightarrow> conns (close_conn m c r))"
proof -
  let ?m1 = "set_peer (m\<lparr>peers := AList.delete key (peers m)\<rparr>) a (\<lambda>p. p\<lparr>p_removed := True, p_conn_notify := True\<rparr>)"
  let ?m2 = "take_connection ?m1 a r"
  let ?m3 = "release_all ?m2 a"
  have a: "a < length (heap m)" using pm_wfD(6) [OF wf k] .
  have e: "evict_object env m key r = drop_surface env ?m3 a" by (simp add: evict_object_def k Let_def)
  have p1: "heap ?m1 ! a = (heap m ! a)\<lparr>p_removed := True, p_conn_notify := True\<rparr>"
    using a by (simp add: set_peer_nth)
  have l2: "length (heap ?m2) = length (heap m)" "peers ?m2 = AList.delete key (peers m)"
    by (simp_all add: take_connection_def close_conn_def set_peer_def split: option.splits)
  have p2: "heap ?m2 ! a = (heap m ! a)\<lparr>p_removed := True, p_conn_notify := True, p_connection := None\<rparr>"
    using a p1 by (auto simp: take_connection_def close_conn_def set_peer_nth split: option.splits)
      (auto simp: set_peer_def)
  have o2: "heap ?m2 ! b = heap m ! b" if "b \<noteq> a" for b
    using that by (simp add: take_connection_def close_conn_def set_peer_nth split: option.splits)
  have c2: "conns ?m2 = (case p_connection (heap m ! a) of None \<Rightarrow> conns m | Some c \<Rightarrow> conns (close_conn m c r))"
    using p1 by (auto simp: take_connection_def close_conn_def split: option.splits) (simp_all add: set_peer_def)
  have t3: "touches a ?m2 ?m3" by (rule touches_release_all)
  have p3: "heap ?m3 ! a = (heap ?m2 ! a)\<lparr>p_bindings := []\<rparr>" using peer_release_all [of a ?m2] a l2 by simp
  have t4: "touches a ?m3 (drop_surface env ?m3 a)" by (rule touches_drop_surface)
  have l3: "length (heap ?m3) = length (heap m)" using touches_keeps(11) [OF t3] l2 by simp
  have p4: "p_surface (heap (drop_surface env ?m3 a) ! a) = None \<and> p_bindings (heap (drop_surface env ?m3 a) ! a) = []"
    using a l3 p3 by (auto simp: drop_surface_def unclaim_addr_heap set_peer_nth split: option.splits)
  show ?thesis
    unfolding e using p4 p2 p3 o2 l2 l3 c2 touches_keeps [OF t3] touches_keeps [OF t4]
      touches_keeps_peer [OF t4, of a] by (auto simp: peer_kept_def)
qed

lemma evict_peer_fields:
  "heap (evict_peer env m key r) = heap (evict_object env m key r)"
  "peers (evict_peer env m key r) = peers (evict_object env m key r)"
  "conns (evict_peer env m key r) = conns (evict_object env m key r)"
  "pins_file (evict_peer env m key r) =
     pins_file (fold (drop_pin env) (fst (evict (pm_session m) key)) (evict_object env m key r))"
  "surfaces_file (evict_peer env m key r) =
     snd (surfaces_remove (e_surfaces env) (surfaces_file (evict_object env m key r)) (e_show_key env key))"
proof -
  let ?m = "evict_object env m key r"
  obtain acts s where e: "evict (pm_session m) key = (acts, s)" by fastforce
  obtain f where f: "fold (drop_pin env) acts (?m\<lparr>pm_session := s\<rparr>) = (?m\<lparr>pm_session := s\<rparr>)\<lparr>pins_file := f\<rparr>"
    using drop_pins_fields by blast
  have "drop_pin env act (m\<lparr>pm_session := s\<rparr>) = (drop_pin env act m)\<lparr>pm_session := s\<rparr>" for act m
    by (cases act) (simp_all add: drop_pin_def)
  then have "fold (drop_pin env) acts (m\<lparr>pm_session := s\<rparr>) = (fold (drop_pin env) acts m)\<lparr>pm_session := s\<rparr>" for m
    by (induction acts arbitrary: m) simp_all
  then have "pins_file (fold (drop_pin env) acts (?m\<lparr>pm_session := s\<rparr>)) = pins_file (fold (drop_pin env) acts ?m)"
    by simp
  then show "pins_file (evict_peer env m key r) = pins_file (fold (drop_pin env) (fst (evict (pm_session m) key)) ?m)"
    by (simp add: evict_peer_def session_evict_object e Let_def)
  show "heap (evict_peer env m key r) = heap ?m" "peers (evict_peer env m key r) = peers ?m"
    "conns (evict_peer env m key r) = conns ?m"
    "surfaces_file (evict_peer env m key r) =
       snd (surfaces_remove (e_surfaces env) (surfaces_file ?m) (e_show_key env key))"
    using f by (simp_all add: evict_peer_def session_evict_object e Let_def)
qed

subsection \<open>Properties: ports and surfaces\<close>

lemma update_ports_exact:
  assumes "a < length (heap m)" and "peer_wf (on_tun m) (heap m ! a)" and "binds_in_time env"
  shows "\<exists>p. p = heap (update_peer_ports env m a ports) ! a \<and> p_exposed_ports p = ports \<and>
    (case p_surface p of
       None \<Rightarrow> p_bindings p = []
     | Some s \<Rightarrow> set (keys (p_bindings p)) = set ports \<and>
         (\<forall>e \<in> set (p_bindings p). binding_at (on_tun m) (sf_ip s) (snd e)))"
proof -
  let ?p = "heap (update_peer_ports env m a ports) ! a"
  have c: "p_exposed_ports ?p = ports" "p_surface ?p \<noteq> None \<longrightarrow> set ports \<subseteq> set (keys (p_bindings ?p))"
    using update_ports_complete [OF assms] by auto
  have wf: "bound_at_surface (on_tun m) ?p" "set (keys (p_bindings ?p)) \<subseteq> set ports"
    using update_ports_wf [OF assms(1,2), of env ports] c(1) by (auto simp: peer_wf_def)
  show ?thesis
  proof (cases "p_surface ?p")
    case None
    then show ?thesis using c bound_at_no_surface [OF wf(1) None] by simp
  next
    case (Some s)
    have "\<forall>e \<in> set (p_bindings ?p). binding_at (on_tun m) (sf_ip s) (snd e)"
      using wf(1) Some unfolding bound_at_surface_def by simp
    then show ?thesis using c wf(2) Some by auto
  qed
qed

text \<open>Bindings follow the announcement. After a peer announces a list of ports, that list is
  recorded, every listener of the peer is for an announced port and sits at the peer's surface, and
  when binding fails at most four times in a row every announced port is bound, unless the peer got
  no surface, in which case nothing is.\<close>

theorem announcement_binds_exactly:
  assumes "a < length (heap m)" and "peer_wf (on_tun m) (heap m ! a)" and "binds_in_time env"
  shows "\<exists>p. p = heap (update_peer_ports env m a ports) ! a \<and> p_exposed_ports p = ports \<and>
    (case p_surface p of
       None \<Rightarrow> p_bindings p = []
     | Some s \<Rightarrow> set (keys (p_bindings p)) = set ports \<and>
         (\<forall>e \<in> set (p_bindings p). binding_at (on_tun m) (sf_ip s) (snd e)))"
  by (rule update_ports_exact [OF assms])

theorem announcement_binds_exactly_witness:
  "p_exposed_ports (heap (update_peer_ports plain_env one_peer 0 [80, 443]) ! 0) = [80, 443]"
proof -
  have "0 < length (heap one_peer)" by (simp add: one_peer_at)
  then show ?thesis
    using announcement_binds_exactly [of 0 one_peer plain_env "[80, 443]"] plain_binds
      pm_wfD(4) [OF one_peer_wf] by auto
qed

text \<open>C23: an automatic surface never contends. When an announcement gives a peer its first
  surface, the address is one no projected peer has, in the range of the backend from host 2 to
  254, and the name is the label of the peer or the short form of its key.\<close>

theorem auto_projection_is_fresh:
  assumes "surface_ip env m a ports = (Some ip, m')" and "p_surface (heap m ! a) = None"
    and "a < length (heap m)"
  shows "ip \<notin> set (projected_ips m) \<and> ports \<noteq> [] \<and>
    (\<exists>host. 2 \<le> host \<and> host < 255 \<and> ip = host_addr (surface_base m) host) \<and>
    p_surface (heap m' ! a) = Some \<lparr>sf_ip = ip, sf_name = Some (case p_label (heap m ! a) of
      Some l \<Rightarrow> l | None \<Rightarrow> default_name (e_show_key env) (p_endpoint_id (heap m ! a)))\<rparr>"
proof -
  have ports: "ports \<noteq> []" using assms(1,2) by (auto simp: surface_ip_def)
  obtain addr where al: "allocate (projected_ips m) (surface_base m) = Inr addr"
    using assms(1,2) ports by (cases "allocate (projected_ips m) (surface_base m)") (auto simp: surface_ip_def)
  obtain name where n: "name = Some (case p_label (heap m ! a) of Some l \<Rightarrow> l
      | None \<Rightarrow> default_name (e_show_key env) (p_endpoint_id (heap m ! a)))" by blast
  obtain c m1 where c: "claim_addr env m addr name = (c, m1)" by fastforce
  have h: "heap m1 = heap m" using claim_addr_heap [of env m addr name] c by simp
  have ip: "ip = addr \<and> m' = persist_surface env
      (set_peer m1 a (\<lambda>p. p\<lparr>p_surface := Some \<lparr>sf_ip = addr, sf_name = name\<rparr>\<rparr>)) (p_endpoint_id (heap m ! a)) addr name"
    using assms(1,2) ports al c n by (cases c) (auto simp: surface_ip_def Let_def)
  then have "p_surface (heap m' ! a) = Some \<lparr>sf_ip = ip, sf_name = name\<rparr>"
    using h assms(3) by (simp add: persist_surface_def set_peer_nth)
  moreover have "ip \<notin> set (projected_ips m)" "\<exists>host. 2 \<le> host \<and> host < 255 \<and> ip = host_addr (surface_base m) host"
    using al ip unfolding allocate_ok_iff by blast+
  ultimately show ?thesis using ports n by blast
qed

lemma first_loopback_host:
  assumes "host_addr LOOPBACK_BASE 2 \<notin> set taken"
  shows "allocate taken LOOPBACK_BASE = Inr (host_addr LOOPBACK_BASE 2)"
  unfolding allocate_ok_iff by (rule exI [of _ 2]) (use assms in auto)

theorem auto_projection_is_fresh_witness:
  "\<exists>m'. surface_ip plain_env one_peer 0 [80] = (Some (host_addr LOOPBACK_BASE 2), m') \<and>
     host_addr LOOPBACK_BASE 2 \<notin> set (projected_ips one_peer)"
proof -
  have s: "p_surface (heap one_peer ! 0) = None" "pm_netstack one_peer = None" "projected_ips one_peer = []"
    by (simp_all add: one_peer_at peer_new_def projected_ips_def)
      (simp add: one_peer_def add_peer_def plain_pm_def pm_new_def install_peer_def)
  have al: "allocate (projected_ips one_peer) (surface_base one_peer) = Inr (host_addr LOOPBACK_BASE 2)"
    using first_loopback_host [of "[]"] s by (simp add: surface_base_def)
  have "claim_addr plain_env one_peer ip name = (Inr (), one_peer\<lparr>calls := calls one_peer + 1\<rparr>)" for ip name
    using s by (simp add: claim_addr_def ensure_addr_def)
  then obtain m' where m': "surface_ip plain_env one_peer 0 [80] = (Some (host_addr LOOPBACK_BASE 2), m')"
    using s(1) al by (simp add: surface_ip_def Let_def)
  have "0 < length (heap one_peer)" by (simp add: one_peer_at)
  then show ?thesis using auto_projection_is_fresh [OF m' s(1)] m' by blast
qed

text \<open>C35: projecting moves a peer. When an explicit projection succeeds, the surface is exactly the
  address asked for, whether or not another peer has it, under the name given or else the label;
  no listener of the old address is left, the new ones are for announced ports at the new address,
  all of them when binding succeeds in time; every other peer, the connections and the core are
  untouched.\<close>

theorem project_moves_surface:
  assumes "pm_wf m" and "resolve_peer env m peer_ref = Some k" and "map_of (peers m) k = Some a"
    and "project env m peer_ref (Some ip) name = (Inr (), m')"
  shows "p_surface (heap m' ! a) =
      Some \<lparr>sf_ip = ip, sf_name = (case name of Some n \<Rightarrow> Some n | None \<Rightarrow> p_label (heap m ! a))\<rparr> \<and>
    (\<forall>e \<in> set (p_bindings (heap m' ! a)). binding_at (on_tun m) ip (snd e)) \<and>
    set (keys (p_bindings (heap m' ! a))) \<subseteq> set (p_exposed_ports (heap m ! a)) \<and>
    (binds_in_time env \<longrightarrow> set (keys (p_bindings (heap m' ! a))) = set (p_exposed_ports (heap m ! a))) \<and>
    (\<forall>b. b \<noteq> a \<longrightarrow> heap m' ! b = heap m ! b) \<and> conns m' = conns m \<and> pm_session m' = pm_session m"
proof -
  let ?m = "teardown_surface env m a"
  let ?name = "case name of Some n \<Rightarrow> Some n | None \<Rightarrow> p_label (heap m ! a)"
  have a: "a < length (heap m)" using pm_wfD(6) [OF assms(1,3)] .
  have t: "touches a m ?m" by (rule touches_teardown)
  have p: "heap ?m ! a = (heap m ! a)\<lparr>p_surface := None, p_bindings := []\<rparr>"
    by (rule teardown_peer [OF assms(1) a])
  have la: "a < length (heap ?m)" using touches_keeps(11) [OF t] a by simp
  have pl: "place_surface env ?m k a ip ?name = (Inr (), m')"
    using assms(2-4) p by (cases name) (simp_all add: project_def Let_def)
  have t': "touches a m m'" using touches_trans [OF t] touches_place [of a ?m env k ip ?name] pl by simp
  have tun: "on_tun ?m = on_tun m" using touches_keeps(12) [OF t] by simp
  obtain bs where bs: "heap m' ! a = (heap ?m ! a)\<lparr>p_surface := Some \<lparr>sf_ip = ip, sf_name = ?name\<rparr>, p_bindings := bs\<rparr>"
    "set (keys bs) \<subseteq> set (p_exposed_ports (heap ?m ! a))" "\<forall>e \<in> set bs. binding_at (on_tun m) ip (snd e)"
    "binds_in_time env \<longrightarrow> set (keys bs) = set (p_exposed_ports (heap ?m ! a))"
    using place_surface_peer [OF la _ pl] p tun by auto
  then show ?thesis using p touches_keeps(2,4,13) [OF t'] by simp
qed

theorem project_moves_surface_witness:
  "\<exists>m'. project plain_env one_peer ''box'' (Some (V4 (Ipv4 127 0 1 9))) None = (Inr (), m') \<and>
     p_surface (heap m' ! 0) = Some \<lparr>sf_ip = V4 (Ipv4 127 0 1 9), sf_name = Some ''box''\<rparr>"
proof -
  have r: "resolve_peer plain_env one_peer ''box'' = Some (EndpointId [7])"
    by (simp add: resolve_peer_def one_peer_at peer_new_def Let_def)
  have k: "map_of (peers one_peer) (EndpointId [7]) = Some 0" by (simp add: one_peer_at)
  have n: "pm_netstack one_peer = None"
    by (simp add: one_peer_def add_peer_def plain_pm_def pm_new_def install_peer_def)
  have "fst (project plain_env one_peer ''box'' (Some (V4 (Ipv4 127 0 1 9))) None) = Inr ()"
    by (simp add: project_def r k Let_def teardown_surface_def one_peer_at peer_new_def place_surface_def
        claim_addr_def n ensure_addr_def)
  then obtain m' where m': "project plain_env one_peer ''box'' (Some (V4 (Ipv4 127 0 1 9))) None = (Inr (), m')"
    by (metis prod.collapse)
  have "p_label (heap one_peer ! 0) = Some ''box''" by (simp add: one_peer_at peer_new_def)
  then show ?thesis
    using project_moves_surface [OF one_peer_wf r k m'] m' by simp
qed

end
