(* ===== verification/Peer_Life.thy ===== *)
theory Peer_Life
  imports Peer_Props Session_Props
begin

text \<open>
  The life of a peer: the connection that is kept, the tunnels that are served, what forgetting
  leaves behind, and the task that keeps dialing.
\<close>

subsection \<open>Files under an eviction\<close>

lemma surfaces_file_fold:
  "(\<And>x m. surfaces_file (f x m) = surfaces_file m) \<Longrightarrow> surfaces_file (fold f xs m) = surfaces_file m"
  by (induction xs arbitrary: m) auto

lemma surfaces_file_release: "surfaces_file (release_binding m a port) = surfaces_file m"
  by (simp add: release_binding_def Let_def set_peer_def split: option.splits ip_addr.splits)

lemma surfaces_file_evict: "surfaces_file (evict_object env m key r) = surfaces_file m"
proof -
  have "surfaces_file (release_all m a) = surfaces_file m" for m a
    unfolding release_all_def by (rule surfaces_file_fold) (rule surfaces_file_release)
  moreover have "surfaces_file (drop_surface env m a) = surfaces_file m" for m a
    by (simp add: drop_surface_def unclaim_addr_def set_peer_def split: option.splits ip_addr.splits)
  moreover have "surfaces_file (take_connection m a r) = surfaces_file m" for m a
    by (simp add: take_connection_def close_conn_def set_peer_def split: option.splits)
  ultimately show ?thesis
    by (simp add: evict_object_def Let_def set_peer_def split: option.splits)
qed

lemma pins_file_evict_object: "pins_file (evict_object env m key r) = pins_file m"
proof -
  have "pins_file (take_connection m a r) = pins_file m" for m a
    by (simp add: take_connection_def close_conn_def set_peer_def split: option.splits)
  then show ?thesis
    by (simp add: evict_object_def Let_def set_peer_def touches_keeps(7) [OF touches_drop_surface]
        touches_keeps(7) [OF touches_release_all] split: option.splits)
qed

lemma evict_admitted:
  assumes "session_wf s" "map_of (s_peers s) k \<noteq> None"
  shows "fst (evict s k) = [DropPin k]" "map_of (s_peers (snd (evict s k))) k = None"
    "\<not> allows (s_grants (snd (evict s k))) p k"
    "j \<noteq> k \<Longrightarrow> map_of (s_peers (snd (evict s k))) j = map_of (s_peers s) j"
    "j \<noteq> k \<Longrightarrow> allows (s_grants (snd (evict s k))) p j = allows (s_grants s) p j"
  using assms by (auto simp: evict_def session_wf_def btree_specs allows_revoke)

subsection \<open>Properties: forgetting\<close>

text \<open>C16: forgetting a peer tears down all of it. When the request succeeds, the peer is gone from
  the map and the core, no tunnel is served to its key, its object has no connection, no surface
  and no listener, the connection it had is closed, and neither the pin nor the surface file has an
  entry of its key any more; every other peer keeps its object, its place, its admission and its
  grants, and every other file entry stays.\<close>

theorem forget_tears_down:
  assumes wf: "pm_wf m" and ok: "remove_peer env m peer_ref = (Inr (), m')"
    and pins: "codec_ok (e_pins env)" "file_usable (pins_file m)" "pins_load (e_pins env) (pins_file m) = Inr ps"
    and surfs: "codec_ok (e_surfaces env)" "file_usable (surfaces_file m)"
      "surfaces_load (e_surfaces env) (surfaces_file m) = Inr rs"
  shows "\<exists>k a. resolve_peer env m peer_ref = Some k \<and> map_of (peers m) k = Some a \<and>
    map_of (peers m') k = None \<and> admission_of (pm_session m') k = None \<and>
    (\<forall>port. on_tunnel (pm_session m') k port = RejectTunnel NotGranted) \<and>
    p_connection (heap m' ! a) = None \<and> p_surface (heap m' ! a) = None \<and> p_bindings (heap m' ! a) = [] \<and>
    (\<forall>c. p_connection (heap m ! a) = Some c \<longrightarrow> c_close_reason (conns m' ! c) \<noteq> None) \<and>
    pins_load (e_pins env) (pins_file m') = Inr (filter (\<lambda>p. pin_key p \<noteq> e_show_key env k) ps) \<and>
    surfaces_load (e_surfaces env) (surfaces_file m') = Inr (filter (\<lambda>r. sr_key r \<noteq> e_show_key env k) rs) \<and>
    (\<forall>b. b \<noteq> a \<longrightarrow> heap m' ! b = heap m ! b) \<and>
    (\<forall>j. j \<noteq> k \<longrightarrow> map_of (peers m') j = map_of (peers m) j \<and>
       admission_of (pm_session m') j = admission_of (pm_session m) j \<and>
       (\<forall>port. on_tunnel (pm_session m') j port = on_tunnel (pm_session m) j port))"
proof -
  obtain k a where k: "resolve_peer env m peer_ref = Some k" "map_of (peers m) k = Some a"
    "m' = evict_peer env m k ''removed''"
    using ok by (auto simp: remove_peer_def split: option.splits if_splits)
  have a: "a < length (heap m)" using pm_wfD(6) [OF wf k(2)] .
  have adm: "map_of (s_peers (pm_session m)) k \<noteq> None" using member_iff_admitted [OF wf, of k] k(2) by simp
  note ev = evict_admitted [OF pm_wfD(1) [OF wf] adm]
  note o = evict_object_peer [OF wf k(2), of env "''removed''"]
  have s': "pm_session m' = snd (evict (pm_session m) k)" using k(3) by (simp add: session_evict_peer)
  have "pins_file m' = snd (pins_remove (e_pins env) (pins_file m) (e_show_key env k))"
    using k(3) ev(1) by (simp add: evict_peer_fields(4) drop_pin_def pins_file_evict_object)
  then have pf: "pins_load (e_pins env) (pins_file m') = Inr (filter (\<lambda>p. pin_key p \<noteq> e_show_key env k) ps)"
    using pins.remove_loaded [OF pins] by simp
  have sf: "surfaces_load (e_surfaces env) (surfaces_file m') = Inr (filter (\<lambda>r. sr_key r \<noteq> e_show_key env k) rs)"
    using surfs.remove_loaded [OF surfs] k(3) by (simp add: evict_peer_fields(5) surfaces_file_evict)
  have closed: "c_close_reason (conns m' ! c) \<noteq> None" if "p_connection (heap m ! a) = Some c" for c
    using close_conn_reason [OF pm_wfD(5) [OF wf a that]] o that k(3) by (simp add: evict_peer_fields)
  have gone: "map_of (peers m') k = None" "j \<noteq> k \<Longrightarrow> map_of (peers m') j = map_of (peers m) j" for j
    using o k(3) by (simp_all add: evict_peer_fields delete_conv')
  show ?thesis
    using k o ev s' pf sf closed gone
    by (intro exI [of _ k] exI [of _ a]) (simp add: evict_peer_fields admission_of_def on_tunnel_def)
qed

lemma one_peer_files:
  "pins_file one_peer = new_file ''key.peers.json''" "surfaces_file one_peer = new_file ''key.surfaces.json''"
  by (simp_all add: one_peer_def add_peer_def plain_pm_def pm_new_def install_peer_def)

lemma one_peer_resolves: "resolve_peer plain_env one_peer ''box'' = Some (EndpointId [7])"
  by (simp add: resolve_peer_def one_peer_at peer_new_def Let_def)

theorem forget_tears_down_witness:
  "\<exists>m'. remove_peer plain_env one_peer ''box'' = (Inr (), m') \<and> map_of (peers m') (EndpointId [7]) = None \<and>
     admission_of (pm_session m') (EndpointId [7]) = None"
proof -
  have r: "remove_peer plain_env one_peer ''box'' = (Inr (), evict_peer plain_env one_peer (EndpointId [7]) ''removed'')"
    by (simp add: remove_peer_def one_peer_resolves one_peer_at)
  have "\<exists>k a. resolve_peer plain_env one_peer ''box'' = Some k \<and> map_of (peers one_peer) k = Some a \<and>
      map_of (peers (evict_peer plain_env one_peer (EndpointId [7]) ''removed'')) k = None \<and>
      admission_of (pm_session (evict_peer plain_env one_peer (EndpointId [7]) ''removed'')) k = None"
    using forget_tears_down [OF one_peer_wf r, of "[]" "[]"]
    by (simp add: one_peer_files pin_codec_ok surface_codec_ok pins.load_absent surfs.load_absent) blast
  then show ?thesis using r one_peer_resolves by simp
qed

subsection \<open>Properties: tunnels\<close>

text \<open>A tunnel reaches the port that was asked for, if and only if it is granted. What the
  opener writes first is what the server reads: it forwards the rest of the stream to that port on
  its host when the core grants the port to the peer's key and the service answers, reports the
  failed connect when it does not, and forwards nothing otherwise.\<close>

lemma served_port:
  "handle_bi_stream connects m a (tunnel_preamble port @ data) =
     (if allows (s_grants (pm_session m)) port (p_endpoint_id (heap m ! a)) then
        (if connects (host m) port then Inr (Tunneled (Forwarding (host m) port data))
         else Inl (FailedToConnect (host m) port))
      else Inr Declined)"
proof -
  obtain hi lo where "read_exact2 (tunnel_preamble port @ data) = Some (hi, lo, data)" "u16_from_be hi lo = port"
    using read_preamble [of port data] by blast
  then show ?thesis by (simp add: handle_bi_stream_def on_tunnel_def handle_tunnel_def)
qed

subsection \<open>Properties: connections\<close>

abbreviation live :: "pm \<Rightarrow> nat \<Rightarrow> bool" where
  "live m c \<equiv> c_close_reason (conns m ! c) = None"

lemma live_send_to: "c_close_reason (conns (send_to env m a msg) ! d) = c_close_reason (conns m ! d)"
proof -
  have "c_close_reason (conns (snd (send_message env m c msg)) ! d) = c_close_reason (conns m ! d)" for c
    by (cases "c < length (conns m)"; cases "d = c")
      (simp_all add: send_message_def list_update_beyond not_less split: option.splits)
  then show ?thesis by (simp add: send_to_def split: option.splits)
qed

lemma live_close_other: "d \<noteq> c \<Longrightarrow> c_close_reason (conns (close_conn m c r) ! d) = c_close_reason (conns m ! d)"
  by (simp add: close_conn_def)

lemma install_connection_at:
  assumes "a < length (heap m)" "p_connection (heap m ! a) \<noteq> Some c"
    "\<And>h. p_connection (heap m ! a) = Some h \<Longrightarrow> h < length (conns m)"
  shows "heap (install_connection m a c u) ! a = (heap m ! a)\<lparr>p_conn_dialed_by_us := u, p_connection := Some c\<rparr>"
    "c_close_reason (conns (install_connection m a c u) ! c) = c_close_reason (conns m ! c)"
    "p_connection (heap m ! a) = Some h \<Longrightarrow> \<not> live (install_connection m a c u) h"
    "length (heap (install_connection m a c u)) = length (heap m)"
  using assms
proof -
  let ?m = "case p_connection (heap m ! a) of None \<Rightarrow> m | Some old \<Rightarrow> close_conn m old ''replaced''"
  have h: "heap ?m = heap m" by (simp split: option.splits)
  have i: "install_connection m a c u =
      set_peer ?m a (\<lambda>p. p\<lparr>p_conn_dialed_by_us := u, p_connection := Some c\<rparr>)"
    by (simp add: install_connection_def Let_def)
  have co: "conns (install_connection m a c u) = conns ?m" unfolding i by (simp add: set_peer_def)
  show "heap (install_connection m a c u) ! a = (heap m ! a)\<lparr>p_conn_dialed_by_us := u, p_connection := Some c\<rparr>"
    using assms(1) h unfolding i by (simp add: set_peer_nth)
  show "length (heap (install_connection m a c u)) = length (heap m)"
    using h unfolding i by (simp add: set_peer_def)
  show "c_close_reason (conns (install_connection m a c u) ! c) = c_close_reason (conns m ! c)"
    using assms(2) unfolding co by (auto simp: live_close_other split: option.splits)
  show "\<not> live (install_connection m a c u) h" if "p_connection (heap m ! a) = Some h"
    using that assms(3) close_conn_reason [of h m "''replaced''"] unfolding co by simp
qed

text \<open>C24: one connection per peer. When an admitted peer connects, then if we hold a live connection
  that we dialed and our key is the lower one, the newcomer is closed and the peer stays as it was;
  in every other case the newcomer becomes the peer's connection, the one held before is closed,
  and from then on we dial this peer as well.\<close>

theorem one_connection_survives:
  assumes wf: "pm_wf m" and c: "c < length (conns m)" "live m c" and k: "map_of (peers m) (c_remote (conns m ! c)) = Some a"
    and new: "p_connection (heap m ! a) \<noteq> Some c"
  shows "\<exists>m'. m' = handle_connection env m c \<and>
    (if held_is_live m a \<and> p_conn_dialed_by_us (heap m ! a) \<and> our_id m < c_remote (conns m ! c)
     then heap m' ! a = heap m ! a \<and> \<not> live m' c \<and> (\<forall>h. p_connection (heap m ! a) = Some h \<longrightarrow> live m' h)
     else p_connection (heap m' ! a) = Some c \<and> live m' c \<and>
       (\<forall>h. p_connection (heap m ! a) = Some h \<longrightarrow> \<not> live m' h) \<and>
       p_dial (heap m' ! a) \<and> p_conn_notify (heap m' ! a) \<and> \<not> p_conn_dialed_by_us (heap m' ! a))"
proof -
  let ?k = "c_remote (conns m ! c)"
  have a: "a < length (heap m)" using pm_wfD(6) [OF wf k] .
  have adm: "map_of (s_peers (pm_session m)) ?k \<noteq> None" using member_iff_admitted [OF wf, of ?k] k by simp
  let ?m = "m\<lparr>next_conn_id := next_conn_id m + 1, pm_session := pm_session m\<rparr>"
  have o: "on_inbound (pm_session m) (next_conn_id m) ?k =
      ([Admit (next_conn_id m) ?k True, announce (pm_session m) ?k], pm_session m)"
    using adm by (simp add: on_inbound_def)
  have held: "held_is_live ?m a = held_is_live m a" by (simp add: held_is_live_def split: option.splits)
  show ?thesis
  proof (cases "held_is_live m a \<and> p_conn_dialed_by_us (heap m ! a) \<and> our_id m < ?k")
    case True
    then have "handle_connection env m c = close_conn ?m c ''kept ours''"
      using k held by (simp add: handle_connection_def Let_def o resolve_held_iff)
    then show ?thesis
      using True close_conn_reason [of c ?m "''kept ours''"] c(1) new
      by (auto simp: held_is_live_def live_close_other split: option.splits)
  next
    case False
    let ?i = "install_connection ?m a c False"
    let ?s = "set_peer ?i a (\<lambda>p. p\<lparr>p_dial := True, p_conn_notify := True\<rparr>)"
    have "resolve (our_id m) ?k (held_is_live m a) (p_conn_dialed_by_us (heap m ! a)) False \<noteq> Held"
      using False by (auto simp: resolve_held_iff)
    then have e: "handle_connection env m c = send_to env ?s a (ExposedPorts (ports_for (s_grants (pm_session m)) ?k))"
      using k held by (simp add: handle_connection_def Let_def o apply_actions_def apply_action_def announce_def send_ports_def)
    have i: "heap ?i ! a = (heap m ! a)\<lparr>p_conn_dialed_by_us := False, p_connection := Some c\<rparr>"
      "live ?i c" "\<And>h. p_connection (heap m ! a) = Some h \<Longrightarrow> \<not> live ?i h" "length (heap ?i) = length (heap m)"
      using install_connection_at [of a ?m c] a c(2) new pm_wfD(5) [OF wf a] by simp_all
    have "heap ?s ! a = (heap ?i ! a)\<lparr>p_dial := True, p_conn_notify := True\<rparr>" "conns ?s = conns ?i"
      using i(4) a by (simp_all add: set_peer_nth) (simp add: set_peer_def)
    then show ?thesis using False i by (simp add: e live_send_to send_to_heap)
  qed
qed

definition called_peer :: pm where
  "called_peer = one_peer\<lparr>conns := [\<lparr>c_remote = EndpointId [7], c_close_reason = None, c_opens_streams = True, c_sent = []\<rparr>]\<rparr>"

lemma called_peer_wf: "pm_wf called_peer"
proof -
  have "object_wf called_peer (heap called_peer ! a)" if "a < length (heap called_peer)" for a
    using that by (simp add: called_peer_def one_peer_at object_wf_def peer_wf_new peer_new_def peer_wf_def)
  moreover have "enrolling called_peer = []"
    by (simp add: called_peer_def one_peer_def add_peer_def plain_pm_def pm_new_def install_peer_def)
  ultimately show ?thesis
    using one_peer_wf unfolding pm_wf_but_def by (simp add: map_wf_def) (simp add: called_peer_def)
qed

lemma called_peer_at:
  "conns called_peer = [\<lparr>c_remote = EndpointId [7], c_close_reason = None, c_opens_streams = True, c_sent = []\<rparr>]"
  "peers called_peer = [(EndpointId [7], 0)]" "heap called_peer = [peer_new (EndpointId [7]) (Some ''box'') True None None]"
  by (simp_all add: called_peer_def one_peer_at)

theorem one_connection_survives_witness:
  "p_connection (heap (handle_connection plain_env called_peer 0) ! 0) = Some 0"
  using one_connection_survives [OF called_peer_wf, of 0 0 plain_env]
  by (auto simp: called_peer_at peer_new_def held_is_live_def)

subsection \<open>Properties: the task of a peer\<close>

lemma send_message_peers: "peers (snd (send_message env m c msg)) = peers m"
  by (simp add: send_message_def split: option.splits)

lemma send_to_peers: "peers (send_to env m a msg) = peers m"
  by (simp add: send_to_def send_message_peers split: option.splits)

lemma dialed_peers: "peers (dialed env m a c) = peers m"
  by (simp add: dialed_def Let_def announce_to_def announce_def send_ports_def send_to_peers send_message_peers
      install_connection_def set_peer_def close_conn_def split: option.splits)

lemma loop_step_peers: "loop_step env a (m, l, b) (m', l', b') \<Longrightarrow> peers m' = peers m"
  by (cases rule: loop_step.cases)
    (auto simp: start_running_def send_version_def send_to_peers dialed_peers clear_notify_def set_peer_def)

lemma loop_step_ends: "loop_step env a (m, l, b) (m', Ended, b') \<Longrightarrow> p_removed (heap m ! a)"
  by (cases rule: loop_step.cases) (auto simp: without_connection_def split: if_splits)

lemma loop_step_delay:
  "loop_step env a (m, l, b) (m', l', b') \<Longrightarrow> next_delay b \<le> BACKOFF_MAX \<Longrightarrow> next_delay b' \<le> BACKOFF_MAX"
  by (cases rule: loop_step.cases) (auto simp: backoff_defs)

lemma loop_run_invariant:
  assumes "(loop_step env a)\<^sup>*\<^sup>* s t" "pm_wf (fst s)" "map_of (peers (fst s)) k = Some a"
    "fst (snd s) \<noteq> Ended" "next_delay (snd (snd s)) \<le> BACKOFF_MAX"
  shows "pm_wf (fst t) \<and> map_of (peers (fst t)) k = Some a \<and> fst (snd t) \<noteq> Ended \<and>
    next_delay (snd (snd t)) \<le> BACKOFF_MAX"
  using assms
proof (induction rule: rtranclp_induct)
  case (step t u)
  obtain m l b where t: "t = (m, l, b)" by (cases t) auto
  obtain m' l' b' where u: "u = (m', l', b')" by (cases u) auto
  have st: "loop_step env a (m, l, b) (m', l', b')" using step.hyps(2) t u by simp
  have ih: "pm_wf m" "map_of (peers m) k = Some a" "next_delay b \<le> BACKOFF_MAX" using step.IH step.prems t by auto
  have "l' \<noteq> Ended" using loop_step_ends [of env a m l b m' b'] st pm_wfD(8) [OF ih(1,2)] by blast
  then show ?case
    using loop_step_wf [OF st ih(1)] loop_step_peers [OF st] loop_step_delay [OF st ih(3)] ih(2) u by simp
qed simp

text \<open>C25: a peer is never given up. As long as a peer is in the map, its task, taken by itself and however its dials and
  connections turn out, does not end, never waits more than ten seconds before the next dial, and
  keeps the invariant; and outside a connection or a wait for the peer's call it can always go on.\<close>

theorem peer_never_abandoned:
  assumes "pm_wf m" and "map_of (peers m) k = Some a"
    and "(loop_step env a)\<^sup>*\<^sup>* (m, loop_start m a) (m', l, b)"
  shows "l \<noteq> Ended \<and> backoff_delay b \<le> secs 10 \<and> pm_wf m' \<and> map_of (peers m') k = Some a \<and>
    (l \<in> {AtTop, Sleeping, Dialing} \<longrightarrow> (\<exists>t. loop_step env a (m', l, b) t))"
proof -
  have "next_delay (snd (loop_start m a)) \<le> BACKOFF_MAX" "fst (loop_start m a) \<noteq> Ended"
    by (simp_all add: loop_start_def backoff_defs)
  then have i: "pm_wf m'" "map_of (peers m') k = Some a" "l \<noteq> Ended" "next_delay b \<le> BACKOFF_MAX"
    using loop_run_invariant [OF assms(3), of k] assms(1,2) by auto
  have "\<exists>t. loop_step env a (m', l, b) t" if "l \<in> {AtTop, Sleeping, Dialing}"
  proof (cases "l = AtTop")
    case True
    then show ?thesis
      by (cases "p_connection (heap m' ! a)") (auto intro: loop_step.run loop_step.no_connection)
  next
    case False
    then show ?thesis using that by (auto intro: loop_step.slept loop_step.dial_failed)
  qed
  with i show ?thesis by (simp add: backoff_delay_def BACKOFF_MAX_def)
qed

theorem peer_never_abandoned_witness:
  "(loop_step plain_env 0)\<^sup>*\<^sup>* (one_peer, loop_start one_peer 0) (one_peer, Sleeping, backoff_unreached) \<and>
   backoff_delay backoff_unreached \<le> secs 10 \<and> (\<exists>t. loop_step plain_env 0 (one_peer, Sleeping, backoff_unreached) t)"
proof -
  have k: "map_of (peers one_peer) (EndpointId [7]) = Some 0" by (simp add: one_peer_at)
  have "p_connection (heap one_peer ! 0) = None" "without_connection one_peer 0 = Sleeping"
    by (simp_all add: one_peer_at peer_new_def without_connection_def)
  then have "loop_step plain_env 0 (one_peer, loop_start one_peer 0) (one_peer, Sleeping, backoff_unreached)"
    using loop_step.no_connection [of one_peer 0 plain_env backoff_unreached] by (simp add: loop_start_def)
  then have r: "(loop_step plain_env 0)\<^sup>*\<^sup>* (one_peer, loop_start one_peer 0) (one_peer, Sleeping, backoff_unreached)"
    by (rule r_into_rtranclp)
  show ?thesis using peer_never_abandoned [OF one_peer_wf k r] r by simp
qed

lemma evict_keeps_closed:
  assumes "pm_wf m" "map_of (peers m) k = Some a" "\<not> live m c"
  shows "\<not> live (evict_peer env m k r) c"
proof -
  have "\<not> live (close_conn m d r) c" for d
    using assms(3) by (cases "d < length (conns m)"; cases "d = c")
      (auto simp: close_conn_def list_update_beyond not_less split: option.splits)
  then show ?thesis
    using evict_object_peer [OF assms(1,2), of env r] assms(3) by (simp add: evict_peer_fields split: option.splits)
qed

text \<open>From a state in which the object is marked, notified and without a connection.\<close>

lemma removed_step_ends:
  assumes a: "a < length (heap m)" and p: "p_removed (heap m ! a)" "p_connection (heap m ! a) = None"
    and l: "l \<noteq> Dialing" "l \<noteq> Ended" and step: "loop_step env a (m, l, b) (m2, l2, b2)"
  shows "l2 = Ended \<or> l2 = AtTop \<and> (\<forall>t. loop_step env a (m2, l2, b2) t \<longrightarrow> fst (snd t) = Ended)"
proof -
  have off: "without_connection m a = Ended" using p(1) by (simp add: without_connection_def)
  have top: "fst (snd t) = Ended" if "loop_step env a (clear_notify m a, AtTop, b') t" for t b'
  proof -
    have "p_removed (heap (clear_notify m a) ! a)" "p_connection (heap (clear_notify m a) ! a) = None"
      using p a by (simp_all add: clear_notify_def set_peer_nth)
    then show ?thesis using that by (auto elim!: top_stepE simp: without_connection_def)
  qed
  show ?thesis
  proof (cases l)
    case AtTop
    then show ?thesis using step p off by (auto elim!: top_stepE)
  next
    case (Running c)
    then show ?thesis using step off by (auto elim!: running_stepE)
  next
    case AwaitingCall
    then show ?thesis using step p by (auto elim!: awaiting_stepE)
  next
    case Sleeping
    with step consider "m2 = clear_notify m a" "l2 = AtTop" | "l2 = Ended"
      using p(1) by (auto elim!: sleeping_stepE)
    then show ?thesis by cases (use top in blast)+
  qed (use l in simp_all)
qed

text \<open>C26: a forgotten peer is let go. After a peer is forgotten its task, wherever it was but in the
  middle of a dial, has a step to take, and every step it can take ends it at once or brings it to
  the top of its loop, from where every step ends it.\<close>

theorem forgotten_peer_stops:
  assumes wf: "pm_wf m" and k: "map_of (peers m) k = Some a" and l: "l \<noteq> Dialing" "l \<noteq> Ended"
    and run: "\<forall>c. l = Running c \<longrightarrow> p_connection (heap m ! a) = Some c \<or> \<not> live m c"
  shows "\<exists>m1. m1 = evict_peer env m k r \<and> (\<exists>t. loop_step env a (m1, l, b) t) \<and>
    (\<forall>m2 l2 b2. loop_step env a (m1, l, b) (m2, l2, b2) \<longrightarrow>
       l2 = Ended \<or> l2 = AtTop \<and> (\<forall>t. loop_step env a (m2, l2, b2) t \<longrightarrow> fst (snd t) = Ended))"
proof -
  let ?m = "evict_peer env m k r"
  have a: "a < length (heap m)" using pm_wfD(6) [OF wf k] .
  have p: "p_removed (heap ?m ! a)" "p_conn_notify (heap ?m ! a)" "p_connection (heap ?m ! a) = None"
    "length (heap ?m) = length (heap m)"
    using evict_object_peer [OF wf k, of env r] by (auto simp: evict_peer_fields)
  have closed: "\<not> live ?m c" if "l = Running c" for c
  proof (cases "p_connection (heap m ! a) = Some c")
    case True
    then show ?thesis
      using close_conn_reason [OF pm_wfD(5) [OF wf a True]] evict_object_peer [OF wf k, of env r]
      by (simp add: evict_peer_fields)
  qed (use run that evict_keeps_closed [OF wf k] in blast)
  have "\<exists>t. loop_step env a (?m, l, b) t"
  proof (cases l)
    case (Running c)
    then show ?thesis using loop_step.connection_ends closed by blast
  qed (use l p loop_step.no_connection loop_step.called loop_step.slept in blast)+
  then show ?thesis using removed_step_ends [OF _ p(1,3) l] a p(4) by auto
qed

theorem forgotten_peer_stops_witness:
  "\<exists>t. loop_step plain_env 0 (evict_peer plain_env one_peer (EndpointId [7]) ''removed'', Sleeping, backoff_unreached) t"
proof -
  have "map_of (peers one_peer) (EndpointId [7]) = Some 0" by (simp add: one_peer_at)
  from forgotten_peer_stops [OF one_peer_wf this, of Sleeping plain_env "''removed''" backoff_unreached]
  show ?thesis by auto
qed

text \<open>Except in the middle of a dial. If a peer is forgotten while its task is dialing it and the
  dial succeeds, the removed peer is given the new connection, live, and its task runs it: nothing
  on this path looks at the mark that forgetting left.\<close>

theorem forgotten_peer_redials:
  assumes wf: "pm_wf m" and k: "map_of (peers m) k = Some a"
    and c: "c < length (conns m)" "live m c" "c_remote (conns m ! c) = k" "p_connection (heap m ! a) \<noteq> Some c"
  shows "\<exists>m2 b2 m3. loop_step env a (evict_peer env m k r, Dialing, b) (m2, AtTop, b2) \<and>
    p_removed (heap m2 ! a) \<and> p_connection (heap m2 ! a) = Some c \<and> live m2 c \<and>
    loop_step env a (m2, AtTop, b2) (m3, Running c, b2)"
proof -
  let ?m = "evict_peer env m k r"
  let ?d = "dialed env ?m a c"
  have a: "a < length (heap m)" using pm_wfD(6) [OF wf k] .
  note o = evict_object_peer [OF wf k, of env r]
  have wf': "pm_wf ?m" by (rule pm_wf_evict_peer [OF wf])
  have p: "p_removed (heap ?m ! a)" "p_connection (heap ?m ! a) = None" "a < length (heap ?m)"
    using o a by (auto simp: evict_peer_fields)
  have len: "length (conns ?m) = length (conns m)" using o by (simp add: evict_peer_fields split: option.splits)
  have cc: "c_remote (conns ?m ! c) = k" "live ?m c"
    using o c by (auto simp: evict_peer_fields live_close_other split: option.splits)
  have id: "p_endpoint_id (heap ?m ! a) = k"
  proof -
    have "evict_object env m k r = drop_surface env (release_all (take_connection
        (set_peer (m\<lparr>peers := AList.delete k (peers m)\<rparr>) a (\<lambda>p. p\<lparr>p_removed := True, p_conn_notify := True\<rparr>)) a r) a) a"
      using k by (simp add: evict_object_def Let_def)
    moreover have "p_endpoint_id (heap (take_connection
        (set_peer (m\<lparr>peers := AList.delete k (peers m)\<rparr>) a (\<lambda>p. p\<lparr>p_removed := True, p_conn_notify := True\<rparr>)) a r) ! a) = k"
      using pm_wfD(7) [OF wf k] a by (auto simp: take_connection_def set_peer_nth split: option.splits)
    ultimately show ?thesis
      using touches_keeps_peer [OF touches_release_all] touches_keeps_peer [OF touches_drop_surface]
      by (simp add: evict_peer_fields peer_kept_def)
  qed
  have st: "loop_step env a (?m, Dialing, b) (?d, AtTop, backoff_reset b)"
    by (rule loop_step.dial_succeeded) (use c(1) len cc id in simp_all)
  have nl: "\<not> held_is_live ?m a" using p by (simp add: held_is_live_def)
  let ?i = "install_connection ?m a c True"
  let ?s = "case p_enroll_token (heap ?i ! a) of None \<Rightarrow> ?i | Some token \<Rightarrow> snd (send_message env ?i c (enroll_message token))"
  have d: "?d = send_to env ?s a (ExposedPorts (ports_for (s_grants (pm_session ?s)) (p_endpoint_id (heap ?s ! a))))"
    using nl by (simp add: dialed_def resolve_held_iff Let_def announce_to_def announce_def send_ports_def)
  have i: "heap ?i ! a = (heap ?m ! a)\<lparr>p_conn_dialed_by_us := True, p_connection := Some c\<rparr>" "live ?i c"
    using install_connection_at [of a ?m c] p cc by simp_all
  have "live ?s c"
    using i(2) by (cases "c < length (conns ?i)") (auto simp: send_message_def list_update_beyond not_less split: option.splits)
  then have "live ?d c" unfolding d by (simp only: live_send_to)
  moreover have h: "heap ?d ! a = heap ?i ! a"
    unfolding d by (simp add: send_to_heap send_message_heap split: option.splits)
  moreover have "loop_step env a (?d, AtTop, backoff_reset b) (start_running env ?d a, Running c, backoff_reset b)"
    by (rule loop_step.run) (simp add: h i)
  moreover have "p_removed (heap ?i ! a)" "p_connection (heap ?i ! a) = Some c" using i(1) p(1) by simp_all
  ultimately show ?thesis using st by metis
qed

theorem forgotten_peer_redials_witness:
  "\<exists>m2 b2 m3. loop_step plain_env 0 (evict_peer plain_env called_peer (EndpointId [7]) ''removed'', Dialing, backoff_unreached)
       (m2, AtTop, b2) \<and>
    p_removed (heap m2 ! 0) \<and> p_connection (heap m2 ! 0) = Some 0 \<and> live m2 0 \<and>
    loop_step plain_env 0 (m2, AtTop, b2) (m3, Running 0, b2)"
  by (rule forgotten_peer_redials [OF called_peer_wf]) (simp_all add: called_peer_at peer_new_def)

end
