(* ===== verification/Persistence.thy ===== *)
theory Persistence
  imports Plain_Codec
begin

text \<open>
  What the two stores keep over a restart: both follow from the contract of a keyed store, through
  the interpretations \<open>pins\<close> and \<open>surfs\<close>. A store whose file cannot be read or parsed is refused
  and left as it is.
\<close>

subsection \<open>Properties\<close>

text \<open>The store of pins keeps one pin per key over a restart: a pin added is what the next
  load finds under its key, with the newest label, in place of any earlier pin; every other pin is
  untouched; removing the key leaves nothing of it; and where the file cannot be loaded, adding and
  removing report the error of the load and change nothing.\<close>

theorem pin_store_round_trip:
  assumes "codec_ok c" "file_usable f"
  shows "case pins_load c f of
      Inl e \<Rightarrow> pins_add c f key label = (Inl e, f) \<and> pins_remove c f key = (Inl e, f)
    | Inr ps \<Rightarrow>
        fst (pins_add c f key label) = Inr () \<and>
        pins_load c (snd (pins_add c f key label)) =
          Inr (filter (\<lambda>p. pin_key p \<noteq> key) ps @ [\<lparr>pin_key = key, pin_label = label\<rparr>]) \<and>
        pins_load c (snd (pins_remove c (snd (pins_add c f key label)) key)) =
          Inr (filter (\<lambda>p. pin_key p \<noteq> key) ps)"
proof (cases "pins_load c f")
  case (Inl e)
  then show ?thesis
    using pins.add_unloadable [OF Inl, of "\<lparr>pin_key = key, pin_label = label\<rparr>"]
      pins.remove_unloadable [OF Inl] by simp
next
  case (Inr ps)
  let ?p = "\<lparr>pin_key = key, pin_label = label\<rparr>"
  show ?thesis
    using pins.add_loaded [OF assms Inr, of ?p] pins.add_then_remove [OF assms Inr, of ?p]
      pins.remove_loaded [OF assms Inr, of key] Inr by simp
qed

theorem pin_store_round_trip_witness:
  "pins_load pin_codec (snd (pins_add pin_codec (new_file ''key.peers.json'') ''ab12'' (Some ''laptop''))) =
     Inr [\<lparr>pin_key = ''ab12'', pin_label = Some ''laptop''\<rparr>]"
proof -
  have "pins_load pin_codec (new_file ''key.peers.json'') = Inr []"
    by (simp add: pins.load_absent)
  then show ?thesis
    using pin_store_round_trip [OF pin_codec_ok new_file_usable,
        of "''key.peers.json''" "''ab12''" "Some ''laptop''"] by simp
qed

text \<open>The store of surfaces keeps one record per key over a restart, in the same sense: the
  address and name a peer was projected under are the ones loaded, no other record changes, and an
  unprojected peer leaves nothing behind.\<close>

theorem surface_store_round_trip:
  assumes "codec_ok c" "file_usable f"
  shows "case surfaces_load c f of
      Inl e \<Rightarrow> surfaces_add c f key ip name = (Inl e, f) \<and> surfaces_remove c f key = (Inl e, f)
    | Inr rs \<Rightarrow>
        fst (surfaces_add c f key ip name) = Inr () \<and>
        surfaces_load c (snd (surfaces_add c f key ip name)) =
          Inr (filter (\<lambda>r. sr_key r \<noteq> key) rs @ [\<lparr>sr_key = key, sr_ip = ip, sr_name = name\<rparr>]) \<and>
        surfaces_load c (snd (surfaces_remove c (snd (surfaces_add c f key ip name)) key)) =
          Inr (filter (\<lambda>r. sr_key r \<noteq> key) rs)"
proof (cases "surfaces_load c f")
  case (Inl e)
  then show ?thesis
    using surfs.add_unloadable [OF Inl, of "\<lparr>sr_key = key, sr_ip = ip, sr_name = name\<rparr>"]
      surfs.remove_unloadable [OF Inl] by simp
next
  case (Inr rs)
  let ?r = "\<lparr>sr_key = key, sr_ip = ip, sr_name = name\<rparr>"
  show ?thesis
    using surfs.add_loaded [OF assms Inr, of ?r] surfs.add_then_remove [OF assms Inr, of ?r]
      surfs.remove_loaded [OF assms Inr, of key] Inr by simp
qed

theorem surface_store_round_trip_witness:
  "surfaces_load surface_codec
     (snd (surfaces_add surface_codec (new_file ''key.surfaces.json'') ''ab12'' localhost (Some ''laptop''))) =
     Inr [\<lparr>sr_key = ''ab12'', sr_ip = localhost, sr_name = Some ''laptop''\<rparr>]"
proof -
  have "surfaces_load surface_codec (new_file ''key.surfaces.json'') = Inr []"
    by (simp add: surfs.load_absent)
  then show ?thesis
    using surface_store_round_trip [OF surface_codec_ok new_file_usable,
        of "''key.surfaces.json''" "''ab12''" localhost "Some ''laptop''"] by simp
qed

end
