(* ===== verification/Requests.thy ===== *)
theory Requests
  imports Daemon_Access Peer_Life Persistence
begin

text \<open>
  What a daemon keeps over a restart (its key, its pins), what a request that fails leaves alone,
  and that a change of grants is sent to the peers it concerns.
\<close>

subsection \<open>The key\<close>

text \<open>C32: the identity is stable. A daemon started on a missing key file creates it, with the
  generated key, readable and writable by its owner only; from then on every start on the file gives that key and
  leaves the file alone, whatever is generated. A file that is not 32 bytes long, or cannot be
  read, is an error and is never overwritten.\<close>

theorem key_is_kept:
  assumes "length generated = 32" and "read_ok f"
  shows "(case load_or_create_key f generated of
      (Inr key, f') \<Rightarrow> length key = 32 \<and> contents f' = Some key \<and> load_or_create_key f' other = (Inr key, f') \<and>
        (contents f = None \<longrightarrow> key = generated \<and> mode f' = Some 384) \<and> (contents f \<noteq> None \<longrightarrow> f' = f)
    | (Inl _, f') \<Rightarrow> contents f \<noteq> None \<longrightarrow> f' = f) \<and>
    (contents f = Some bs \<and> length bs \<noteq> 32 \<longrightarrow> load_or_create_key f generated = (Inl (NotThirtyTwoBytes (file_path f)), f)) \<and>
    (contents f = Some bs \<longrightarrow> load_or_create_key (f\<lparr>read_ok := False\<rparr>) generated =
       (Inl (FailedToRead (file_path f)), f\<lparr>read_ok := False\<rparr>))"
  using assms by (auto simp: load_or_create_key_def split: option.splits)

definition fresh_key_file :: key_file where
  "fresh_key_file = state_file.extend (new_file ''key'') \<lparr>create_ok = True, mode = None\<rparr>"

theorem key_is_kept_witness:
  "fst (load_or_create_key (snd (load_or_create_key fresh_key_file (replicate 32 7))) (replicate 32 8)) =
     Inr (replicate 32 7)"
  using key_is_kept [of "replicate 32 7" fresh_key_file "replicate 32 8" "[]"]
  by (simp add: fresh_key_file_def new_file_def state_file.defs load_or_create_key_def)

subsection \<open>Starting again\<close>

lemma admitted_add_pinned:
  assumes "pm_wf m"
  shows "admission_of (pm_session (snd (add_pinned env m key name))) k =
    (if e_parse_key env key = Some k \<and> admission_of (pm_session m) k = None then Some Key
     else admission_of (pm_session m) k)"
  using member_iff_admitted [OF assms] pm_wfD(1) [OF assms]
  by (auto simp: add_pinned_def core_install admit_known_def admission_of_def map_of_bput session_wf_def
      split: option.splits)

lemma admitted_load_pins:
  "pm_wf m \<Longrightarrow> admission_of (pm_session (load_pins env ps m)) k =
    (if (\<exists>p \<in> set ps. e_parse_key env (pin_key p) = Some k) \<and> admission_of (pm_session m) k = None
     then Some Key else admission_of (pm_session m) k)"
proof (induction ps arbitrary: m)
  case (Cons p ps)
  have "load_pins env (p # ps) m = load_pins env ps (snd (add_pinned env m (pin_key p) (pin_label p)))"
    by (simp add: load_pins_def)
  then show ?case
    using Cons.IH [OF pm_wf_add_pinned [OF Cons.prems]] admitted_add_pinned [OF Cons.prems] by auto
qed (simp add: load_pins_def)

lemma load_pins_core:
  "s_grants (pm_session (load_pins env ps m)) = s_grants (pm_session m) \<and>
   s_tokens (pm_session (load_pins env ps m)) = s_tokens (pm_session m)"
  unfolding load_pins_def
proof (induction ps arbitrary: m)
  case (Cons p ps)
  have "s_tokens (pm_session (snd (add_pinned env m (pin_key p) (pin_label p)))) = s_tokens (pm_session m)"
    by (simp add: add_pinned_def core_install admit_known_def split: option.splits)
  then show ?case using Cons grants_add_pinned by simp
qed simp

lemma restored_session:
  assumes "with_endpoint env me h pf sf ns name = Inr m" "pins_load (e_pins env) pf = Inr ps"
  shows "pm_session m = pm_session (load_pins env ps (pm_new me h session_new pf sf ns name))"
proof -
  let ?m = "load_pins env ps (pm_new me h session_new pf sf ns name)"
  have "unbound (pm_new me h session_new pf sf ns name)" by (simp add: unbound_def pm_new_def)
  then have "pm_wf ?m" "unbound ?m" using load_pins_start [OF pm_wf_pm_new] by blast+
  then show ?thesis
    using restore_records_start assms by (auto simp: with_endpoint_def restore_surfaces_def split: sum.splits)
qed

lemma started_without_grants:
  assumes "with_endpoint env me h pf sf ns name = Inr m"
  shows "\<not> may m p k"
proof -
  obtain ps where ps: "pins_load (e_pins env) pf = Inr ps"
    using assms by (auto simp: with_endpoint_def split: sum.splits)
  show ?thesis
    using restored_session [OF assms ps] load_pins_core [of env ps "pm_new me h session_new pf sf ns name"]
    by (simp add: pm_new_def session_new_def allows_default)
qed

lemma restart_admissions:
  assumes "with_endpoint env me h pf sf ns name = Inr m" "pins_load (e_pins env) pf = Inr ps"
  shows "admission_of (pm_session m) k =
    (if \<exists>p \<in> set ps. e_parse_key env (pin_key p) = Some k then Some Key else None)"
  using restored_session [OF assms] admitted_load_pins [OF pm_wf_pm_new, of env ps me h pf sf ns name k]
  by (simp add: pm_new_def session_new_def admission_of_def)

lemma no_codes_at_start:
  assumes "with_endpoint env me h pf sf ns name = Inr m"
  shows "worth (s_tokens (pm_session m)) now code = None"
proof -
  obtain ps where ps: "pins_load (e_pins env) pf = Inr ps"
    using assms by (auto simp: with_endpoint_def split: sum.splits)
  have "s_tokens (pm_session m) = tokens_default"
    using restored_session [OF assms ps] load_pins_core [of env ps "pm_new me h session_new pf sf ns name"]
    by (simp add: pm_new_def session_new_def)
  then show ?thesis by (simp add: tokens_default_def worth_def)
qed

text \<open>C31: what a restart keeps. A daemon that starts from its files knows exactly the keys that are
  pinned, each admitted as by key whatever admitted it before, and no grant and no code. A pin file
  that cannot be loaded keeps it from starting.\<close>

theorem restart_keeps_pins_only:
  assumes "with_endpoint env me h pf sf ns name = Inr m"
  shows "\<exists>ps. pins_load (e_pins env) pf = Inr ps \<and>
    (\<forall>k. admission_of (pm_session m) k =
       (if \<exists>p \<in> set ps. e_parse_key env (pin_key p) = Some k then Some Key else None)) \<and>
    (\<forall>k p. on_tunnel (pm_session m) k p = RejectTunnel NotGranted) \<and>
    (\<forall>now code. worth (s_tokens (pm_session m)) now code = None)"
proof -
  obtain ps where ps: "pins_load (e_pins env) pf = Inr ps"
    using assms by (auto simp: with_endpoint_def split: sum.splits)
  then show ?thesis
    using restart_admissions [OF assms ps] started_without_grants [OF assms] no_codes_at_start [OF assms] by (auto simp: on_tunnel_def)
qed

theorem restart_keeps_pins_only_witness:
  "\<exists>m. with_endpoint plain_env (EndpointId [1]) localhost (new_file ''p'') (new_file ''s'') None None = Inr m \<and>
     admission_of (pm_session m) (EndpointId [7]) = None"
proof -
  have l: "pins_load pin_codec (new_file ''p'') = Inr []" by (simp add: pins.load_absent)
  then obtain m where m: "with_endpoint plain_env (EndpointId [1]) localhost (new_file ''p'') (new_file ''s'') None None = Inr m"
    by (simp add: with_endpoint_def)
  from restart_keeps_pins_only [OF m] l have "admission_of (pm_session m) (EndpointId [7]) = None" by auto
  with m show ?thesis by blast
qed

subsection \<open>Requests that fail\<close>

text \<open>What is left of a peer and of the stack once the peer's surface is taken down: no surface and no listener on the
  peer object, and on the stack neither its names nor the listeners of its bindings. Nothing else of the daemon differs.\<close>

definition off_stack :: "netstack \<Rightarrow> ip_addr \<Rightarrow> u16 list \<Rightarrow> netstack" where
  "off_stack ns ip ports =
     (case ip of
        V4 v4 \<Rightarrow> ns\<lparr>ns_listeners := filter (\<lambda>l. \<not> (fst l = v4 \<and> snd l \<in> set ports)) (ns_listeners ns)\<rparr>
      | V6 _ \<Rightarrow> ns)"

definition surface_down :: "pm \<Rightarrow> nat \<Rightarrow> pm \<Rightarrow> bool" where
  "surface_down m a m' \<longleftrightarrow>
     (\<exists>n. m' = m\<lparr>heap := (heap m)[a := (heap m ! a)\<lparr>p_bindings := [], p_surface := None\<rparr>], calls := n,
        pm_netstack := (case (pm_netstack m, p_surface (heap m ! a)) of
            (Some ns, Some s) \<Rightarrow>
              (case sf_ip s of
                 V4 v4 \<Rightarrow> Some (remove_surface (off_stack ns (V4 v4) (keys (p_bindings (heap m ! a)))) v4)
               | V6 _ \<Rightarrow> Some ns)
          | (ns, _) \<Rightarrow> ns)\<rparr>)"

lemma release_ports:
  assumes "a < length (heap m)" "p_surface (heap m ! a) = Some s"
  shows "fold (\<lambda>port m. release_binding m a port) ps m =
    m\<lparr>heap := (heap m)[a := (heap m ! a)\<lparr>p_bindings := fold AList.delete ps (p_bindings (heap m ! a))\<rparr>],
      pm_netstack := map_option (\<lambda>ns. off_stack ns (sf_ip s) ps) (pm_netstack m)\<rparr>"
  using assms
proof (induction ps arbitrary: m)
  case Nil
  show ?case by (cases m; cases "pm_netstack m"; cases "sf_ip s") (simp_all add: off_stack_def)
next
  case (Cons p ps)
  have one: "filter (\<lambda>l. l \<noteq> (v, p)) ls = filter (\<lambda>l. \<not> (fst l = v \<and> snd l \<in> set [p])) ls" for v ls
    by (rule filter_cong) auto
  have r: "release_binding m a p = m\<lparr>heap := (heap m)[a := (heap m ! a)\<lparr>p_bindings := AList.delete p (p_bindings (heap m ! a))\<rparr>],
      pm_netstack := map_option (\<lambda>ns. off_stack ns (sf_ip s) [p]) (pm_netstack m)\<rparr>"
    using Cons.prems
    by (cases m; cases "sf_ip s"; cases "pm_netstack m")
      (simp_all add: release_binding_def set_peer_def Let_def off_stack_def unlisten_def one)
  have o: "off_stack (off_stack ns (sf_ip s) [p]) (sf_ip s) ps = off_stack ns (sf_ip s) (p # ps)" for ns
    by (cases "sf_ip s") (auto simp: off_stack_def filter_filter intro!: arg_cong [where f = "\<lambda>l. ns\<lparr>ns_listeners := l\<rparr>"] filter_cong)
  show ?case
    using Cons.prems Cons.IH [of "release_binding m a p"]
    by (simp add: r option.map_comp comp_def o)
qed

lemma release_all_ports:
  assumes "a < length (heap m)" "p_surface (heap m ! a) = Some s"
  shows "release_all m a = m\<lparr>heap := (heap m)[a := (heap m ! a)\<lparr>p_bindings := []\<rparr>],
    pm_netstack := map_option (\<lambda>ns. off_stack ns (sf_ip s) (keys (p_bindings (heap m ! a)))) (pm_netstack m)\<rparr>"
proof -
  let ?bs = "p_bindings (heap m ! a)"
  note r = release_ports [OF assms, of "keys ?bs"]
  have "(heap m ! a)\<lparr>p_bindings := fold AList.delete (keys ?bs) ?bs\<rparr> = heap (release_all m a) ! a"
    unfolding release_all_def r using assms(1) by simp
  also have "\<dots> = (heap m ! a)\<lparr>p_bindings := []\<rparr>" by (rule peer_release_all [OF assms(1)])
  finally show ?thesis unfolding release_all_def r by (rule arg_cong)
qed

lemma surface_down_unclaim:
  assumes "a < length (heap m)" "p_surface (heap m ! a) = Some s"
  shows "surface_down m a (snd (unclaim_addr env (set_peer (release_all m a) a (\<lambda>p. p\<lparr>p_surface := None\<rparr>)) (sf_ip s)))"
proof -
  have down: "surface_down m a (m\<lparr>heap := (heap m)[a := (heap m ! a)\<lparr>p_bindings := [], p_surface := None\<rparr>], calls := n,
      pm_netstack := ns\<rparr>)"
    if "ns = (case pm_netstack m of None \<Rightarrow> None | Some ns \<Rightarrow> (case sf_ip s of
      V4 v4 \<Rightarrow> Some (remove_surface (off_stack ns (V4 v4) (keys (p_bindings (heap m ! a)))) v4) | V6 _ \<Rightarrow> Some ns))" for n ns
    unfolding surface_down_def by (rule exI [of _ n], cases "pm_netstack m") (simp_all add: assms(2) that)
  show ?thesis
  proof (cases "pm_netstack m")
    case None
    then show ?thesis
      using down [of None "calls m + 1"] assms(1) unfolding release_all_ports [OF assms] unclaim_addr_def set_peer_def
      by (cases m) simp
  next
    case (Some ns)
    then show ?thesis
      using down [of _ "calls m"] assms(1) unfolding release_all_ports [OF assms] unclaim_addr_def set_peer_def
      by (cases m; cases "sf_ip s") (simp_all add: off_stack_def)
  qed
qed

lemma surface_down_none:
  assumes "pm_wf m" "a < length (heap m)" "p_surface (heap m ! a) = None"
  shows "surface_down m a m"
proof -
  have "p_bindings (heap m ! a) = []"
    using pm_wfD(4) [OF assms(1,2)] bound_at_no_surface assms(3) by (auto simp: peer_wf_def)
  with assms(3) have "(heap m ! a)\<lparr>p_bindings := [], p_surface := None\<rparr> = heap m ! a" by simp
  then show ?thesis using assms(3) unfolding surface_down_def by (intro exI [of _ "calls m"]) (simp split: option.splits)
qed

lemma surface_down_teardown:
  assumes "pm_wf m" "a < length (heap m)"
  shows "surface_down m a (teardown_surface env m a)"
proof (cases "p_surface (heap m ! a)")
  case None
  then show ?thesis using surface_down_none [OF assms] by (simp add: teardown_surface_def)
next
  case (Some s)
  have "p_surface (heap (release_all m a) ! a) = Some s" using Some by (simp add: peer_release_all [OF assms(2)])
  then show ?thesis using surface_down_unclaim [OF assms(2) Some] Some by (simp add: teardown_surface_def drop_surface_def)
qed

lemma surface_down_calls: "surface_down m a m' \<Longrightarrow> surface_down m a (m'\<lparr>calls := n\<rparr>)"
  unfolding surface_down_def by (elim exE, rule exI [of _ n]) simp

lemma place_surface_failed:
  assumes "place_surface env m k a ip name = (Inl e, m')"
  shows "m' = m\<lparr>calls := calls m + 1\<rparr>"
  using assms by (auto simp: place_surface_def claim_addr_def Let_def split: prod.splits sum.splits option.splits)

lemma failed_project:
  assumes wf: "pm_wf m" and p: "project env m q ip name = (Inl e, m')"
  shows "case Option.bind (resolve_peer env m q) (map_of (peers m)) of None \<Rightarrow> m' = m | Some a \<Rightarrow> surface_down m a m'"
proof (cases "Option.bind (resolve_peer env m q) (map_of (peers m))")
  case None
  then show ?thesis using p by (auto simp: project_def split: option.splits)
next
  case (Some a)
  then obtain k where k: "resolve_peer env m q = Some k" "map_of (peers m) k = Some a" by (auto simp: bind_eq_Some_conv)
  let ?m1 = "teardown_surface env m a"
  have "m' = ?m1 \<or> m' = ?m1\<lparr>calls := calls ?m1 + 1\<rparr>"
    using p k by (auto simp: project_def Let_def split: option.splits sum.splits dest!: place_surface_failed)
  then show ?thesis
    using surface_down_teardown [OF wf pm_wfD(6) [OF wf k(2)], of env] surface_down_calls Some by auto
qed

lemma failed_unproject:
  assumes wf: "pm_wf m" and p: "unproject env m q = (Inl e, m')"
  shows "case Option.bind (resolve_peer env m q) (map_of (peers m)) of None \<Rightarrow> m' = m | Some a \<Rightarrow> surface_down m a m'"
proof (cases "Option.bind (resolve_peer env m q) (map_of (peers m))")
  case None
  then show ?thesis using p by (auto simp: unproject_def split: option.splits)
next
  case (Some a)
  then obtain k where k: "resolve_peer env m q = Some k" "map_of (peers m) k = Some a" by (auto simp: bind_eq_Some_conv)
  note len = pm_wfD(6) [OF wf k(2)]
  show ?thesis
  proof (cases "p_surface (heap m ! a)")
    case None
    then show ?thesis using p k Some surface_down_none [OF wf len None] by (simp add: unproject_def)
  next
    case (Some s)
    then show ?thesis
      using p k surface_down_unclaim [OF len Some, of env] by (auto simp: unproject_def split: prod.splits sum.splits)
  qed
qed

lemma pins_add_failed:
  assumes "pins_add c f key name = (Inl e, f')"
  shows "\<exists>x. (x = contents f \<or> x = torn f) \<and> f' = f\<lparr>contents := x\<rparr>"
proof -
  have same: "\<exists>x. (x = contents f \<or> x = torn f) \<and> f = f\<lparr>contents := x\<rparr>" by (rule exI [of _ "contents f"]) simp
  have "\<exists>x. (x = contents f \<or> x = torn f) \<and> f' = f\<lparr>contents := x\<rparr>" if "json_save c f ps = (Inl e, f')" for ps
    using that same by (auto simp: json_save_def split: if_splits option.splits)
  then show ?thesis using assms same by (auto simp: pins_add_def pins_save_def split: sum.splits)
qed

text \<open>An invitation by a good key that fails failed to store the pin. The peer is entered all the same.\<close>

definition entered_unpinned :: "pm \<Rightarrow> endpoint_id \<Rightarrow> string option \<Rightarrow> pm \<Rightarrow> bool" where
  "entered_unpinned m k name m' \<longleftrightarrow>
     (\<exists>x s. (x = contents (pins_file m) \<or> x = torn (pins_file m)) \<and>
        s_grants s = s_grants (pm_session m) \<and> s_tokens s = s_tokens (pm_session m) \<and>
        s_pending s = s_pending (pm_session m) \<and>
        (\<forall>k'. admission_of s k' =
           (if k' = k \<and> admission_of (pm_session m) k' = None then Some Key else admission_of (pm_session m) k')) \<and>
        (if map_of (peers m) k = None
         then m' = m\<lparr>heap := heap m @ [peer_new k name False None None], peers := AList.update k (length (heap m)) (peers m),
                loops := loops m @ [length (heap m)], pm_session := s, pins_file := (pins_file m)\<lparr>contents := x\<rparr>\<rparr>
         else m' = m\<lparr>pm_session := s, pins_file := (pins_file m)\<lparr>contents := x\<rparr>\<rparr> \<and> s = pm_session m))"

lemma failed_pin:
  assumes wf: "pm_wf m" and k: "e_parse_key env key = Some k" and p: "pin_peer env m key name = (Inl e, m')"
  shows "entered_unpinned m k name m'"
proof -
  obtain m1 where m1: "add_pinned env m key name = (Inr (), m1)"
    using k by (cases "map_of (peers m) k") (simp_all add: add_pinned_def)
  then obtain f where f: "pins_add (e_pins env) (pins_file m1) key name = (Inl e, f)" "m' = m1\<lparr>pins_file := f\<rparr>"
    using p by (auto simp: pin_peer_def split: prod.splits)
  have same: "pins_file m1 = pins_file m" using m1 k by (auto simp: add_pinned_def install_peer_def split: if_splits)
  obtain x where x: "x = contents (pins_file m) \<or> x = torn (pins_file m)" "f = (pins_file m)\<lparr>contents := x\<rparr>"
    using pins_add_failed [OF f(1)] same by auto
  have adm: "admission_of (pm_session m1) k' =
      (if k' = k \<and> admission_of (pm_session m) k' = None then Some Key else admission_of (pm_session m) k')" for k'
    using admitted_add_pinned [OF wf, of env key name k'] m1 k by auto
  have core: "s_grants (pm_session m1) = s_grants (pm_session m)" "s_tokens (pm_session m1) = s_tokens (pm_session m)"
    "s_pending (pm_session m1) = s_pending (pm_session m)"
    using m1 k by (auto simp: add_pinned_def install_peer_def admit_known_def split: if_splits option.splits)
  have "m1 = (if map_of (peers m) k = None
      then m\<lparr>heap := heap m @ [peer_new k name False None None], peers := AList.update k (length (heap m)) (peers m),
        loops := loops m @ [length (heap m)], pm_session := pm_session m1\<rparr> else m)"
    using m1 k by (auto simp: add_pinned_def install_peer_def split: if_splits)
  with x f core adm show ?thesis
    unfolding entered_unpinned_def by (intro exI [of _ x] exI [of _ "pm_session m1"]) auto
qed

lemma reply_unit_error: "reply_unit x = (RespError e, m') \<longleftrightarrow> x = (Inl e, m')"
  by (cases x; cases "fst x") auto

lemma failed_invite:
  assumes "d_invite env m (Some s) name ports rnd now = (RespError e, m')"
  shows "\<exists>e'. pin_peer env m s name = (Inl e', m')"
proof -
  obtain o1 m1 where p: "pin_peer env m s name = (o1, m1)" by fastforce
  show ?thesis
  proof (cases "e_parse_key env s")
    case None
    then show ?thesis using p assms by (auto simp: d_invite_def pin_peer_def add_pinned_def)
  next
    case (Some k)
    then show ?thesis using p assms by (cases o1) (auto simp: d_invite_def)
  qed
qed


text \<open>A macOS system that gives no alias back: the surface of a projected peer is taken down, and the request fails.\<close>

definition stuck_env :: env where
  "stuck_env = plain_env\<lparr>e_os := MacOS, e_exec := \<lambda>_ _ _. Exited False []\<rparr>"

definition shown_peer :: pm where
  "shown_peer = snd (project plain_env one_peer ''box'' (Some (V4 (Ipv4 127 0 1 9))) None)"

lemma one_peer_bare: "pm_netstack one_peer = None" "p_surface (heap one_peer ! 0) = None" "length (heap one_peer) = 1"
  by (simp_all add: one_peer_at peer_new_def one_peer_def add_peer_def plain_pm_def pm_new_def install_peer_def)

lemma shown_peer_at:
  "peers shown_peer = [(EndpointId [7], 0)]" "pm_netstack shown_peer = None"
  "heap shown_peer = [(peer_new (EndpointId [7]) (Some ''box'') True None None)
     \<lparr>p_surface := Some \<lparr>sf_ip = V4 (Ipv4 127 0 1 9), sf_name = Some ''box''\<rparr>\<rparr>]"
  by (simp_all add: shown_peer_def project_def one_peer_resolves one_peer_at Let_def teardown_surface_def peer_new_def place_surface_def
      claim_addr_def one_peer_bare ensure_addr_def set_peer_def persist_surface_def bind_missing_def)


subsection \<open>Announcing a change of grants\<close>

lemma announce_to_keeps:
  "heap (announce_to env m a) = heap m" "pm_session (announce_to env m a) = pm_session m"
  by (simp_all add: announce_to_def announce_def send_ports_def send_to_heap)

lemma announce_to_other:
  "p_connection (heap m ! a) \<noteq> Some c \<Longrightarrow> conns (announce_to env m a) ! c = conns m ! c"
  by (auto simp: announce_to_def announce_def send_ports_def send_to_def send_message_def split: option.splits)

lemma announce_all_other:
  assumes "\<forall>e \<in> set es. p_connection (heap m ! snd e) \<noteq> Some c"
  shows "heap (fold (\<lambda>e m. announce_to env m (snd e)) es m) = heap m \<and>
    pm_session (fold (\<lambda>e m. announce_to env m (snd e)) es m) = pm_session m \<and>
    conns (fold (\<lambda>e m. announce_to env m (snd e)) es m) ! c = conns m ! c"
  using assms by (induction es arbitrary: m) (simp_all add: announce_to_keeps announce_to_other)

lemma announce_all_conns: "length (conns (fold (\<lambda>e m. announce_to env m (snd e)) es m)) = length (conns m)"
proof (induction es arbitrary: m)
  case (Cons e es)
  have "length (conns (announce_to env m (snd e))) = length (conns m)"
    by (simp add: announce_to_def announce_def send_ports_def send_to_def send_message_def split: option.splits)
  then show ?case using Cons by simp
qed simp

lemma broadcast_sent:
  assumes wf: "pm_wf m" and k: "map_of (peers m) k = Some a" and c: "p_connection (heap m ! a) = Some c"
    and ready: "live m c" "c_opens_streams (conns m ! c)"
    and enc: "e_encode env (ExposedPorts (ports_for (s_grants (pm_session m)) k)) = Some data"
  shows "c_sent (conns (broadcast_grants env m) ! c) = c_sent (conns m ! c) @ [data]"
proof -
  obtain xs ys where ps: "peers m = xs @ (k, a) # ys" using map_of_SomeD [OF k] by (meson split_list)
  have a: "a < length (heap m)" "p_endpoint_id (heap m ! a) = k" using pm_wfD(6,7) [OF wf k] by auto
  have cl: "c < length (conns m)" "c_remote (conns m ! c) = k" using pm_wfD(5,10) [OF wf a(1) c] a(2) by auto
  have d: "distinct (keys (peers m))" using pm_wfD(2) [OF wf] by (simp add: hash_ok_def)
  have other: "p_connection (heap m ! snd e) \<noteq> Some c" if e: "e \<in> set xs \<union> set ys" for e
  proof
    assume ec: "p_connection (heap m ! snd e) = Some c"
    have "e \<in> set (peers m)" "fst e \<noteq> k" using e d ps by auto
    then have "map_of (peers m) (fst e) = Some (snd e)" using d by simp
    from pm_wfD(6,7) [OF wf this] pm_wfD(10) [OF wf _ ec] have "c_remote (conns m ! c) = fst e" by simp
    with cl \<open>fst e \<noteq> k\<close> show False by simp
  qed
  let ?x = "fold (\<lambda>e m. announce_to env m (snd e)) xs m"
  let ?y = "announce_to env ?x a"
  have x: "heap ?x = heap m" "pm_session ?x = pm_session m" "conns ?x ! c = conns m ! c" "c < length (conns ?x)"
    using announce_all_other [of xs m c env] other cl(1) by (auto simp: announce_all_conns)
  have "c_sent (conns ?y ! c) = c_sent (conns m ! c) @ [data]"
    using x c ready enc a(2)
    by (simp add: announce_to_def announce_def send_ports_def send_to_def send_message_def)
  moreover have "conns (fold (\<lambda>e m. announce_to env m (snd e)) ys ?y) ! c = conns ?y ! c"
    using announce_all_other [of ys ?y c env] other x(1) by (simp add: announce_to_keeps)
  ultimately show ?thesis by (simp add: broadcast_grants_def ps)
qed

lemma grant_change_message:
  assumes wf: "pm_wf m" and k: "map_of (peers m) k = Some a" and c: "p_connection (heap m ! a) = Some c"
    and ready: "c_close_reason (conns m ! c) = None" "c_opens_streams (conns m ! c)"
    and enc: "\<forall>ps. e_encode env (ExposedPorts ps) = Some (encode ps)"
    and m': "m' = d_expose env m port ks \<or> m' = d_unexpose env m port t"
  shows "c_sent (conns m' ! c) = c_sent (conns m ! c) @
    [encode (sorted_list_of_set {p. on_tunnel (pm_session m') k p = ServeTunnel p})]"
proof -
  obtain s where s: "m' = broadcast_grants env (m\<lparr>pm_session := s\<rparr>)" "pm_wf (m\<lparr>pm_session := s\<rparr>)"
  proof -
    have "pm_wf (m\<lparr>pm_session := snd (expose (pm_session m) port ks)\<rparr>)"
      "pm_wf (m\<lparr>pm_session := snd (unexpose (pm_session m) port t)\<rparr>)"
      by (rule pm_wf_session [OF wf]; simp only: same_peers session_wf_ops pm_wfD(1) [OF wf])+
    then show ?thesis using that m' unfolding d_expose_def d_unexpose_def by blast
  qed
  have "grants_wf (s_grants s)" using pm_wfD(1) [OF s(2)] by (simp add: session_wf_def)
  then have "ports_for (s_grants s) k = sorted_list_of_set {p. on_tunnel s k p = ServeTunnel p}"
    by (simp add: sorted_list_of_ports on_tunnel_def)
  then show ?thesis
    using broadcast_sent [OF s(2), of k a c env] k c ready enc s(1) by simp
qed

text \<open>A change of grants is sent. After every \<open>expose\<close> and \<open>unexpose\<close> a peer with a live
  connection has been sent exactly one more message, and it is the list, in ascending order, of the
  ports its tunnels are now served on, also when that list is empty.\<close>

theorem grant_change_is_sent:
  assumes wf: "pm_wf m" and k: "map_of (peers m) k = Some a" and c: "p_connection (heap m ! a) = Some c"
    and ready: "c_close_reason (conns m ! c) = None" "c_opens_streams (conns m ! c)"
    and enc: "\<forall>ps. e_encode env (ExposedPorts ps) = Some (encode ps)"
    and m': "m' = d_expose env m port ks \<or> m' = d_unexpose env m port t"
  shows "c_sent (conns m' ! c) = c_sent (conns m ! c) @
    [encode (sorted_list_of_set {p. on_tunnel (pm_session m') k p = ServeTunnel p})]"
  by (rule grant_change_message [OF assms])

definition online_peer :: pm where
  "online_peer = install_connection called_peer 0 0 True"

lemma online_peer_wf: "pm_wf online_peer"
  unfolding online_peer_def
  by (rule pm_wf_install_connection [OF called_peer_wf]) (simp_all add: called_peer_at peer_new_def)

lemma online_peer_at:
  "peers online_peer = [(EndpointId [7], 0)]"
  "heap online_peer = [(peer_new (EndpointId [7]) (Some ''box'') True None None)\<lparr>p_conn_dialed_by_us := True, p_connection := Some 0\<rparr>]"
  "conns online_peer = [\<lparr>c_remote = EndpointId [7], c_close_reason = None, c_opens_streams = True, c_sent = []\<rparr>]"
  by (simp_all add: online_peer_def install_connection_def set_peer_def called_peer_at peer_new_def)

theorem grant_change_is_sent_witness:
  "c_sent (conns (d_expose plain_env online_peer 80 [EndpointId [7]]) ! 0) =
     [the (encode_message (ExposedPorts (sorted_list_of_set {p. on_tunnel
        (pm_session (d_expose plain_env online_peer 80 [EndpointId [7]])) (EndpointId [7]) p = ServeTunnel p})))]"
  using grant_change_is_sent [OF online_peer_wf, of "EndpointId [7]" 0 0 plain_env
      "\<lambda>ps. the (encode_message (ExposedPorts ps))" "d_expose plain_env online_peer 80 [EndpointId [7]]" 80
      "[EndpointId [7]]" None]
  by (simp add: online_peer_at encode_message_def)

end
