(* ===== verification/Invite_Flow.thy ===== *)
theory Invite_Flow
  imports Requests
begin

text \<open>
  An invitation carried from one daemon to another: the issuer mints it, the holder accepts the
  printed text, dials and presents the code, and the issuer admits the holder, grants it the ports,
  and pins it, so that a restart of the issuer still knows it.
\<close>

subsection \<open>The issuer mints\<close>

lemma hex_bytes_code: "rnd \<noteq> [] \<Longrightarrow> hex_bytes rnd \<noteq> [] \<and> graphic (last (hex_bytes rnd))"
proof -
  assume "rnd \<noteq> []"
  then have "hex_bytes rnd \<noteq> []" by (cases rnd) (simp_all add: hex_bytes_def hex_byte_def)
  moreover have "\<forall>c \<in> set (hex_bytes rnd). graphic c"
    using set_hex_bytes hex_digit_graphic by blast
  ultimately show ?thesis by simp
qed

lemma invite_mints:
  assumes "handle_request env m (ReqInvite None name ports) rnd now = (RespInvite txt, m1)"
  shows "txt = invite_to_string (e_show_key env) \<lparr>inv_key = our_id m, inv_code = hex_bytes rnd\<rparr>"
    "m1 = m\<lparr>pm_session := snd (mint_token (pm_session m) name ports rnd now)\<rparr>"
    "t < now + TOKEN_TTL \<Longrightarrow> worth (s_tokens (pm_session m1)) t (hex_bytes rnd) =
       Some \<lparr>claimed_name = name, claimed_ports = ports\<rparr>"
  using assms
  by (auto simp: d_invite_def mint_token_def mint_def mint_with_ttl_def Let_def worth_def update_conv' split: prod.splits)

subsection \<open>The holder accepts and dials\<close>

lemma accept_installs:
  assumes kc: "key_codec show_key (e_parse_key env)" and code: "code \<noteq> []" "graphic (last code)"
    and new: "map_of (peers m) k = None"
  shows "\<exists>m1. handle_request env m (ReqAccept (invite_to_string show_key \<lparr>inv_key = k, inv_code = code\<rparr>) lbl) rnd now =
      (RespOk, m1) \<and> map_of (peers m1) k = Some (length (heap m)) \<and> conns m1 = conns m \<and>
      heap m1 = heap m @ [peer_new k lbl True (Some code) None]"
  using printed_invite_parses [OF kc code, of k] new
  by (simp add: d_accept_def add_peer_def install_peer_def update_conv')

lemma announce_to_appends:
  "\<exists>rest. c_sent (conns (announce_to env m a) ! c) = c_sent (conns m ! c) @ rest"
proof -
  have "\<exists>rest. c_sent (conns (snd (send_message env m d msg)) ! c) = c_sent (conns m ! c) @ rest" for d msg
    by (cases "c = d"; cases "c < length (conns m)")
      (auto simp: send_message_def list_update_beyond split: option.splits)
  then show ?thesis by (auto simp: announce_to_def announce_def send_ports_def send_to_def split: option.splits)
qed

lemma dialed_presents:
  assumes p: "heap m ! a = peer_new k lbl True (Some code) None" "a < length (heap m)"
    and enc: "e_encode env (enroll_message code) = Some data"
  shows "\<exists>rest. c_sent (conns (daemon_step env m (Dialed a True)) ! length (conns m)) = data # rest"
proof -
  let ?m = "new_conn m k True"
  let ?c = "length (conns m)"
  let ?i = "install_connection ?m a ?c True"
  have i: "heap ?i ! a = (peer_new k lbl True (Some code) None)\<lparr>p_conn_dialed_by_us := True, p_connection := Some ?c\<rparr>"
    "conns ?i = conns ?m"
    using p by (simp_all add: install_connection_def set_peer_def new_conn_def peer_new_def)
  have c: "conns ?i ! ?c = \<lparr>c_remote = k, c_close_reason = None, c_opens_streams = True, c_sent = []\<rparr>"
    "?c < length (conns ?i)"
    unfolding i(2) by (simp_all add: new_conn_def)
  let ?s = "snd (send_message env ?i ?c (enroll_message code))"
  have s: "c_sent (conns ?s ! ?c) = [data]" "heap ?s = heap ?i"
    using enc c by (simp_all add: send_message_def)
  have "p_endpoint_id (heap m ! a) = k" "p_connection (heap m ! a) = None" using p by (simp_all add: peer_new_def)
  then have "daemon_step env m (Dialed a True) = dialed env ?m a ?c" "\<not> held_is_live ?m a"
    by (simp_all add: held_is_live_def new_conn_last)
  moreover have "p_enroll_token (heap ?i ! a) = Some code" using i(1) by (simp add: peer_new_def)
  ultimately have "daemon_step env m (Dialed a True) = announce_to env ?s a"
    by (simp add: dialed_def resolve_held_iff Let_def)
  moreover have "\<exists>rest. c_sent (conns (announce_to env ?s a) ! ?c) = c_sent (conns ?s ! ?c) @ rest"
    by (rule announce_to_appends)
  ultimately show ?thesis using s by auto
qed

subsection \<open>The issuer admits\<close>

lemma incoming_stranger:
  assumes wf: "pm_wf m" and new: "map_of (peers m) k = None"
  shows "\<exists>m2 s. daemon_step env m (Incoming k opens) = m2 \<and> pm_wf m2 \<and> peers m2 = peers m \<and> heap m2 = heap m \<and>
      pins_file m2 = pins_file m \<and> length (conns m2) = Suc (length (conns m)) \<and>
      conns m2 ! length (conns m) = \<lparr>c_remote = k, c_close_reason = None, c_opens_streams = opens, c_sent = []\<rparr> \<and>
      map_of (enrolling m2) (next_conn_id m) = Some \<lparr>en_conn = length (conns m), en_version = None\<rparr> \<and>
      s_tokens (pm_session m2) = s_tokens (pm_session m) \<and> s_grants (pm_session m2) = s_grants (pm_session m) \<and>
      early_of (pm_session m2) (next_conn_id m) = []"
proof -
  have "map_of (s_peers (pm_session m)) k = None" using member_iff_admitted [OF wf, of k] new by simp
  then have "daemon_step env m (Incoming k opens) =
      (new_conn m k opens)\<lparr>pm_session := (pm_session m)\<lparr>s_pending :=
           bput (next_conn_id m) \<lparr>early_ports = None\<rparr> (s_pending (pm_session m))\<rparr>,
         next_conn_id := next_conn_id m + 1,
         enrolling := AList.update (next_conn_id m) \<lparr>en_conn = length (conns m), en_version = None\<rparr> (enrolling m)\<rparr>"
    by (simp add: handle_connection_def Let_def on_inbound_def new_conn_def)
  then show ?thesis
    using pm_wf_daemon_step [OF wf, of env "Incoming k opens"]
    by (simp add: new_conn_def update_conv' early_of_def map_of_bput)
qed

text \<open>A claim with a live code, on a connection that has announced nothing early.\<close>

lemma claim_admits:
  assumes wf: "pm_wf m" and en: "map_of (enrolling m) i = Some en" "c_remote (conns m ! en_conn en) = k"
    and dec: "length data \<le> READ_LIMIT" "e_decode env data = Some (Enroll token v)"
    and w: "worth (s_tokens (pm_session m)) now token = Some cl" and early: "early_of (pm_session m) i = []"
  shows "\<exists>m'. daemon_step env m (EnrollmentStream i (Some data) now) = m' \<and>
      admission_of (pm_session m') k = Some Code \<and> label_of (pm_session m') k = claimed_name cl \<and>
      map_of (peers m') k = Some (length (heap m)) \<and>
      p_connection (heap m' ! length (heap m)) = Some (en_conn en) \<and>
      pins_file m' = snd (pins_add (e_pins env) (pins_file m) (e_show_key env k) (claimed_name cl))"
proof -
  obtain ts where ts: "claim (s_tokens (pm_session m)) token now = (Some cl, ts)"
    using claim_of_worth [OF core_wf [OF wf]] w by metis
  let ?en = "case v of Some x \<Rightarrow> en\<lparr>en_version := Some x\<rparr> | None \<Rightarrow> en"
  obtain s ps where u: "on_unadmitted (pm_session m) i k (Enroll token v) now =
      ([Admit i k False, PersistPin k (claimed_name cl), Announce k ps], s)"
    and s: "admission_of s k = Some Code" "label_of s k = claimed_name cl"
    using ts early by (simp add: on_unadmitted_def Let_def announce_def admission_of_def label_of_def map_of_bput)
  let ?m1 = "m\<lparr>enrolling := AList.update i ?en (enrolling m), pm_session := s\<rparr>"
  have ec: "en_conn ?en = en_conn en" "(case Enroll token v of Enroll _ (Some x) \<Rightarrow> en\<lparr>en_version := Some x\<rparr> | _ \<Rightarrow> en) = ?en"
    by (simp_all split: option.splits)
  have "handle_enrollment env m i (Some data) now =
      settle_enrollment env ?m1 i ?en [Admit i k False, PersistPin k (claimed_name cl), Announce k ps]"
    using en dec u by (simp add: handle_enrollment_def enrollment_stream_def Let_def split: option.splits)
  also have "\<dots> = apply_actions env (install_peer (?m1\<lparr>enrolling := AList.delete i (enrolling ?m1)\<rparr>) k
      ((peer_new k (label_of s k) True None (Some (en_conn en)))\<lparr>p_version := en_version ?en\<rparr>))
      (length (heap m)) [Admit i k False, PersistPin k (claimed_name cl), Announce k ps]"
    using en ec by (simp add: settle_enrollment_def Let_def is_refuse_def is_admit_def List.map_filter_def)
  finally show ?thesis
    using s by (simp add: apply_actions_def apply_action_def install_peer_def send_ports_def send_to_def
        send_message_def peer_new_def update_conv' nth_append split: option.splits)
qed

subsection \<open>Both sides\<close>

lemma holder_presents:
  assumes kc: "key_codec show_key (e_parse_key env)" and code: "code \<noteq> []" "graphic (last code)"
    and new: "map_of (peers m) k = None" and enc: "e_encode env (enroll_message code) = Some data"
  shows "\<exists>m1 rest. handle_request env m (ReqAccept (invite_to_string show_key \<lparr>inv_key = k, inv_code = code\<rparr>) lbl) rnd now =
      (RespOk, m1) \<and>
    c_sent (conns (daemon_step env m1 (Dialed (length (heap m)) True)) ! length (conns m)) = data # rest"
proof -
  obtain m1 where b: "handle_request env m (ReqAccept (invite_to_string show_key \<lparr>inv_key = k, inv_code = code\<rparr>) lbl) rnd now =
      (RespOk, m1)" "conns m1 = conns m" "heap m1 = heap m @ [peer_new k lbl True (Some code) None]"
    using accept_installs [OF kc code new] by blast
  moreover have "\<exists>rest. c_sent (conns (daemon_step env m1 (Dialed (length (heap m)) True)) ! length (conns m)) = data # rest"
    using dialed_presents [of m1 "length (heap m)" k lbl code env data] b enc by (simp add: nth_append)
  ultimately show ?thesis by blast
qed

lemma issuer_admits:
  assumes wf: "pm_wf m" and new: "map_of (peers m) k = None"
    and msg: "length data \<le> READ_LIMIT" "e_decode env data = Some (enroll_message (hex_bytes rnd))"
    and time: "t < now + secs 300"
    and inv: "handle_request env m (ReqInvite None name ports) rnd now = (RespInvite txt, m1)"
  defines "m3 \<equiv> daemon_run env m1 [Incoming k True, EnrollmentStream (next_conn_id m) (Some data) t]"
  shows "admission_of (pm_session m3) k = Some Code" "label_of (pm_session m3) k = name"
    "may m3 p k \<longleftrightarrow> p \<in> set ports \<or> may m p k"
    "pins_file m3 = snd (pins_add (e_pins env) (pins_file m) (e_show_key env k) name)"
proof -
  let ?code = "hex_bytes rnd" and ?i = "next_conn_id m" and ?m2 = "daemon_step env m1 (Incoming k True)"
  note m1 = invite_mints [OF inv]
  have wf1: "pm_wf m1" using pm_wf_request [OF wf, of env "ReqInvite None name ports" rnd now] inv by simp
  have same: "peers m1 = peers m" "next_conn_id m1 = ?i" "pins_file m1 = pins_file m" "may m1 p k = may m p k"
    using m1(2) by (simp_all add: mint_token_def split: prod.splits)
  have m2: "pm_wf ?m2" "pins_file ?m2 = pins_file m" "c_remote (conns ?m2 ! length (conns m1)) = k"
    "map_of (enrolling ?m2) ?i = Some \<lparr>en_conn = length (conns m1), en_version = None\<rparr>"
    "s_tokens (pm_session ?m2) = s_tokens (pm_session m1)" "s_grants (pm_session ?m2) = s_grants (pm_session m1)"
    "early_of (pm_session ?m2) ?i = []"
    using incoming_stranger [OF wf1, of k env True] new same(1-3) by auto
  have w: "worth (s_tokens (pm_session ?m2)) t ?code = Some \<lparr>claimed_name = name, claimed_ports = ports\<rparr>"
    using m1(3) [of t] time m2(5) by (simp add: TOKEN_TTL_def)
  have dec: "e_decode env data = Some (Enroll ?code (Some VERSION))" using msg(2) by (simp add: enroll_message_def)
  have m3: "m3 = daemon_step env ?m2 (EnrollmentStream ?i (Some data) t)" by (simp add: m3_def)
  show "admission_of (pm_session m3) k = Some Code" "label_of (pm_session m3) k = name"
    "pins_file m3 = snd (pins_add (e_pins env) (pins_file m) (e_show_key env k) name)"
    using claim_admits [OF m2(1,4) _ msg(1) dec w m2(7), of k] m2(2,3) unfolding m3 by auto
  show "may m3 p k \<longleftrightarrow> p \<in> set ports \<or> may m p k"
    using may_step [OF m2(1), of env "EnrollmentStream ?i (Some data) t" p k] m2(3,4,6) dec msg(1) w same(4)
    unfolding m3 by (simp add: daemon_grants_def)
qed

lemma restarted_admits:
  assumes "pins_load (e_pins env) pf = Inr ps" "\<exists>p \<in> set ps. e_parse_key env (pin_key p) = Some k"
  shows "\<exists>m. with_endpoint env me h pf sf ns nm = Inr m \<and> admission_of (pm_session m) k = Some Key"
proof -
  obtain m where m: "with_endpoint env me h pf sf ns nm = Inr m" using assms(1) by (simp add: with_endpoint_def)
  with restart_admissions [OF this assms(1), of k] assms(2) show ?thesis by auto
qed

end
