(* ===== verification/Bind_Steps.thy ===== *)
theory Bind_Steps
  imports Requests
begin

text \<open>
  Operations that other tasks interrupt. An operation on surfaces and bindings takes many steps, one
  per access to shared state; here it is a program of such steps, and running the program at once is
  the operation of \<open>Peer\<close>. Steps that are independent of a program can be moved behind it, whatever
  the interleaving.
\<close>

subsection \<open>Programs that can be interrupted\<close>

datatype 's prog = Done | Do "'s \<Rightarrow> 's \<times> 's prog"

primrec run_prog :: "'s prog \<Rightarrow> 's \<Rightarrow> 's" where
  "run_prog Done = (\<lambda>m. m)"
| "run_prog (Do f) = (\<lambda>m. (\<lambda>(m', k). k m') ((map_prod id run_prog \<circ> f) m))"

lemma run_Do: "f m = (m', p) \<Longrightarrow> run_prog (Do f) m = run_prog p m'"
  by simp

declare run_prog.simps(2) [simp del]

text \<open>The steps of a program with the given other steps, in their order, in between.\<close>

inductive interleaved :: "'s prog \<Rightarrow> ('s \<Rightarrow> 's) list \<Rightarrow> 's \<Rightarrow> 's \<Rightarrow> bool" where
  over: "interleaved Done [] m m"
| own: "f m = (m', p) \<Longrightarrow> interleaved p es m' m'' \<Longrightarrow> interleaved (Do f) es m m''"
| other: "interleaved p es (e m) m'' \<Longrightarrow> interleaved p (e # es) m m''"

text \<open>A step that is independent of everything a program does while the states satisfy \<open>I\<close>.\<close>

inductive independent :: "('s \<Rightarrow> bool) \<Rightarrow> ('s \<Rightarrow> 's) \<Rightarrow> 's prog \<Rightarrow> bool" for I e where
  independent_Done: "independent I e Done"
| independent_Do: "(\<And>m. I m \<Longrightarrow> f (e m) = map_prod e id (f m)) \<Longrightarrow> (\<And>m. I m \<Longrightarrow> I (fst (f m))) \<Longrightarrow>
    (\<And>m. I m \<Longrightarrow> independent I e (snd (f m))) \<Longrightarrow> independent I e (Do f)"

inductive_cases independent_DoE: "independent I e (Do f)"

lemma independent_run:
  assumes "independent I e p" "I m"
  shows "run_prog p (e m) = e (run_prog p m)"
  using assms
proof (induction arbitrary: m rule: independent.induct)
  case (independent_Do f)
  obtain m' p where f: "f m = (m', p)" by fastforce
  then have "f (e m) = (e m', p)" "I m'" using independent_Do.hyps(1,2) [of m] independent_Do.prems by auto
  then show ?case using independent_Do.IH [of m m'] independent_Do.prems f by (simp add: run_Do)
qed simp

text \<open>Reduction: steps that are independent of a program can be moved behind it.\<close>

lemma interleaved_reduces:
  assumes "interleaved p es m m'" "\<forall>e \<in> set es. independent I e p \<and> (\<forall>m. I m \<longrightarrow> I (e m))"
    "independent I (\<lambda>m. m) p" "I m"
  shows "m' = fold (\<lambda>e. e) es (run_prog p m)"
  using assms
proof (induction rule: interleaved.induct)
  case (own f m m1 p es m')
  have p: "independent I e p" if "independent I e (Do f)" for e
    using independent_DoE [OF that] own.prems(3) own.hyps(1) by (metis snd_conv)
  have "I m1" using independent_DoE [OF own.prems(2)] own.prems(3) own.hyps(1) by (metis fst_conv)
  then show ?case using own.IH own.prems p run_Do [of f m m1 p] own.hyps(1) by auto
next
  case (other p es e m m')
  then show ?case using independent_run [of I e p m] by auto
qed simp

text \<open>The two kinds of steps: an access that changes the state, and one that reads it.\<close>

definition act :: "('s \<Rightarrow> 's) \<Rightarrow> 's prog \<Rightarrow> 's prog" where
  "act f k = Do (\<lambda>m. (f m, k))"

definition get :: "('s \<Rightarrow> 'a) \<Rightarrow> ('a \<Rightarrow> 's prog) \<Rightarrow> 's prog" where
  "get f k = Do (\<lambda>m. (m, k (f m)))"

lemma run_steps [simp]:
  "run_prog (act f k) m = run_prog k (f m)" "run_prog (get g h) m = run_prog (h (g m)) m"
  by (simp_all add: act_def get_def run_prog.simps(2))

subsection \<open>State that a lock guards\<close>

text \<open>What a lock guards: the view that its holder reads and the writes it makes. A step is free of the lock
  if it leaves the view alone and commutes with the writes; a value is blind to the lock if no
  write changes it.\<close>

locale guarded =
  fixes ok :: "'s \<Rightarrow> bool" and view :: "'s \<Rightarrow> 'v" and put :: "'w \<Rightarrow> 's \<Rightarrow> 's"
  assumes ok_put: "ok m \<Longrightarrow> ok (put w m)"
begin

definition free :: "('s \<Rightarrow> 's) \<Rightarrow> bool" where
  "free e \<longleftrightarrow> (\<forall>m. ok m \<longrightarrow> ok (e m) \<and> view (e m) = view m \<and> (\<forall>w. e (put w m) = put w (e m)))"

definition blind :: "('s \<Rightarrow> 'a) \<Rightarrow> bool" where
  "blind x \<longleftrightarrow> (\<forall>m w. ok m \<longrightarrow> x (put w m) = x m)"

lemma free_id: "free (\<lambda>m. m)"
  by (simp add: free_def)

lemma free_comp: "free e \<Longrightarrow> free e' \<Longrightarrow> free (\<lambda>m. e' (e m))"
  by (simp add: free_def)

lemma free_choose: "blind x \<Longrightarrow> (\<And>v. free (e v)) \<Longrightarrow> free (\<lambda>m. e (x m) m)"
  by (simp add: free_def blind_def ok_put)

lemma free_fold: "(\<And>x. free (f x)) \<Longrightarrow> free (fold f xs)"
  by (induction xs) (auto simp: free_def)

lemma blind_map: "blind x \<Longrightarrow> blind (\<lambda>m. f (x m))"
  by (simp add: blind_def)

lemma blind_map2: "blind x \<Longrightarrow> blind y \<Longrightarrow> blind (\<lambda>m. f (x m) (y m))"
  by (simp add: blind_def)

text \<open>A step under the lock reads the view and writes one of the things the lock guards.\<close>

lemma independent_step:
  assumes "free e"
    and "\<And>m. ok m \<Longrightarrow> f m = (put (g (view m)) m, k (view m))"
    and "\<And>v. independent ok e (k v)"
  shows "independent ok e (Do f)"
proof (rule independent_Do)
  fix m
  assume ok: "ok m"
  then have e: "ok (e m)" "view (e m) = view m" "e (put w m) = put w (e m)" for w
    using assms(1) unfolding free_def by blast+
  show "f (e m) = map_prod e id (f m)" using assms(2) [OF ok] assms(2) [OF e(1)] e by simp
  show "ok (fst (f m))" using assms(2) [OF ok] ok ok_put by simp
  show "independent ok e (snd (f m))" using assms(2) [OF ok] assms(3) by simp
qed

lemma independent_act:
  assumes "free e" "independent ok e k" "\<And>m. ok m \<Longrightarrow> f m = put (g (view m)) m"
  shows "independent ok e (act f k)"
  unfolding act_def using assms by (intro independent_step [where g = g and k = "\<lambda>_. k"]) auto

text \<open>Reduction: whatever is free of the lock can be moved behind a program that holds it.\<close>

lemma reduction:
  assumes "interleaved p es m m'" "\<forall>e \<in> set es. free e" "\<And>e. free e \<Longrightarrow> independent ok e p" "ok m"
  shows "m' = fold (\<lambda>e. e) es (run_prog p m)"
  by (rule interleaved_reduces [OF assms(1) _ assms(3) [OF free_id] assms(4)]) (use assms(2,3) in \<open>auto simp: free_def\<close>)

end

subsection \<open>The operation on the ports of a peer, step by step\<close>

text \<open>\<open>release_binding\<close>: the entry is removed, its task awaited, the surface read, the stack told.\<close>

definition unlisten_at :: "ip_addr option \<Rightarrow> u16 \<Rightarrow> pm \<Rightarrow> pm" where
  "unlisten_at ip port m =
     (case (pm_netstack m, ip) of
        (Some ns, Some (V4 v4)) \<Rightarrow> m\<lparr>pm_netstack := Some (unlisten ns v4 port)\<rparr>
      | _ \<Rightarrow> m)"

definition release_prog :: "nat \<Rightarrow> u16 \<Rightarrow> pm prog \<Rightarrow> pm prog" where
  "release_prog a port k =
     act (\<lambda>m. set_peer m a (\<lambda>p. p\<lparr>p_bindings := AList.delete port (p_bindings p)\<rparr>))
       (get (\<lambda>m. map_option sf_ip (p_surface (heap m ! a))) (\<lambda>ip. act (unlisten_at ip port) k))"

primrec release_ports_prog :: "nat \<Rightarrow> u16 list \<Rightarrow> pm prog \<Rightarrow> pm prog" where
  "release_ports_prog a [] k = k"
| "release_ports_prog a (port # ports) k = release_prog a port (release_ports_prog a ports k)"

text \<open>\<open>bind_one\<close>: each attempt, with a sleep before it, and the recording are steps of their own.\<close>

primrec attempts_prog :: "nat \<Rightarrow> env \<Rightarrow> nat \<Rightarrow> ip_addr \<Rightarrow> u16 \<Rightarrow> pm prog \<Rightarrow> pm prog" where
  "attempts_prog 0 env a ip port k = k"
| "attempts_prog (Suc n) env a ip port k =
     Do (\<lambda>m. (m\<lparr>calls := calls m + 1\<rparr>,
              if e_bind env (calls m) ip port then act (\<lambda>m. record_binding m a port (Listener ip)) k
              else attempts_prog n env a ip port k))"

definition listen_at :: "ipv4 \<Rightarrow> u16 \<Rightarrow> pm \<Rightarrow> pm" where
  "listen_at v4 port m = m\<lparr>pm_netstack := map_option (\<lambda>ns. listen ns v4 port) (pm_netstack m)\<rparr>"

definition bind_prog :: "env \<Rightarrow> nat \<Rightarrow> ip_addr \<Rightarrow> u16 \<Rightarrow> pm prog \<Rightarrow> pm prog" where
  "bind_prog env a ip port k =
     get (\<lambda>m. pm_netstack m \<noteq> None)
       (\<lambda>tun. case ip of
          V4 v4 \<Rightarrow>
            if tun then act (listen_at v4 port) (act (\<lambda>m. record_binding m a port TunPlaceholder) k)
            else attempts_prog BIND_ATTEMPTS env a ip port k
        | V6 _ \<Rightarrow> attempts_prog BIND_ATTEMPTS env a ip port k)"

primrec bind_ports_prog :: "env \<Rightarrow> nat \<Rightarrow> ip_addr \<Rightarrow> u16 list \<Rightarrow> pm prog \<Rightarrow> pm prog" where
  "bind_ports_prog env a ip [] k = k"
| "bind_ports_prog env a ip (port # ports) k =
     get (\<lambda>m. map_of (p_bindings (heap m ! a)) port \<noteq> None)
       (\<lambda>bound. if bound then bind_ports_prog env a ip ports k
                else bind_prog env a ip port (bind_ports_prog env a ip ports k))"

text \<open>\<open>surface_ip\<close>. The addresses in use are one read: they are written only with the lock held.\<close>

definition surface_prog :: "env \<Rightarrow> nat \<Rightarrow> u16 list \<Rightarrow> (ip_addr option \<Rightarrow> pm prog) \<Rightarrow> pm prog" where
  "surface_prog env a ports k =
     get (\<lambda>m. p_surface (heap m ! a))
       (\<lambda>s. case s of
          Some s \<Rightarrow> k (Some (sf_ip s))
        | None \<Rightarrow>
            if ports = [] then k None
            else get (\<lambda>m. allocate (projected_ips m) (surface_base m))
              (\<lambda>r. case r of
                 Inl _ \<Rightarrow> k None
               | Inr ip \<Rightarrow>
                   get (\<lambda>m. Some (case p_label (heap m ! a) of
                                    Some l \<Rightarrow> l
                                  | None \<Rightarrow> default_name (e_show_key env) (p_endpoint_id (heap m ! a))))
                     (\<lambda>name. Do (\<lambda>m.
                        (snd (claim_addr env m ip name),
                         case fst (claim_addr env m ip name) of
                           Inl _ \<Rightarrow> k None
                         | Inr _ \<Rightarrow>
                             act (\<lambda>m. set_peer m a (\<lambda>p. p\<lparr>p_surface := Some \<lparr>sf_ip = ip, sf_name = name\<rparr>\<rparr>))
                               (act (\<lambda>m. persist_surface env m (p_endpoint_id (heap m ! a)) ip name)
                                 (k (Some ip))))))))"

definition update_ports_prog :: "env \<Rightarrow> nat \<Rightarrow> u16 list \<Rightarrow> pm prog" where
  "update_ports_prog env a new_ports =
     get (\<lambda>m. p_exposed_ports (heap m ! a))
       (\<lambda>old_ports. release_ports_prog a (filter (\<lambda>port. port \<notin> set new_ports) old_ports)
         (surface_prog env a new_ports
           (\<lambda>ip. let record = act (\<lambda>m. set_peer m a (\<lambda>p. p\<lparr>p_exposed_ports := new_ports\<rparr>)) Done
                 in case ip of
                      None \<Rightarrow> record
                    | Some ip \<Rightarrow> bind_ports_prog env a ip new_ports record)))"

subsection \<open>Projecting and unprojecting, step by step\<close>

text \<open>Both from the point where the peer was found and the lock is held.\<close>

definition unclaim_prog :: "env \<Rightarrow> ip_addr \<Rightarrow> (unit result \<Rightarrow> pm prog) \<Rightarrow> pm prog" where
  "unclaim_prog env ip k = Do (\<lambda>m. (snd (unclaim_addr env m ip), k (fst (unclaim_addr env m ip))))"

definition clear_surface_prog :: "env \<Rightarrow> nat \<Rightarrow> ip_addr \<Rightarrow> (unit result \<Rightarrow> pm prog) \<Rightarrow> pm prog" where
  "clear_surface_prog env a ip k =
     get (\<lambda>m. keys (p_bindings (heap m ! a)))
       (\<lambda>held. release_ports_prog a held
         (act (\<lambda>m. set_peer m a (\<lambda>p. p\<lparr>p_surface := None\<rparr>)) (unclaim_prog env ip k)))"

definition place_prog :: "env \<Rightarrow> endpoint_id \<Rightarrow> nat \<Rightarrow> ip_addr \<Rightarrow> string option \<Rightarrow> pm prog" where
  "place_prog env key a ip name =
     Do (\<lambda>m. (snd (claim_addr env m ip name),
       case fst (claim_addr env m ip name) of
         Inl _ \<Rightarrow> Done
       | Inr _ \<Rightarrow>
           act (\<lambda>m. set_peer m a (\<lambda>p. p\<lparr>p_surface := Some \<lparr>sf_ip = ip, sf_name = name\<rparr>\<rparr>))
             (act (\<lambda>m. persist_surface env m key ip name)
               (get (\<lambda>m. p_exposed_ports (heap m ! a)) (\<lambda>ports. bind_ports_prog env a ip ports Done)))))"

definition project_prog :: "env \<Rightarrow> endpoint_id \<Rightarrow> nat \<Rightarrow> ip_addr option \<Rightarrow> string option \<Rightarrow> pm prog" where
  "project_prog env key a ip name =
     (let settle = get (\<lambda>m. p_label (heap m ! a))
            (\<lambda>lbl. let name' = (case name of Some n \<Rightarrow> Some n | None \<Rightarrow> lbl)
                   in case ip of
                        Some addr \<Rightarrow> place_prog env key a addr name'
                      | None \<Rightarrow> get (\<lambda>m. allocate (projected_ips m) (surface_base m))
                          (\<lambda>r. case r of Inl _ \<Rightarrow> Done | Inr addr \<Rightarrow> place_prog env key a addr name'))
      in get (\<lambda>m. p_surface (heap m ! a))
           (\<lambda>old. case old of None \<Rightarrow> settle | Some s \<Rightarrow> clear_surface_prog env a (sf_ip s) (\<lambda>_. settle)))"

definition unproject_prog :: "env \<Rightarrow> endpoint_id \<Rightarrow> nat \<Rightarrow> pm prog" where
  "unproject_prog env key a =
     get (\<lambda>m. p_surface (heap m ! a))
       (\<lambda>s. case s of
          None \<Rightarrow> Done
        | Some s \<Rightarrow> clear_surface_prog env a (sf_ip s)
            (\<lambda>r. case r of
               Inl _ \<Rightarrow> Done
             | Inr _ \<Rightarrow> act (\<lambda>m. m\<lparr>surfaces_file :=
                 snd (surfaces_remove (e_surfaces env) (surfaces_file m) (e_show_key env key))\<rparr>) Done))"

subsection \<open>Run at once, it is the operation\<close>

lemma run_release:
  assumes "a < length (heap m)"
  shows "run_prog (release_prog a port k) m = run_prog k (release_binding m a port)"
  by (simp add: release_prog_def release_binding_def unlisten_at_def Let_def split: option.splits ip_addr.splits)

lemma run_releases:
  assumes "a < length (heap m)"
  shows "run_prog (release_ports_prog a (filter P ports) k) m =
    run_prog k (fold (\<lambda>port m. if P port then release_binding m a port else m) ports m)"
  using assms by (induction ports arbitrary: m) (simp_all add: run_release)

lemma run_attempts:
  "run_prog (attempts_prog n env a ip port k) m =
     (case bind_loop n env m ip port of
        (True, m') \<Rightarrow> run_prog k (record_binding m' a port (Listener ip))
      | (False, m') \<Rightarrow> run_prog k m')"
  by (induction n arbitrary: m) (simp_all add: run_prog.simps(2))

lemma run_bind: "run_prog (bind_prog env a ip port k) m = run_prog k (bind_one env m a ip port)"
  by (auto simp: bind_prog_def bind_one_def run_attempts listen_at_def split: option.splits ip_addr.splits prod.splits bool.splits)

lemma run_binds: "run_prog (bind_ports_prog env a ip ports k) m = run_prog k (bind_missing env a ip ports m)"
  by (induction ports arbitrary: m) (simp_all add: run_bind bind_missing_def)

lemma run_surface:
  assumes "a < length (heap m)"
  shows "run_prog (surface_prog env a ports k) m = run_prog (k (fst (surface_ip env m a ports))) (snd (surface_ip env m a ports))"
proof -
  have "p_endpoint_id (heap (set_peer (snd (claim_addr env m ip name)) a (\<lambda>p. p\<lparr>p_surface := s\<rparr>)) ! a) =
      p_endpoint_id (heap m ! a)" for ip name s
    using assms by (simp add: set_peer_nth claim_addr_heap)
  then show ?thesis
    by (auto simp: surface_prog_def surface_ip_def run_prog.simps(2) Let_def split: option.splits sum.splits prod.splits)
qed

lemma run_update_ports:
  assumes "a < length (heap m)"
  shows "run_prog (update_ports_prog env a ports) m = update_peer_ports env m a ports"
proof -
  let ?m = "fold (\<lambda>port m. if port \<notin> set ports then release_binding m a port else m) (p_exposed_ports (heap m ! a)) m"
  have f: "?m = fold (\<lambda>port m. if port \<in> set ports then m else release_binding m a port) (p_exposed_ports (heap m ! a)) m"
    by (rule arg_cong [where f = "\<lambda>f. fold f _ _"]) (auto intro!: ext)
  have "touches a m ?m" by (rule touches_fold) (simp add: touches_release)
  then have "a < length (heap ?m)" using touches_keeps(11) assms by simp
  then show ?thesis
    unfolding update_ports_prog_def update_peer_ports_def Let_def
    by (simp add: run_releases [OF assms] run_surface run_binds f [symmetric] split: option.splits prod.splits)
qed

lemma run_clear_surface:
  assumes "a < length (heap m)"
  shows "run_prog (clear_surface_prog env a ip k) m =
    (case unclaim_addr env (set_peer (release_all m a) a (\<lambda>p. p\<lparr>p_surface := None\<rparr>)) ip of (r, m') \<Rightarrow> run_prog (k r) m')"
  using run_releases [OF assms, of "\<lambda>_. True"]
  by (simp add: clear_surface_prog_def unclaim_prog_def release_all_def run_prog.simps(2) split: prod.splits)

lemma run_place: "run_prog (place_prog env key a ip name) m = snd (place_surface env m key a ip name)"
  by (auto simp: place_prog_def place_surface_def run_prog.simps(2) run_binds Let_def split: prod.splits sum.splits)

lemma run_project:
  assumes "a < length (heap m)" "resolve_peer env m peer_ref = Some k" "map_of (peers m) k = Some a"
  shows "run_prog (project_prog env k a ip name) m = snd (project env m peer_ref ip name)"
proof -
  have "run_prog (clear_surface_prog env a (sf_ip s) (\<lambda>_. p)) m = run_prog p (teardown_surface env m a)"
    if "p_surface (heap m ! a) = Some s" for s p
  proof -
    have "p_surface (heap (release_all m a) ! a) = Some s" using that by (simp add: peer_release_all [OF assms(1)])
    then show ?thesis
      using that by (simp add: run_clear_surface [OF assms(1)] teardown_surface_def drop_surface_def split: prod.splits)
  qed
  then show ?thesis
    using assms(2,3)
    by (auto simp: project_prog_def project_def Let_def run_place teardown_surface_def [of env m a] split: option.splits sum.splits)
qed

lemma run_unproject:
  assumes "a < length (heap m)" "resolve_peer env m peer_ref = Some k" "map_of (peers m) k = Some a"
  shows "run_prog (unproject_prog env k a) m = snd (unproject env m peer_ref)"
  using assms(2,3)
  by (auto simp: unproject_prog_def unproject_def run_clear_surface [OF assms(1)] split: option.splits sum.splits prod.splits)

end
