(* ===== verification/Lock_Free.thy ===== *)
theory Lock_Free
  imports Bind_Steps
begin

text \<open>
  What runs without \<open>bind_lock\<close> of \<open>src/peer.rs\<close>: the daemon's requests, connections and streams
  that do not take it leave everything it guards alone, and commute with every write that is made
  under it.
\<close>

subsection \<open>What runs without the lock\<close>

text \<open>What an operation under the lock reads and writes: the surface, the bindings and the ports of its
  peer, the addresses in use, the backend, the surface file and the outcomes of system calls.\<close>

definition objects_ok :: "nat \<Rightarrow> pm \<Rightarrow> bool" where
  "objects_ok a m \<longleftrightarrow> a < length (heap m) \<and> (\<forall>e \<in> set (peers m). snd e < length (heap m))"

definition lock_view :: "nat \<Rightarrow> pm \<Rightarrow> (surface option \<times> (u16 \<times> binding) list \<times> u16 list \<times> string option \<times> endpoint_id) \<times>
    ip_addr list \<times> netstack option \<times> state_file \<times> nat" where
  "lock_view a m =
     ((p_surface (heap m ! a), p_bindings (heap m ! a), p_exposed_ports (heap m ! a), p_label (heap m ! a), p_endpoint_id (heap m ! a)),
      projected_ips m, pm_netstack m, surfaces_file m, calls m)"

datatype lock_write =
    SetBindings "(u16 \<times> binding) list"
  | SetSurface "surface option"
  | SetExposed "u16 list"
  | SetBackend "netstack option"
  | SetFile state_file
  | SetCalls nat

fun do_write :: "nat \<Rightarrow> lock_write \<Rightarrow> pm \<Rightarrow> pm" where
  "do_write a (SetBindings bs) m = set_peer m a (\<lambda>p. p\<lparr>p_bindings := bs\<rparr>)"
| "do_write a (SetSurface s) m = set_peer m a (\<lambda>p. p\<lparr>p_surface := s\<rparr>)"
| "do_write a (SetExposed ps) m = set_peer m a (\<lambda>p. p\<lparr>p_exposed_ports := ps\<rparr>)"
| "do_write a (SetBackend ns) m = m\<lparr>pm_netstack := ns\<rparr>"
| "do_write a (SetFile f) m = m\<lparr>surfaces_file := f\<rparr>"
| "do_write a (SetCalls n) m = m\<lparr>calls := n\<rparr>"

lemma objects_ok_write [simp]: "objects_ok a m \<Longrightarrow> objects_ok a (do_write a w m)"
  by (cases w) (auto simp: objects_ok_def set_peer_def)

interpretation bl: guarded "objects_ok a" "lock_view a" "do_write a" for a
  by unfold_locales simp

abbreviation lock_free :: "nat \<Rightarrow> (pm \<Rightarrow> pm) \<Rightarrow> bool" where
  "lock_free a \<equiv> bl.free a"

abbreviation lock_blind :: "nat \<Rightarrow> (pm \<Rightarrow> 'a) \<Rightarrow> bool" where
  "lock_blind a \<equiv> bl.blind a"

lemmas lock_free_def = bl.free_def
lemmas lock_blind_def = bl.blind_def
lemmas lock_free_id = bl.free_id
lemmas lock_free_comp = bl.free_comp
lemmas lock_free_choose = bl.free_choose
lemmas lock_free_fold = bl.free_fold
lemmas lock_blind_map = bl.blind_map
lemmas lock_blind_map2 = bl.blind_map2

text \<open>The primitive steps: fields the lock does not guard, fields of a peer, a new peer.\<close>

lemma lock_free_fields:
  "lock_free a (\<lambda>m. m\<lparr>conns := g (conns m)\<rparr>)" "lock_free a (\<lambda>m. m\<lparr>pm_session := s\<rparr>)"
  "lock_free a (\<lambda>m. m\<lparr>next_conn_id := n\<rparr>)" "lock_free a (\<lambda>m. m\<lparr>enrolling := en\<rparr>)"
  "lock_free a (\<lambda>m. m\<lparr>pins_file := pf\<rparr>)"
proof -
  have w: "(do_write a w m)\<lparr>conns := g (conns (do_write a w m))\<rparr> = do_write a w (m\<lparr>conns := g (conns m)\<rparr>)"
    "(do_write a w m)\<lparr>pm_session := s\<rparr> = do_write a w (m\<lparr>pm_session := s\<rparr>)"
    "(do_write a w m)\<lparr>next_conn_id := n\<rparr> = do_write a w (m\<lparr>next_conn_id := n\<rparr>)"
    "(do_write a w m)\<lparr>enrolling := en\<rparr> = do_write a w (m\<lparr>enrolling := en\<rparr>)"
    "(do_write a w m)\<lparr>pins_file := pf\<rparr> = do_write a w (m\<lparr>pins_file := pf\<rparr>)" for w m
    by (cases w; simp add: set_peer_def)+
  show "lock_free a (\<lambda>m. m\<lparr>conns := g (conns m)\<rparr>)" "lock_free a (\<lambda>m. m\<lparr>pm_session := s\<rparr>)"
    "lock_free a (\<lambda>m. m\<lparr>next_conn_id := n\<rparr>)" "lock_free a (\<lambda>m. m\<lparr>enrolling := en\<rparr>)"
    "lock_free a (\<lambda>m. m\<lparr>pins_file := pf\<rparr>)"
    unfolding lock_free_def by (simp_all add: w objects_ok_def lock_view_def projected_ips_def)
qed

definition unguarded :: "(peer \<Rightarrow> peer) \<Rightarrow> bool" where
  "unguarded f \<longleftrightarrow>
     (\<forall>p bs s ps. f (p\<lparr>p_bindings := bs\<rparr>) = (f p)\<lparr>p_bindings := bs\<rparr> \<and> f (p\<lparr>p_surface := s\<rparr>) = (f p)\<lparr>p_surface := s\<rparr> \<and>
        f (p\<lparr>p_exposed_ports := ps\<rparr>) = (f p)\<lparr>p_exposed_ports := ps\<rparr> \<and> p_bindings (f p) = p_bindings p \<and>
        p_surface (f p) = p_surface p \<and> p_exposed_ports (f p) = p_exposed_ports p \<and> p_label (f p) = p_label p \<and>
        p_endpoint_id (f p) = p_endpoint_id p)"

lemma set_peer_at:
  "heap (set_peer m b f) ! i = (if i = b \<and> b < length (heap m) then f (heap m ! b) else heap m ! i)"
  by (cases "b < length (heap m)") (auto simp: set_peer_def nth_list_update list_update_beyond)

lemma projected_unguarded:
  assumes "unguarded f"
  shows "projected_ips (set_peer m b f) = projected_ips m"
proof -
  have "p_surface (heap (set_peer m b f) ! i) = p_surface (heap m ! i)" for i
    using assms by (simp add: set_peer_at unguarded_def)
  then show ?thesis unfolding projected_ips_def by (simp add: set_peer_def)
qed

lemma unguarded_write:
  assumes "unguarded f" "a < length (heap m)"
  shows "set_peer (do_write a w m) b f = do_write a w (set_peer m b f)"
  using assms
  by (cases w; cases "a = b") (auto simp: set_peer_def unguarded_def list_update_swap)

lemma lock_free_set_peer:
  assumes "unguarded f"
  shows "lock_free a (\<lambda>m. set_peer m b f)"
proof -
  have "lock_view a (set_peer m b f) = lock_view a m" for m
    using assms projected_unguarded [OF assms, of m b]
    by (simp add: lock_view_def set_peer_at unguarded_def) (simp add: set_peer_def)
  then show ?thesis
    using unguarded_write [OF assms] by (auto simp: lock_free_def objects_ok_def set_peer_def)
qed

lemma update_new: "map_of xs k = None \<Longrightarrow> AList.update k v xs = xs @ [(k, v)]"
  by (induction xs) (auto split: if_splits)

lemma lock_free_install:
  assumes "p_surface p = None"
  shows "lock_free a (\<lambda>m. if map_of (peers m) key = None then install_peer m key p else m)"
proof -
  have "install_peer (do_write a w m) key p = do_write a w (install_peer m key p)" if "objects_ok a m" for m w
    using that by (cases w) (auto simp: install_peer_def set_peer_def objects_ok_def nth_append list_update_append)
  moreover have "peers (do_write a w m) = peers m" for w m by (cases w) (simp_all add: set_peer_def)
  moreover have "lock_view a (install_peer m key p) = lock_view a m"
    if "objects_ok a m" "map_of (peers m) key = None" for m
  proof -
    have "map (\<lambda>e. case p_surface ((heap m @ [p]) ! snd e) of None \<Rightarrow> [] | Some s \<Rightarrow> [sf_ip s]) (peers m) =
        map (\<lambda>e. case p_surface (heap m ! snd e) of None \<Rightarrow> [] | Some s \<Rightarrow> [sf_ip s]) (peers m)"
      using that by (intro map_cong) (auto simp: objects_ok_def nth_append)
    then have "projected_ips (install_peer m key p) = projected_ips m"
      using that assms by (simp add: projected_ips_def install_peer_def update_new cong: map_cong)
    then show ?thesis
      using that by (simp add: lock_view_def install_peer_def objects_ok_def nth_append)
  qed
  moreover have "objects_ok a (install_peer m key p)" if "objects_ok a m" "map_of (peers m) key = None" for m
    using that by (auto simp: objects_ok_def install_peer_def update_new)
  ultimately show ?thesis by (auto simp: lock_free_def)
qed

lemma lock_blind_reads:
  "lock_blind a conns" "lock_blind a peers" "lock_blind a pm_session" "lock_blind a our_id" "lock_blind a next_conn_id"
  "lock_blind a pins_file" "lock_blind a enrolling"
proof -
  have "conns (do_write a w m) = conns m \<and> peers (do_write a w m) = peers m \<and> pm_session (do_write a w m) = pm_session m \<and>
      our_id (do_write a w m) = our_id m \<and> next_conn_id (do_write a w m) = next_conn_id m \<and>
      pins_file (do_write a w m) = pins_file m \<and> enrolling (do_write a w m) = enrolling m" for w m
    by (cases w) (simp_all add: set_peer_def)
  then show "lock_blind a conns" "lock_blind a peers" "lock_blind a pm_session" "lock_blind a our_id" "lock_blind a next_conn_id"
    "lock_blind a pins_file" "lock_blind a enrolling"
    by (simp_all add: lock_blind_def)
qed

lemma lock_blind_peer:
  "lock_blind a (\<lambda>m. p_connection (heap m ! b))" "lock_blind a (\<lambda>m. p_endpoint_id (heap m ! b))"
  "lock_blind a (\<lambda>m. p_conn_dialed_by_us (heap m ! b))" "lock_blind a (\<lambda>m. p_enroll_token (heap m ! b))"
proof -
  have "p_connection (heap (do_write a w m) ! b) = p_connection (heap m ! b) \<and>
      p_endpoint_id (heap (do_write a w m) ! b) = p_endpoint_id (heap m ! b) \<and>
      p_conn_dialed_by_us (heap (do_write a w m) ! b) = p_conn_dialed_by_us (heap m ! b) \<and>
      p_enroll_token (heap (do_write a w m) ! b) = p_enroll_token (heap m ! b)" for w m
    by (cases w) (simp_all add: set_peer_at)
  then show "lock_blind a (\<lambda>m. p_connection (heap m ! b))" "lock_blind a (\<lambda>m. p_endpoint_id (heap m ! b))"
    "lock_blind a (\<lambda>m. p_conn_dialed_by_us (heap m ! b))" "lock_blind a (\<lambda>m. p_enroll_token (heap m ! b))"
    by (simp_all add: lock_blind_def)
qed

subsection \<open>The operations that do not take the lock\<close>

lemma lock_free_close: "lock_free a (\<lambda>m. close_conn m c reason)"
  unfolding close_conn_def by (rule lock_free_fields)

lemma lock_free_message: "lock_free a (\<lambda>m. snd (send_message env m c msg))"
proof -
  let ?g = "\<lambda>cs. case e_encode env msg of
      None \<Rightarrow> cs
    | Some data \<Rightarrow> if c_opens_streams (cs ! c) \<and> c_close_reason (cs ! c) = None
        then cs[c := (cs ! c)\<lparr>c_sent := c_sent (cs ! c) @ [data]\<rparr>] else cs"
  have "(\<lambda>m. snd (send_message env m c msg)) = (\<lambda>m. m\<lparr>conns := ?g (conns m)\<rparr>)"
    by (rule ext) (simp add: send_message_def split: option.splits)
  then show ?thesis using lock_free_fields(1) [where g = ?g] by (simp only:)
qed

lemma lock_free_send: "lock_free a (\<lambda>m. send_to env m b msg)"
proof -
  let ?e = "\<lambda>v m. case v of None \<Rightarrow> m | Some c \<Rightarrow> snd (send_message env m c msg)"
  have "lock_free a (?e v)" for v by (cases v) (simp_all add: lock_free_id lock_free_message)
  then show ?thesis unfolding send_to_def by (rule lock_free_choose [OF lock_blind_peer(1), where e = ?e])
qed

lemma lock_free_announce: "lock_free a (\<lambda>m. announce_to env m b)"
proof -
  let ?x = "\<lambda>m. ports_for (s_grants (pm_session m)) (p_endpoint_id (heap m ! b))"
  have "lock_blind a ?x"
    by (rule lock_blind_map2 [OF lock_blind_reads(3) lock_blind_peer(2), where f = "\<lambda>s. ports_for (s_grants s)"])
  then have "lock_free a (\<lambda>m. send_ports env m b (?x m))"
    unfolding send_ports_def by (rule lock_free_choose) (rule lock_free_send)
  then show ?thesis by (simp add: announce_to_def announce_def)
qed

lemma lock_free_broadcast: "lock_free a (broadcast_grants env)"
proof -
  have "lock_free a (fold (\<lambda>e m. announce_to env m (snd e)) es)" for es :: "(endpoint_id \<times> nat) list"
    by (rule lock_free_fold) (rule lock_free_announce)
  then show ?thesis
    using lock_free_choose [OF lock_blind_reads(2), where e = "fold (\<lambda>e m. announce_to env m (snd e))"]
    by (simp add: broadcast_grants_def [abs_def])
qed

lemma lock_free_session: "lock_free a (\<lambda>m. m\<lparr>pm_session := f (pm_session m)\<rparr>)"
  by (rule lock_free_choose [OF lock_blind_reads(3), where e = "\<lambda>v m. m\<lparr>pm_session := f v\<rparr>"]) (rule lock_free_fields)

lemma lock_free_grants: "lock_free a (\<lambda>m. d_expose env m port ks)" "lock_free a (\<lambda>m. d_unexpose env m port t)"
  unfolding d_expose_def d_unexpose_def
  by (rule lock_free_comp [OF lock_free_session lock_free_broadcast])+

lemma lock_free_add:
  assumes "p_surface p = None"
  shows "lock_free a (\<lambda>m. if map_of (peers m) key = None
    then install_peer (m\<lparr>pm_session := f (pm_session m)\<rparr>) key p else m)"
proof -
  let ?i = "\<lambda>m. if map_of (peers m) key = None then install_peer m key p else m"
  let ?e = "\<lambda>ps m. if map_of ps key = None then ?i (m\<lparr>pm_session := f (pm_session m)\<rparr>) else m"
  have "lock_free a (?e ps)" for ps
    using lock_free_comp [OF lock_free_session lock_free_install [OF assms]] by (cases "map_of ps key") (simp_all add: lock_free_id)
  then have "lock_free a (\<lambda>m. ?e (peers m) m)" by (rule lock_free_choose [OF lock_blind_reads(2)])
  moreover have "(\<lambda>m. ?e (peers m) m) = (\<lambda>m. if map_of (peers m) key = None
    then install_peer (m\<lparr>pm_session := f (pm_session m)\<rparr>) key p else m)" by auto
  ultimately show ?thesis by (simp only:)
qed

lemma lock_free_add_peer: "lock_free a (\<lambda>m. snd (add_peer m key name code))"
proof -
  have "(\<lambda>m. snd (add_peer m key name code)) = (\<lambda>m. if map_of (peers m) key = None
      then install_peer (m\<lparr>pm_session := snd (admit_known (pm_session m) key name Added)\<rparr>) key (peer_new key name True code None)
      else m)"
    by (auto simp: add_peer_def)
  then show ?thesis using lock_free_add [of "peer_new key name True code None"] by (simp add: peer_new_def)
qed

lemma lock_free_add_pinned: "lock_free a (\<lambda>m. snd (add_pinned env m key name))"
proof (cases "e_parse_key env key")
  case (Some k)
  have "(\<lambda>m. snd (add_pinned env m key name)) = (\<lambda>m. if map_of (peers m) k = None
      then install_peer (m\<lparr>pm_session := snd (admit_known (pm_session m) k name Key)\<rparr>) k (peer_new k name False None None)
      else m)"
    using Some by (auto simp: add_pinned_def)
  then show ?thesis using lock_free_add [of "peer_new k name False None None"] by (simp add: peer_new_def)
qed (simp add: add_pinned_def lock_free_id)

lemma lock_free_pins: "lock_free a (\<lambda>m. m\<lparr>pins_file := f (pins_file m)\<rparr>)"
  by (rule lock_free_choose [OF lock_blind_reads(6), where e = "\<lambda>v m. m\<lparr>pins_file := f v\<rparr>"]) (rule lock_free_fields)

lemma pin_peer_steps:
  assumes "e_parse_key env key = Some k"
  shows "pin_peer env m key name = (fst (pins_add (e_pins env) (pins_file m) key name),
    (\<lambda>m. m\<lparr>pins_file := snd (pins_add (e_pins env) (pins_file m) key name)\<rparr>) (snd (add_pinned env m key name)))"
  using assms by (simp add: pin_peer_def add_pinned_def install_peer_def split: prod.splits)

lemma lock_free_invite: "lock_free a (\<lambda>m. snd (d_invite env m key name ports rnd now))"
proof (cases key)
  case None
  have "(\<lambda>m. snd (d_invite env m key name ports rnd now)) =
      (\<lambda>m. m\<lparr>pm_session := (\<lambda>s. snd (mint_token s name ports rnd now)) (pm_session m)\<rparr>)"
    using None by (auto simp: d_invite_def split: prod.splits)
  then show ?thesis using lock_free_session [of a "\<lambda>s. snd (mint_token s name ports rnd now)"] by (simp only:)
next
  case k: (Some key)
  show ?thesis
  proof (cases "e_parse_key env key")
    case None
    then show ?thesis using k by (simp add: d_invite_def pin_peer_def add_pinned_def lock_free_id)
  next
    case (Some g)
    let ?pin = "\<lambda>m. (\<lambda>m. m\<lparr>pins_file := snd (pins_add (e_pins env) (pins_file m) key name)\<rparr>) (snd (add_pinned env m key name))"
    let ?e = "\<lambda>pf m. case fst (pins_add (e_pins env) pf key name) of
        Inl _ \<Rightarrow> ?pin m | Inr _ \<Rightarrow> fold (\<lambda>port m. d_expose env m port [g]) ports (?pin m)"
    have pin: "lock_free a ?pin" by (rule lock_free_comp [OF lock_free_add_pinned lock_free_pins])
    moreover have "lock_free a (\<lambda>m. fold (\<lambda>port m. d_expose env m port [g]) ports (?pin m))"
      by (rule lock_free_comp [OF pin]) (rule lock_free_fold, rule lock_free_grants)
    ultimately have "lock_free a (?e pf)" for pf by (cases "fst (pins_add (e_pins env) pf key name)") simp_all
    then have "lock_free a (\<lambda>m. ?e (pins_file m) m)" by (rule lock_free_choose [OF lock_blind_reads(6)])
    moreover have "(\<lambda>m. snd (d_invite env m (Some key) name ports rnd now)) = (\<lambda>m. ?e (pins_file m) m)"
      by (rule ext) (simp add: d_invite_def pin_peer_steps [OF Some] Some split: sum.splits)
    ultimately show ?thesis using k by (simp only:)
  qed
qed

text \<open>The actions for an inbound connection of a peer: no ports to apply, so no lock.\<close>

lemma lock_free_action:
  assumes "\<forall>k ports. x \<noteq> ApplyPorts k ports"
  shows "lock_free a (apply_action env b x)"
proof (cases x)
  case (Announce k ports)
  then show ?thesis unfolding apply_action_def send_ports_def using lock_free_send [of a env b "ExposedPorts ports"] by simp
next
  case (PersistPin k l)
  then show ?thesis using lock_free_pins [of a "\<lambda>f. snd (pins_add (e_pins env) f (e_show_key env k) l)"]
    by (simp add: apply_action_def [abs_def])
next
  case (DropPin k)
  then show ?thesis using lock_free_pins [of a "\<lambda>f. snd (pins_remove (e_pins env) f (e_show_key env k))"]
    by (simp add: apply_action_def [abs_def])
qed (use assms in \<open>simp_all add: apply_action_def [abs_def] lock_free_id\<close>)

lemma inbound_applies_nothing: "ApplyPorts k ports \<notin> set (fst (on_inbound s c r))"
  by (simp add: on_inbound_def announce_def)

lemma lock_free_actions:
  assumes "\<forall>k ports. ApplyPorts k ports \<notin> set acts"
  shows "lock_free a (\<lambda>m. apply_actions env m b acts)"
  unfolding apply_actions_def using assms
proof (induction acts)
  case (Cons x acts)
  then have "\<forall>k ports. x \<noteq> ApplyPorts k ports" "lock_free a (fold (apply_action env b) acts)" by auto
  then show ?case using lock_free_comp [OF lock_free_action] by simp
qed (simp add: lock_free_id id_def)

lemma lock_free_install_connection: "lock_free a (\<lambda>m. install_connection m b c by_us)"
proof -
  let ?e = "\<lambda>v m. case v of None \<Rightarrow> m | Some old \<Rightarrow> close_conn m old ''replaced''"
  have "lock_free a (?e v)" for v by (cases v) (simp_all add: lock_free_id lock_free_close)
  then have "lock_free a (\<lambda>m. ?e (p_connection (heap m ! b)) m)" by (rule lock_free_choose [OF lock_blind_peer(1)])
  then show ?thesis
    unfolding install_connection_def Let_def by (rule lock_free_comp) (rule lock_free_set_peer, simp add: unguarded_def)
qed

lemma lock_blind_live: "lock_blind a (\<lambda>m. held_is_live m b)"
  unfolding held_is_live_def
  by (rule lock_blind_map2 [OF lock_blind_peer(1) lock_blind_reads(1),
        where f = "\<lambda>v cs. case v of None \<Rightarrow> False | Some c \<Rightarrow> c_close_reason (cs ! c) = None"])

lemma lock_blind_verdict:
  "lock_blind a (\<lambda>m. resolve (our_id m) k (held_is_live m b) (p_conn_dialed_by_us (heap m ! b)) by_us)"
  using lock_blind_live [of a b] lock_blind_peer(3) [of a b] lock_blind_reads(4) [of a]
  by (simp add: lock_blind_def)

text \<open>An inbound connection of a peer: kept or closed, with the actions for it.\<close>

lemma lock_free_receive:
  assumes "\<forall>k ports. ApplyPorts k ports \<notin> set acts"
  shows "lock_free a (\<lambda>m. case map_of (peers m) k of
      None \<Rightarrow> close_conn m c []
    | Some b \<Rightarrow>
        if resolve (our_id m) k (held_is_live m b) (p_conn_dialed_by_us (heap m ! b)) False = Held
        then close_conn m c ''kept ours''
        else apply_actions env (set_peer (install_connection m b c False) b (\<lambda>p. p\<lparr>p_dial := True, p_conn_notify := True\<rparr>)) b acts)"
proof -
  let ?admit = "\<lambda>b m. apply_actions env (set_peer (install_connection m b c False) b
    (\<lambda>p. p\<lparr>p_dial := True, p_conn_notify := True\<rparr>)) b acts"
  let ?meet = "\<lambda>b v m. if v = Held then close_conn m c ''kept ours'' else ?admit b m"
  let ?known = "\<lambda>ps m. case map_of ps k of
      None \<Rightarrow> close_conn m c []
    | Some b \<Rightarrow> ?meet b (resolve (our_id m) k (held_is_live m b) (p_conn_dialed_by_us (heap m ! b)) False) m"
  have "lock_free a (?admit b)" for b
    by (rule lock_free_comp [OF lock_free_comp [OF lock_free_install_connection lock_free_set_peer] lock_free_actions [OF assms]])
      (simp add: unguarded_def)
  then have meet: "lock_free a (?meet b v)" for b v by (cases "v = Held") (simp_all add: lock_free_close)
  have "lock_free a (?known ps)" for ps
  proof (cases "map_of ps k")
    case (Some b)
    then show ?thesis using lock_free_choose [OF lock_blind_verdict meet] by simp
  qed (simp add: lock_free_close)
  then show ?thesis by (rule lock_free_choose [OF lock_blind_reads(2)])
qed

lemma lock_free_handle_connection: "lock_free a (\<lambda>m. handle_connection env m c)"
proof -
  let ?go = "\<lambda>k acts i es m. if acts = [] then m\<lparr>enrolling := AList.update i \<lparr>en_conn = c, en_version = None\<rparr> es\<rparr>
    else case map_of (peers m) k of
        None \<Rightarrow> close_conn m c []
      | Some b \<Rightarrow>
          if resolve (our_id m) k (held_is_live m b) (p_conn_dialed_by_us (heap m ! b)) False = Held
          then close_conn m c ''kept ours''
          else apply_actions env (set_peer (install_connection m b c False) b (\<lambda>p. p\<lparr>p_dial := True, p_conn_notify := True\<rparr>)) b acts"
  let ?all = "\<lambda>(k, i, s) m. (\<lambda>m. ?go k (fst (on_inbound s i k)) i (enrolling m) m)
    ((\<lambda>m. m\<lparr>pm_session := snd (on_inbound s i k)\<rparr>) (m\<lparr>next_conn_id := i + 1\<rparr>))"
  let ?x = "\<lambda>m. (c_remote (conns m ! c), next_conn_id m, pm_session m)"
  have go: "lock_free a (?go k acts i es)" if "\<forall>k ports. ApplyPorts k ports \<notin> set acts" for k acts i es
    using lock_free_receive [OF that] by (cases "acts = []") (simp_all add: lock_free_fields)
  have all: "lock_free a (?all v)" for v
  proof -
    obtain k i s where v: "v = (k, i, s)" by (cases v)
    have "\<forall>k' ports. ApplyPorts k' ports \<notin> set (fst (on_inbound s i k))" using inbound_applies_nothing by blast
    from lock_free_choose [OF lock_blind_reads(7) go [OF this]]
    show ?thesis unfolding v prod.case by (rule lock_free_comp [OF lock_free_comp [OF lock_free_fields(3) lock_free_fields(2)]])
  qed
  have x: "lock_blind a ?x" using lock_blind_reads [of a] by (simp add: lock_blind_def)
  have "lock_free a (\<lambda>m. ?all (?x m) m)" by (rule lock_free_choose [of a ?x ?all, OF x all])
  moreover have "handle_connection env m c = ?all (?x m) m" for m
  proof -
    obtain acts s where o: "on_inbound (pm_session m) (next_conn_id m) (c_remote (conns m ! c)) = (acts, s)" by fastforce
    show ?thesis
      unfolding handle_connection_def Let_def o
      by (cases "map_of (peers m) (c_remote (conns m ! c))") (simp_all add: o held_is_live_def)
  qed
  ultimately show ?thesis by presburger
qed

lemma lock_free_dialed: "lock_free a (\<lambda>m. dialed env m b c)"
proof -
  let ?token = "\<lambda>t m. case t of None \<Rightarrow> m | Some token \<Rightarrow> snd (send_message env m c (enroll_message token))"
  let ?go = "\<lambda>m. announce_to env (?token (p_enroll_token (heap m ! b)) m) b"
  let ?e = "\<lambda>v m. if v = Held then close_conn m c ''kept ours'' else ?go (install_connection m b c True)"
  let ?x = "\<lambda>m. resolve (our_id m) (p_endpoint_id (heap m ! b)) (held_is_live m b) (p_conn_dialed_by_us (heap m ! b)) True"
  have "lock_free a (?token t)" for t by (cases t) (simp_all add: lock_free_id lock_free_message)
  then have "lock_free a (\<lambda>m. ?token (p_enroll_token (heap m ! b)) m)" by (rule lock_free_choose [OF lock_blind_peer(4)])
  then have "lock_free a ?go" by (rule lock_free_comp) (rule lock_free_announce)
  then have "lock_free a (\<lambda>m. ?go (install_connection m b c True))" by (rule lock_free_comp [OF lock_free_install_connection])
  then have e: "lock_free a (?e v)" for v by (cases "v = Held") (simp_all add: lock_free_close)
  have x: "lock_blind a ?x"
    using lock_blind_live [of a b] lock_blind_peer(2,3) [of a b] lock_blind_reads(4) [of a] by (simp add: lock_blind_def)
  have "lock_free a (\<lambda>m. ?e (?x m) m)" by (rule lock_free_choose [of a ?x ?e, OF x e])
  then show ?thesis unfolding dialed_def Let_def .
qed

lemma lock_free_running: "lock_free a (\<lambda>m. start_running env m b)"
proof -
  let ?e = "\<lambda>t m. if t = None then send_version env m b else m"
  have "lock_free a (?e t)" for t
    using lock_free_send [of a env b "enroll_message []"] by (cases t) (simp_all add: send_version_def lock_free_id)
  then show ?thesis unfolding start_running_def by (rule lock_free_choose [OF lock_blind_peer(4)])
qed

lemma lock_free_new_conn: "lock_free a (\<lambda>m. new_conn m remote opens)"
  unfolding new_conn_def by (rule lock_free_fields)

lemma lock_free_on_new:
  assumes "\<And>c. lock_free a (\<lambda>m. f m c)" "lock_blind a r"
  shows "lock_free a (\<lambda>m. f (new_conn m (r m) opens) (length (conns m)))"
proof -
  let ?e = "\<lambda>(k, c) m. f (new_conn m k opens) c"
  let ?x = "\<lambda>m. (r m, length (conns m))"
  have e: "lock_free a (?e v)" for v
    using lock_free_comp [OF lock_free_new_conn assms(1)] by (cases v) simp
  have x: "lock_blind a ?x" using assms(2) lock_blind_reads(1) [of a] by (simp add: lock_blind_def)
  have "lock_free a (\<lambda>m. ?e (?x m) m)" by (rule lock_free_choose [of a ?x ?e, OF x e])
  then show ?thesis by simp
qed

text \<open>The events that are handled without the lock: every request but the three that tear down or place a
  surface, every connection, every stream but an announcement of ports. The verdict on an
  enrollment is left out: it puts a new object in the map, and the one it may replace can have a
  surface that other operations count as taken.\<close>

fun takes_lock :: "request \<Rightarrow> bool" where
  "takes_lock (ReqForget _) = True"
| "takes_lock (ReqProject _ _ _) = True"
| "takes_lock (ReqUnproject _) = True"
| "takes_lock _ = False"

definition announces :: "env \<Rightarrow> bytes option \<Rightarrow> bool" where
  "announces env stream = (case Option.bind stream (e_decode env) of Some (ExposedPorts _) \<Rightarrow> True | _ \<Rightarrow> False)"

fun unlocked :: "env \<Rightarrow> daemon_event \<Rightarrow> bool" where
  "unlocked env (Startup _ _) = True"
| "unlocked env (Request r _ _) = (\<not> takes_lock r)"
| "unlocked env (Incoming _ _) = True"
| "unlocked env (EnrollmentStream _ _ _) = False"
| "unlocked env (UniStream _ stream) = (\<not> announces env stream)"
| "unlocked env (Dialed _ _) = True"
| "unlocked env (RunConnection _) = True"
| "unlocked env (ClearNotify _) = True"
| "unlocked env (ConnectionLost _ _) = True"

lemma lock_free_request:
  assumes "\<not> takes_lock r"
  shows "lock_free a (\<lambda>m. snd (handle_request env m r rnd now))"
proof (cases r)
  case (ReqInvite key name ports)
  then show ?thesis by (simp add: lock_free_invite)
next
  case (ReqAccept hdl name)
  have "snd (reply_unit x) = snd x" for x by (cases x rule: reply_unit.cases) simp_all
  then show ?thesis
    using ReqAccept lock_free_add_peer
    by (cases "handle_from_str (e_parse_key env) hdl") (simp_all add: d_accept_def lock_free_id)
next
  case (ReqExpose port to every)
  let ?e = "\<lambda>v m. case v of Inl e \<Rightarrow> m | Inr ks \<Rightarrow> d_expose env m port ks"
  have e: "lock_free a (?e v)" for v by (cases v) (simp_all add: lock_free_id lock_free_grants)
  have x: "lock_blind a (\<lambda>m. grantees_of env m to every)"
    using lock_blind_reads(3) [of a] by (simp add: lock_blind_def grantees_of_def)
  have "snd (handle_request env m r rnd now) = ?e (grantees_of env m to every) m" for m
    using ReqExpose by (simp split: sum.split)
  then show ?thesis using lock_free_choose [of a _ ?e, OF x e] by presburger
next
  case (ReqUnexpose port to)
  let ?e = "\<lambda>v m. case v of Inl e \<Rightarrow> m | Inr t \<Rightarrow> d_unexpose env m port t"
  let ?x = "\<lambda>m. case to of None \<Rightarrow> Inr None
    | Some r \<Rightarrow> (case resolve_grantee (e_parse_key env) (pm_session m) r of Inl e \<Rightarrow> Inl e | Inr k \<Rightarrow> Inr (Some k))"
  have e: "lock_free a (?e v)" for v by (cases v) (simp_all add: lock_free_id lock_free_grants)
  have x: "lock_blind a ?x" by (rule lock_blind_map [OF lock_blind_reads(3)])
  have "snd (handle_request env m r rnd now) = ?e (?x m) m" for m
    using ReqUnexpose by (simp split: option.split sum.split)
  then show ?thesis using lock_free_choose [of a ?x ?e, OF x e] by presburger
qed (use assms in \<open>simp_all add: lock_free_id\<close>)

lemma lock_free_startup: "lock_free a (\<lambda>m. run_startup env m accept ports)"
proof -
  let ?h = "parsed_handles env accept"
  have 1: "lock_free a (fold (\<lambda>port m. d_expose env m port (map handle_key ?h)) ports)"
    by (rule lock_free_fold) (rule lock_free_grants)
  have 2: "lock_free a (fold (\<lambda>h m. snd (add_peer m (handle_key h) None (handle_code h))) ?h)"
    by (rule lock_free_fold) (rule lock_free_add_peer)
  show ?thesis
    using lock_free_comp [OF 1 2] lock_free_comp [OF lock_free_comp [OF 1 2] lock_free_broadcast]
    by (cases "?h = []") (simp_all add: run_startup_def Let_def)
qed

lemma lock_free_unlocked:
  assumes "unlocked env e"
  shows "lock_free a (\<lambda>m. daemon_step env m e)"
proof (cases e)
  case (UniStream b stream)
  have "handle_uni_stream env m b stream = m \<or>
      (\<exists>v. \<forall>m. handle_uni_stream env m b stream = set_peer m b (\<lambda>p. p\<lparr>p_version := Some v\<rparr>))" for m
    using assms UniStream by (auto simp: handle_uni_stream_def announces_def split: option.splits peer_message.splits)
  then consider "\<And>m. handle_uni_stream env m b stream = m"
    | v where "\<And>m. handle_uni_stream env m b stream = set_peer m b (\<lambda>p. p\<lparr>p_version := Some v\<rparr>)" by meson
  then show ?thesis
    using UniStream lock_free_id lock_free_set_peer by cases (simp_all add: unguarded_def)
next
  case (Incoming remote opens)
  then show ?thesis
    using lock_free_on_new [OF lock_free_handle_connection, where r = "\<lambda>_. remote"] by (simp add: lock_blind_def)
next
  case (Dialed b opens)
  then show ?thesis using lock_free_on_new [OF lock_free_dialed lock_blind_peer(2)] by simp
next
  case (ClearNotify b)
  then show ?thesis using lock_free_set_peer [of "\<lambda>p. p\<lparr>p_conn_notify := False\<rparr>"] by (simp add: clear_notify_def unguarded_def)
qed (use assms in \<open>simp_all add: lock_free_startup lock_free_request lock_free_running lock_free_close\<close>)

end
