(* ===== verification/Reach.thy ===== *)
theory Reach
  imports Requests
begin

text \<open>
  What one daemon grants, the other has bound: a change of grants is announced on the connection, the
  announcement is read at the other end, and the listeners there follow it.
\<close>

subsection \<open>A peer with nothing bound\<close>

lemma release_nothing:
  assumes "p_bindings (heap m ! a) = []" "p_surface (heap m ! a) = None"
  shows "release_binding m a port = m"
proof -
  have "(heap m ! a)\<lparr>p_bindings := AList.delete port (p_bindings (heap m ! a))\<rparr> = heap m ! a"
    using assms(1) by (cases "heap m ! a") simp
  then have "set_peer m a (\<lambda>p. p\<lparr>p_bindings := AList.delete port (p_bindings p)\<rparr>) = m" by (simp add: set_peer_def)
  then show ?thesis using assms(2) by (simp add: release_binding_def split: option.splits)
qed

lemma release_nothings:
  assumes "p_bindings (heap m ! a) = []" "p_surface (heap m ! a) = None"
  shows "fold (\<lambda>port m. if P port then m else release_binding m a port) ports m = m"
  using assms by (induction ports) (simp_all add: release_nothing)

text \<open>A peer has a surface or can be given one.\<close>

definition can_project :: "env \<Rightarrow> pm \<Rightarrow> nat \<Rightarrow> bool" where
  "can_project env m a \<longleftrightarrow> p_surface (heap m ! a) \<noteq> None \<or>
     (\<exists>ip. allocate (projected_ips m) (surface_base m) = Inr ip \<and> (\<forall>name. fst (claim_addr env m ip name) = Inr ()))"

lemma surface_ip_projects:
  assumes "can_project env m a" "ports \<noteq> []"
  shows "fst (surface_ip env m a ports) \<noteq> None"
proof (cases "p_surface (heap m ! a)")
  case None
  then obtain ip where ip: "allocate (projected_ips m) (surface_base m) = Inr ip" "\<And>name. fst (claim_addr env m ip name) = Inr ()"
    using assms(1) by (auto simp: can_project_def)
  have c: "claim_addr env m ip name = (Inr (), snd (claim_addr env m ip name))" for name
    using ip(2) [of name] by (simp add: prod_eq_iff)
  show ?thesis using None assms(2) ip(1) by (simp add: surface_ip_def Let_def, subst c, simp)
qed (simp add: surface_ip_def)

lemma update_ports_projects:
  assumes a: "a < length (heap m)" and wf: "peer_wf (on_tun m) (heap m ! a)" and p: "can_project env m a" "ports \<noteq> []"
  shows "p_surface (heap (update_peer_ports env m a ports) ! a) \<noteq> None"
proof -
  let ?m = "fold (\<lambda>port m. if port \<in> set ports then m else release_binding m a port) (p_exposed_ports (heap m ! a)) m"
  obtain r m2 where st: "surface_ip env ?m a ports = (r, m2)" "a < length (heap m2)"
    "update_peer_ports env m a ports =
       set_peer (case r of None \<Rightarrow> m2 | Some ip \<Rightarrow> bind_missing env a ip ports m2) a (\<lambda>p. p\<lparr>p_exposed_ports := ports\<rparr>)"
    and c: "case r of
       None \<Rightarrow> p_surface (heap m ! a) = None \<and> heap m2 ! a = (heap m ! a)\<lparr>p_bindings :=
         unbind (filter (\<lambda>x. x \<notin> set ports) (p_exposed_ports (heap m ! a))) (p_bindings (heap m ! a))\<rparr>
     | Some ip \<Rightarrow> \<exists>s. sf_ip s = ip \<and> heap m2 ! a = (heap m ! a)\<lparr>p_bindings :=
         unbind (filter (\<lambda>x. x \<notin> set ports) (p_exposed_ports (heap m ! a))) (p_bindings (heap m ! a)),
         p_surface := Some s\<rparr> \<and> (p_surface (heap m ! a) = None \<or> p_surface (heap m ! a) = Some s)"
    by (rule update_ports_stages [OF a])
  have "r \<noteq> None"
  proof
    assume r: "r = None"
    then have s: "p_surface (heap m ! a) = None" using c by simp
    then have "p_bindings (heap m ! a) = []" using wf bound_at_no_surface unfolding peer_wf_def by blast
    then have "?m = m" using release_nothings [of m a "\<lambda>port. port \<in> set ports"] s by simp
    then show False using surface_ip_projects [OF p] st(1) r by simp
  qed
  then obtain ip where ip: "r = Some ip" by blast
  then obtain s where s: "p_surface (heap m2 ! a) = Some s" using c by auto
  have t: "touches a m2 (bind_missing env a ip ports m2)" by (rule touches_bind_missing)
  obtain cs where "heap (bind_missing env a ip ports m2) ! a = (heap m2 ! a)\<lparr>p_bindings := cs\<rparr>"
    using bind_missing_more [OF st(2)] by blast
  then show ?thesis using st(2,3) ip s touches_keeps(11) [OF t] by (simp add: set_peer_nth)
qed

subsection \<open>Properties\<close>

lemma handle_announcement:
  assumes "e_decode env data = Some (ExposedPorts ports)" "length data \<le> READ_LIMIT"
  shows "handle_uni_stream env m a (Some data) = update_peer_ports env m a ports"
  using assms by (simp add: handle_uni_stream_def)

lemma heap_broadcast: "heap (broadcast_grants env m) = heap m"
proof -
  have "heap (fold (\<lambda>e m. announce_to env m (snd e)) es m) = heap m" for es m
    by (induction es arbitrary: m) (simp_all add: announce_to_keeps)
  then show ?thesis by (simp add: broadcast_grants_def)
qed

lemma open_tunnel_ready:
  assumes "p_connection (heap m ! a) = Some c" "c_close_reason (conns m ! c) = None" "c_opens_streams (conns m ! c)"
  shows "open_tunnel m a port = Inr (tunnel_preamble port)"
  using assms by (simp add: open_tunnel_def)

text \<open>C4: what one daemon grants is what the other has up. After every \<open>expose\<close> and \<open>unexpose\<close> at one daemon
  and the delivery of its announcement, the other daemon has, for that peer, a listener on exactly
  the ports its tunnels are now served on, and a tunnel it opens for one of them is forwarded to
  that port of the granting host whenever the service there answers.\<close>

theorem grants_and_bindings_agree:
  assumes A: "pm_wf A" "map_of (peers A) (our_id B) = Some a" "p_connection (heap A ! a) = Some c"
      "c_close_reason (conns A ! c) = None" "c_opens_streams (conns A ! c)"
    and B: "pm_wf B" "map_of (peers B) (our_id A) = Some b" "p_connection (heap B ! b) = Some d"
      "c_close_reason (conns B ! d) = None" "c_opens_streams (conns B ! d)"
    and codec: "\<forall>ps. e_encode env (ExposedPorts ps) = Some (encode ps)" "\<forall>ps. e_decode env' (encode ps) = Some (ExposedPorts ps)"
    and up: "binds_in_time env'" "can_project env' B b"
    and change: "A1 = d_expose env A port ks \<or> A1 = d_unexpose env A port t"
    and sent: "data = last (c_sent (conns A1 ! c))" "length data \<le> READ_LIMIT"
    and B1: "B1 = daemon_step env' B (UniStream b (Some data))"
  shows "set (keys (p_bindings (heap B1 ! b))) = {p. on_tunnel (pm_session A1) (our_id B) p = ServeTunnel p} \<and>
    (\<forall>p \<in> set (keys (p_bindings (heap B1 ! b))). \<exists>pre. open_tunnel B1 b p = Inr pre \<and>
       (\<forall>connects rest. connects (host A1) p \<longrightarrow>
          handle_bi_stream connects A1 a (pre @ rest) = Inr (Tunneled (Forwarding (host A1) p rest))))"
proof -
  let ?S = "{p. on_tunnel (pm_session A1) (our_id B) p = ServeTunnel p}"
  let ?ports = "sorted_list_of_set ?S"
  have set_ports: "set ?ports = ?S" by simp
  have "c_sent (conns A1 ! c) = c_sent (conns A ! c) @ [encode ?ports]"
    by (rule grant_change_message [OF A codec(1) change])
  then have data: "e_decode env' data = Some (ExposedPorts ?ports)" using sent(1) codec(2) by simp
  have B1': "B1 = update_peer_ports env' B b ?ports"
    using B1 handle_announcement [OF data sent(2)] by simp
  have b: "b < length (heap B)" "p_endpoint_id (heap B ! b) = our_id A" using pm_wfD(6,7) [OF B(1,2)] by auto
  have wf: "peer_wf (on_tun B) (heap B ! b)" using pm_wfD(4) [OF B(1) b(1)] .
  have bound: "set (keys (p_bindings (heap B1 ! b))) = ?S"
  proof (cases "p_surface (heap B1 ! b)")
    case None
    then have "?ports = []" using update_ports_projects [OF b(1) wf up(2)] B1' by blast
    then show ?thesis using update_ports_exact [OF b(1) wf up(1), of ?ports] None B1' set_ports by auto
  next
    case (Some s)
    then show ?thesis using update_ports_exact [OF b(1) wf up(1), of ?ports] B1' set_ports by auto
  qed
  have t: "touches b B B1" unfolding B1' by (rule touches_update_ports)
  have "p_connection (heap B1 ! b) = Some d" "conns B1 = conns B"
    using touches_keeps(2) [OF t] touches_keeps_peer [OF t, of b] B(3) by (auto simp: peer_kept_def)
  then have tunnel: "open_tunnel B1 b p = Inr (tunnel_preamble p)" for p
    using open_tunnel_ready [of B1 b d p] B(4,5) by simp
  have a: "p_endpoint_id (heap A1 ! a) = our_id B"
    using change pm_wfD(7) [OF A(1,2)] by (auto simp: d_expose_def d_unexpose_def heap_broadcast)
  have "allows (s_grants (pm_session A1)) p (our_id B)" if "p \<in> ?S" for p
    using that by (auto simp: on_tunnel_def split: if_splits)
  then show ?thesis using bound tunnel a by (auto simp: served_port)
qed

text \<open>Two daemons connected to each other.\<close>

definition paired :: "endpoint_id \<Rightarrow> endpoint_id \<Rightarrow> pm" where
  "paired me k = install_connection (new_conn (snd (add_peer
     (pm_new me localhost session_new (new_file ''p'') (new_file ''s'') None None) k None None)) k True) 0 0 True"

lemma paired_at:
  "peers (paired me k) = [(k, 0)]" "our_id (paired me k) = me" "pm_netstack (paired me k) = None"
  "heap (paired me k) = [(peer_new k None True None None)\<lparr>p_conn_dialed_by_us := True, p_connection := Some 0\<rparr>]"
  "conns (paired me k) = [\<lparr>c_remote = k, c_close_reason = None, c_opens_streams = True, c_sent = []\<rparr>]"
  "pm_session (paired me k) = snd (admit_known session_new k None Added)"
  by (simp_all add: paired_def install_connection_def set_peer_def new_conn_def add_peer_def install_peer_def pm_new_def peer_new_def)

lemma paired_wf: "pm_wf (paired me k)"
proof -
  let ?m = "pm_new me localhost session_new (new_file ''p'') (new_file ''s'') None None"
  have "pm_wf ?m" by (simp add: pm_wf_but_def pm_new_def map_wf_def session_wf_new) (simp add: session_new_def)
  then have "pm_wf (new_conn (snd (add_peer ?m k None None)) k True)" by (intro pm_wf_new_conn pm_wf_add_peer)
  then show ?thesis
    unfolding paired_def
    by (rule pm_wf_install_connection)
      (simp_all add: new_conn_def add_peer_def install_peer_def pm_new_def peer_new_def)
qed

lemma paired_can_project: "can_project plain_env (paired me k) 0"
  using first_loopback_host [of "projected_ips (paired me k)"]
  by (auto simp: can_project_def surface_base_def paired_at projected_ips_def peer_new_def claim_addr_def ensure_addr_def)

theorem grants_and_bindings_agree_witness:
  "let A = paired (EndpointId [1]) (EndpointId [2]); B = paired (EndpointId [2]) (EndpointId [1]);
       A1 = d_expose plain_env A 80 [EndpointId [2]];
       B1 = daemon_step plain_env B (UniStream 0 (Some (last (c_sent (conns A1 ! 0)))))
   in set (keys (p_bindings (heap B1 ! 0))) = {p. on_tunnel (pm_session A1) (EndpointId [2]) p = ServeTunnel p}"
proof -
  let ?A = "paired (EndpointId [1]) (EndpointId [2])" and ?B = "paired (EndpointId [2]) (EndpointId [1])"
  let ?A1 = "d_expose plain_env ?A 80 [EndpointId [2]]"
  let ?enc = "\<lambda>ps. the (encode_message (ExposedPorts ps))"
  have "decode_message (the (encode_message msg)) = Some msg" "encode_message msg \<noteq> None" for msg
    using message_codec_ok [of msg] by auto
  then have codec: "\<forall>ps. e_encode plain_env (ExposedPorts ps) = Some (?enc ps)" "\<forall>ps. e_decode plain_env (?enc ps) = Some (ExposedPorts ps)"
    by simp_all
  have at: "map_of (peers (paired x k)) k = Some 0" "p_connection (heap (paired x k) ! 0) = Some 0"
    "c_close_reason (conns (paired x k) ! 0) = None" "c_opens_streams (conns (paired x k) ! 0)" for x k
    by (simp_all add: paired_at)
  have ids: "our_id ?A = EndpointId [1]" "our_id ?B = EndpointId [2]" by (simp_all add: paired_at)
  have len: "length (last (c_sent (conns ?A1 ! 0))) \<le> READ_LIMIT"
    by (simp add: d_expose_def expose_def Let_def broadcast_grants_def announce_to_def announce_def send_ports_def
        send_to_def send_message_def paired_at peer_new_def admit_known_def session_new_def grants_default_def
        grants_add_def ports_for_def encode_message_def length_to_unary enc_list_def enc_map_def READ_LIMIT_def)
  show ?thesis
    using grants_and_bindings_agree [of ?A ?B 0 0 0 0, unfolded ids, OF paired_wf at paired_wf at codec plain_binds
        paired_can_project disjI1 [OF refl] refl len refl, THEN conjunct1] by (simp only: Let_def)
qed

subsection \<open>An announcement that comes too late\<close>

text \<open>The task that reads an announcement holds the peer object and waits for the lock that forgetting
  the peer holds. When it goes on, nothing tells it that the peer was forgotten: the object that no
  list shows and no request names any more gets a surface and listeners again, and its address does
  not count as taken.\<close>

theorem late_announcement_rebinds:
  assumes wf: "pm_wf m" and k: "map_of (peers m) k = Some a" and m1: "m1 = evict_peer env m k reason"
    and up: "binds_in_time env" "can_project env m1 a"
    and msg: "e_decode env data = Some (ExposedPorts ports)" "length data \<le> READ_LIMIT" "ports \<noteq> []"
    and m2: "m2 = daemon_step env m1 (UniStream a (Some data))"
  shows "map_of (peers m2) k = None \<and> p_removed (heap m2 ! a) \<and>
    set (keys (p_bindings (heap m2 ! a))) = set ports \<and> p_surface (heap m2 ! a) \<noteq> None"
proof -
  note e = evict_object_peer [OF wf k, of env reason] evict_peer_fields [of env m k reason]
  have a: "a < length (heap m1)" using e pm_wfD(6) [OF wf k] m1 by simp
  have gone: "p_removed (heap m1 ! a)" "p_surface (heap m1 ! a) = None" "p_bindings (heap m1 ! a) = []"
    "map_of (peers m1) k = None"
    using e m1 by (simp_all add: delete_conv')
  have m2': "m2 = update_peer_ports env m1 a ports" using m2 handle_announcement [OF msg(1,2)] by simp
  have w: "peer_wf (on_tun m1) (heap m1 ! a)" using gone by (simp add: peer_wf_def)
  have s: "p_surface (heap m2 ! a) \<noteq> None" unfolding m2' by (rule update_ports_projects [OF a w up(2) msg(3)])
  then have "set (keys (p_bindings (heap m2 ! a))) = set ports"
    using update_ports_exact [OF a w up(1), of ports] m2' by (auto split: option.splits)
  moreover have t: "touches a m1 m2" unfolding m2' by (rule touches_update_ports)
  ultimately show ?thesis
    using s gone touches_keeps(1) [OF t] touches_keeps_peer [OF t, of a] by (auto simp: peer_kept_def)
qed

end
