(* ===== verification/Locking.thy ===== *)
theory Locking
  imports Lock_Free Reach
begin

text \<open>
  The lock \<open>bind_lock\<close> of \<open>src/peer.rs\<close>: the steps of an operation that holds it and the events that
  are handled without it are independent, so every interleaving leaves the state that the operation
  leaves when it runs at once, and what the rest of the development treats as one step may be
  treated so.
\<close>

subsection \<open>The steps under the lock\<close>

lemma independent_get:
  assumes "lock_free a e" "\<And>v. independent (objects_ok a) e (k v)"
    and "\<And>m. objects_ok a m \<Longrightarrow> x m = h (lock_view a m)"
  shows "independent (objects_ok a) e (get x k)"
  unfolding get_def using assms
  by (intro bl.independent_step [where g = "\<lambda>(_, _, _, _, n). SetCalls n" and k = "\<lambda>v. k (h v)"]) (auto simp: lock_view_def)

lemma independent_release:
  assumes e: "lock_free a e" and k: "independent (objects_ok a) e k"
  shows "independent (objects_ok a) e (release_prog a port k)"
  unfolding release_prog_def
proof (rule bl.independent_act [OF e, where g = "\<lambda>((_, bs, _), _). SetBindings (AList.delete port bs)"])
  have "independent (objects_ok a) e (act (unlisten_at ip port) k)" for ip
    by (rule bl.independent_act [OF e k, where g = "\<lambda>(_, _, ns, _). SetBackend (case (ns, ip) of
          (Some n, Some (V4 v4)) \<Rightarrow> Some (unlisten n v4 port) | _ \<Rightarrow> ns)"])
      (auto simp: lock_view_def unlisten_at_def split: option.splits ip_addr.splits)
  then show "independent (objects_ok a) e
      (get (\<lambda>m. map_option sf_ip (p_surface (heap m ! a))) (\<lambda>ip. act (unlisten_at ip port) k))"
    by (rule independent_get [OF e, where h = "\<lambda>((s, _), _). map_option sf_ip s"]) (simp add: lock_view_def)
qed (simp add: lock_view_def set_peer_def)

lemma independent_releases:
  assumes "lock_free a e" "independent (objects_ok a) e k"
  shows "independent (objects_ok a) e (release_ports_prog a ports k)"
  using assms by (induction ports) (simp_all add: independent_release)

lemma independent_record:
  assumes "lock_free a e" "independent (objects_ok a) e k"
  shows "independent (objects_ok a) e (act (\<lambda>m. record_binding m a port b) k)"
  using assms
  by (rule bl.independent_act [where g = "\<lambda>((_, bs, _), _). SetBindings (AList.update port b bs)"])
    (simp add: lock_view_def record_binding_def set_peer_def)

lemma independent_attempts:
  assumes e: "lock_free a e" and k: "independent (objects_ok a) e k"
  shows "independent (objects_ok a) e (attempts_prog n env a ip port k)"
proof (induction n)
  case (Suc n)
  have "independent (objects_ok a) e (if b then act (\<lambda>m. record_binding m a port (Listener ip)) k
      else attempts_prog n env a ip port k)" for b
    using Suc.IH independent_record [OF e k] by simp
  then show ?case
    unfolding attempts_prog.simps
    by (intro bl.independent_step [OF e, where g = "\<lambda>(_, _, _, _, n). SetCalls (n + 1)" and
        k = "\<lambda>(_, _, _, _, c). if e_bind env c ip port then act (\<lambda>m. record_binding m a port (Listener ip)) k
          else attempts_prog n env a ip port k"]) (simp_all add: lock_view_def split: prod.split)
qed (simp add: k)

lemma independent_bind:
  assumes e: "lock_free a e" and k: "independent (objects_ok a) e k"
  shows "independent (objects_ok a) e (bind_prog env a ip port k)"
proof -
  have "independent (objects_ok a) e (act (listen_at v4 port) (act (\<lambda>m. record_binding m a port TunPlaceholder) k))" for v4
    by (rule bl.independent_act [OF e independent_record [OF e k],
          where g = "\<lambda>(_, _, ns, _). SetBackend (map_option (\<lambda>ns. listen ns v4 port) ns)"])
      (simp add: lock_view_def listen_at_def)
  then show ?thesis
    unfolding bind_prog_def using independent_attempts [OF e k]
    by (intro independent_get [OF e, where h = "\<lambda>(_, _, ns, _). ns \<noteq> None"]) (simp_all add: lock_view_def split: ip_addr.split)
qed

lemma independent_binds:
  assumes e: "lock_free a e" and k: "independent (objects_ok a) e k"
  shows "independent (objects_ok a) e (bind_ports_prog env a ip ports k)"
proof (induction ports)
  case (Cons port ports)
  then show ?case
    unfolding bind_ports_prog.simps using independent_bind [OF e Cons]
    by (intro independent_get [OF e, where h = "\<lambda>((_, bs, _), _). map_of bs port \<noteq> None"]) (simp_all add: lock_view_def)
qed (simp add: k)

lemma independent_place:
  assumes e: "lock_free a e" and k: "independent (objects_ok a) e k"
  shows "independent (objects_ok a) e (act (\<lambda>m. set_peer m a (\<lambda>p. p\<lparr>p_surface := s\<rparr>))
    (act (\<lambda>m. persist_surface env m (p_endpoint_id (heap m ! a)) ip name) k))"
proof (rule bl.independent_act [OF e, where g = "\<lambda>_. SetSurface s"])
  show "independent (objects_ok a) e (act (\<lambda>m. persist_surface env m (p_endpoint_id (heap m ! a)) ip name) k)"
    by (rule bl.independent_act [OF e k, where g = "\<lambda>((_, _, _, _, key), _, _, sf, _).
          SetFile (snd (surfaces_add (e_surfaces env) sf (e_show_key env key) ip name))"])
      (simp add: lock_view_def persist_surface_def)
qed simp

text \<open>The outcome and the effect of \<open>claim_addr\<close>, from the view.\<close>

lemma independent_claim:
  assumes e: "lock_free a e" and k: "\<And>r. independent (objects_ok a) e (k r)"
  shows "independent (objects_ok a) e (Do (\<lambda>m. (snd (claim_addr env m ip name), k (fst (claim_addr env m ip name)))))"
  by (rule bl.independent_step [OF e, where
        g = "\<lambda>(_, _, ns, _, c). case ns of
               Some n \<Rightarrow> SetBackend (Some (case ip of V4 v4 \<Rightarrow> add_surface n v4 name | V6 _ \<Rightarrow> n))
             | None \<Rightarrow> SetCalls (c + 1)" and
        k = "\<lambda>(_, _, ns, _, c). k (case ns of Some _ \<Rightarrow> Inr () | None \<Rightarrow> ensure_addr (e_os env) (e_exec env c) ip)"])
    (auto simp: claim_addr_def lock_view_def k split: option.split ip_addr.split)

lemma independent_surface:
  assumes e: "lock_free a e" and k: "\<And>r. independent (objects_ok a) e (k r)"
  shows "independent (objects_ok a) e (surface_prog env a ports k)"
proof -
  let ?place = "\<lambda>ip name r. case r of Inl _ \<Rightarrow> k None | Inr _ \<Rightarrow>
    act (\<lambda>m. set_peer m a (\<lambda>p. p\<lparr>p_surface := Some \<lparr>sf_ip = ip, sf_name = name\<rparr>\<rparr>))
      (act (\<lambda>m. persist_surface env m (p_endpoint_id (heap m ! a)) ip name) (k (Some ip)))"
  let ?name = "\<lambda>m. Some (case p_label (heap m ! a) of
    Some l \<Rightarrow> l | None \<Rightarrow> default_name (e_show_key env) (p_endpoint_id (heap m ! a)))"
  let ?claim = "\<lambda>r. case r of Inl _ \<Rightarrow> k None | Inr ip \<Rightarrow> get ?name
    (\<lambda>name. Do (\<lambda>m. (snd (claim_addr env m ip name), ?place ip name (fst (claim_addr env m ip name)))))"
  have "independent (objects_ok a) e (?place ip name r)" for ip name r
    using k independent_place [OF e k] by (simp split: sum.split)
  then have "independent (objects_ok a) e (get ?name
      (\<lambda>name. Do (\<lambda>m. (snd (claim_addr env m ip name), ?place ip name (fst (claim_addr env m ip name))))))" for ip
    by (intro independent_get [OF e independent_claim [OF e], where h = "\<lambda>((_, _, _, l, key), _).
        Some (case l of Some l \<Rightarrow> l | None \<Rightarrow> default_name (e_show_key env) key)"]) (simp_all add: lock_view_def)
  then have "independent (objects_ok a) e (?claim r)" for r using k by (simp split: sum.split)
  then have "independent (objects_ok a) e (get (\<lambda>m. allocate (projected_ips m) (surface_base m)) ?claim)"
    by (rule independent_get [OF e, where h = "\<lambda>(_, ips, ns, _). allocate ips (if ns \<noteq> None then TUN_BASE else LOOPBACK_BASE)"])
      (simp add: lock_view_def surface_base_def)
  then show ?thesis
    unfolding surface_prog_def using k
    by (intro independent_get [OF e, where h = "\<lambda>((s, _), _). s"]) (simp_all add: lock_view_def split: option.split)
qed

lemma independent_update_ports:
  assumes e: "lock_free a e"
  shows "independent (objects_ok a) e (update_ports_prog env a ports)"
proof -
  let ?keep = "act (\<lambda>m. set_peer m a (\<lambda>p. p\<lparr>p_exposed_ports := ports\<rparr>)) Done"
  have r: "independent (objects_ok a) e ?keep"
    by (rule bl.independent_act [OF e independent_Done, where g = "\<lambda>_. SetExposed ports"]) simp
  have "independent (objects_ok a) e (case ip of None \<Rightarrow> ?keep | Some ip \<Rightarrow> bind_ports_prog env a ip ports ?keep)" for ip
    using r independent_binds [OF e r] by (simp split: option.split)
  then show ?thesis
    unfolding update_ports_prog_def Let_def
    by (intro independent_get [OF e, where h = "\<lambda>((_, _, ps, _), _). ps"] independent_releases [OF e] independent_surface [OF e])
      (simp_all add: lock_view_def)
qed

lemma independent_clear_surface:
  assumes e: "lock_free a e" and k: "\<And>r. independent (objects_ok a) e (k r)"
  shows "independent (objects_ok a) e (clear_surface_prog env a ip k)"
proof -
  have "independent (objects_ok a) e (unclaim_prog env ip k)"
    unfolding unclaim_prog_def
    by (rule bl.independent_step [OF e, where
          g = "\<lambda>(_, _, ns, _, c). case ns of
                 Some n \<Rightarrow> SetBackend (Some (case ip of V4 v4 \<Rightarrow> remove_surface n v4 | V6 _ \<Rightarrow> n))
               | None \<Rightarrow> SetCalls (c + 1)" and
          k = "\<lambda>(_, _, ns, _, c). k (case ns of Some _ \<Rightarrow> Inr () | None \<Rightarrow> remove_addr (e_os env) (e_exec env c) ip)"])
      (auto simp: unclaim_addr_def lock_view_def k split: option.split ip_addr.split)
  then have "independent (objects_ok a) e (act (\<lambda>m. set_peer m a (\<lambda>p. p\<lparr>p_surface := None\<rparr>)) (unclaim_prog env ip k))"
    by (rule bl.independent_act [OF e, where g = "\<lambda>_. SetSurface None"]) simp
  from independent_releases [OF e this] show ?thesis
    unfolding clear_surface_prog_def
    by (intro independent_get [OF e, where h = "\<lambda>((_, bs, _), _). keys bs"]) (simp_all add: lock_view_def)
qed

lemma independent_place_prog:
  assumes e: "lock_free a e"
  shows "independent (objects_ok a) e (place_prog env key a ip name)"
proof -
  have "independent (objects_ok a) e (get (\<lambda>m. p_exposed_ports (heap m ! a)) (\<lambda>ports. bind_ports_prog env a ip ports Done))"
    by (rule independent_get [OF e independent_binds [OF e independent_Done], where h = "\<lambda>((_, _, ps, _), _). ps"])
      (simp add: lock_view_def)
  then have "independent (objects_ok a) e (act (\<lambda>m. persist_surface env m key ip name)
      (get (\<lambda>m. p_exposed_ports (heap m ! a)) (\<lambda>ports. bind_ports_prog env a ip ports Done)))"
    by (rule bl.independent_act [OF e, where g = "\<lambda>(_, _, _, sf, _).
          SetFile (snd (surfaces_add (e_surfaces env) sf (e_show_key env key) ip name))"])
      (simp add: lock_view_def persist_surface_def)
  then have "independent (objects_ok a) e (act (\<lambda>m. set_peer m a (\<lambda>p. p\<lparr>p_surface := s\<rparr>)) (act (\<lambda>m. persist_surface env m key ip name)
      (get (\<lambda>m. p_exposed_ports (heap m ! a)) (\<lambda>ports. bind_ports_prog env a ip ports Done))))" for s
    by (rule bl.independent_act [OF e, where g = "\<lambda>_. SetSurface s"]) simp
  then show ?thesis
    unfolding place_prog_def by (intro independent_claim [OF e]) (simp add: independent_Done split: sum.split)
qed

lemma independent_project:
  assumes e: "lock_free a e"
  shows "independent (objects_ok a) e (project_prog env key a ip name)"
proof -
  have "independent (objects_ok a) e (get (\<lambda>m. allocate (projected_ips m) (surface_base m))
      (\<lambda>r. case r of Inl _ \<Rightarrow> Done | Inr addr \<Rightarrow> place_prog env key a addr nm))" for nm
    by (rule independent_get [OF e, where h = "\<lambda>(_, ips, ns, _). allocate ips (if ns \<noteq> None then TUN_BASE else LOOPBACK_BASE)"])
      (simp_all add: lock_view_def surface_base_def independent_Done independent_place_prog [OF e] split: sum.split)
  then have s: "independent (objects_ok a) e (get (\<lambda>m. p_label (heap m ! a)) (\<lambda>lbl. case ip of
      Some addr \<Rightarrow> place_prog env key a addr (nm lbl)
    | None \<Rightarrow> get (\<lambda>m. allocate (projected_ips m) (surface_base m))
        (\<lambda>r. case r of Inl _ \<Rightarrow> Done | Inr addr \<Rightarrow> place_prog env key a addr (nm lbl))))" for nm
    by (intro independent_get [OF e, where h = "\<lambda>((_, _, _, l, _), _). l"])
      (simp_all add: lock_view_def independent_place_prog [OF e] split: option.split)
  then show ?thesis
    unfolding project_prog_def Let_def using independent_clear_surface [OF e s]
    by (intro independent_get [OF e, where h = "\<lambda>((s, _), _). s"]) (simp_all add: lock_view_def split: option.split)
qed

lemma independent_unproject:
  assumes e: "lock_free a e"
  shows "independent (objects_ok a) e (unproject_prog env key a)"
proof -
  have "independent (objects_ok a) e (act (\<lambda>m. m\<lparr>surfaces_file :=
      snd (surfaces_remove (e_surfaces env) (surfaces_file m) (e_show_key env key))\<rparr>) Done)"
    by (rule bl.independent_act [OF e independent_Done, where g = "\<lambda>(_, _, _, sf, _).
          SetFile (snd (surfaces_remove (e_surfaces env) sf (e_show_key env key)))"]) (simp add: lock_view_def)
  then show ?thesis
    unfolding unproject_prog_def
    by (intro independent_get [OF e, where h = "\<lambda>((s, _), _). s"])
      (auto simp: lock_view_def independent_Done split: option.split sum.split intro!: independent_clear_surface [OF e])
qed

subsection \<open>Properties\<close>

lemma run_events: "fold (\<lambda>e. e) (map (\<lambda>e m. daemon_step env m e) es) m = daemon_run env m es"
  by (induction es arbitrary: m) auto

lemma locked_is_atomic:
  assumes "pm_wf m" "a < length (heap m)" "\<forall>e \<in> set es. unlocked env e"
    and "interleaved p (map (\<lambda>e m. daemon_step env m e) es) m m'" "\<And>e. lock_free a e \<Longrightarrow> independent (objects_ok a) e p"
  shows "m' = daemon_run env (run_prog p m) es"
proof -
  have ok: "objects_ok a m" using assms(1,2) by (simp add: objects_ok_def pm_wf_but_def map_wf_def)
  have "\<forall>e \<in> set (map (\<lambda>e m. daemon_step env m e) es). lock_free a e" using assms(3) lock_free_unlocked by auto
  from bl.reduction [OF assms(4) this assms(5) ok] show ?thesis unfolding run_events by simp
qed

text \<open>C6: taking the ports a peer announces is atomic. However the steps of the operation (releasing what is
  no longer announced, giving the peer a surface, claiming the address, up to five attempts to bind
  each port) interleave with requests, connections and streams that do not take the lock (enrollments, whose early ports take it, are left out as a whole), the state
  at the end is the one that is reached when the operation runs at once and they follow. The same
  holds of \<open>project\<close> and of \<open>unproject\<close>, from the point where the peer was found and the lock is held.\<close>

theorem bind_lock_atomic:
  assumes "pm_wf m" "a < length (heap m)" "\<forall>e \<in> set es. unlocked env e"
    and run: "interleaved p (map (\<lambda>e m. daemon_step env m e) es) m m'"
  shows "(p = update_ports_prog env a ports \<longrightarrow> m' = daemon_run env (update_peer_ports env m a ports) es) \<and>
    (resolve_peer env m peer_ref = Some k \<and> map_of (peers m) k = Some a \<longrightarrow>
       (p = project_prog env k a ip name \<longrightarrow> m' = daemon_run env (snd (project env m peer_ref ip name)) es) \<and>
       (p = unproject_prog env k a \<longrightarrow> m' = daemon_run env (snd (unproject env m peer_ref)) es))"
proof -
  note atomic = locked_is_atomic [OF assms]
  show ?thesis
    using atomic independent_update_ports independent_project independent_unproject
      run_update_ports [OF assms(2)] run_project [OF assms(2)] run_unproject [OF assms(2)] by auto
qed

lemma interleaved_alone: "interleaved p [] m (run_prog p m)"
proof (induction p arbitrary: m)
  case (Do f)
  obtain m' p where "f m = (m', p)" by fastforce
  moreover from this have "interleaved p [] m' (run_prog p m')" using Do.IH [of "f m" p m'] by (simp add: image_iff) metis
  ultimately show ?case using run_Do own by metis
qed (simp add: over)

lemma interleaved_after_read: "interleaved (get x k) [e] m (run_prog (k (x m)) (e m))"
  unfolding get_def by (rule own, rule refl, rule other, rule interleaved_alone)

theorem bind_lock_atomic_witness:
  "let m = paired (EndpointId [1]) (EndpointId [2]); e = Request (ReqExpose 22 [] True) [] 0
   in \<exists>m'. interleaved (update_ports_prog plain_env 0 [80]) [\<lambda>m. daemon_step plain_env m e] m m' \<and>
        m' = daemon_run plain_env (update_peer_ports plain_env m 0 [80]) [e]"
proof -
  let ?m = "paired (EndpointId [1]) (EndpointId [2])" and ?e = "Request (ReqExpose 22 [] True) [] 0"
  obtain m' where i: "interleaved (update_ports_prog plain_env 0 [80]) (map (\<lambda>e m. daemon_step plain_env m e) [?e]) ?m m'"
    using interleaved_after_read unfolding update_ports_prog_def by fastforce
  have "0 < length (heap ?m)" "\<forall>e \<in> set [?e]. unlocked plain_env e" by (simp_all add: paired_at)
  then have "m' = daemon_run plain_env (update_peer_ports plain_env ?m 0 [80]) [?e]"
    using bind_lock_atomic [OF paired_wf _ _ i] by blast
  then show ?thesis using i by (auto simp: Let_def)
qed

end
