(* ===== verification/Launchd.thy ===== *)
theory Launchd
  imports Ip_Text Enroll Protocol
begin

text \<open>
  The macOS service (\<open>src/launchd.rs\<close>): \<open>daemon install\<close>, \<open>up\<close>, \<open>down\<close>, \<open>remove\<close> and \<open>status\<close>.
  The machine is a file system, the state of launchd and a count of the file-system calls made, so
  that the outcome of the n-th call is the environment's. launchctl is a parameter: what it answers
  and does to launchd's state; what the code relies on is \<open>launchctl_ok\<close>, from its manual page.
\<close>

subsection \<open>Text\<close>

text \<open>\<open>str::lines\<close>, \<open>str::split_whitespace().next()\<close>, \<open>str::contains\<close> and \<open>u32::from_str_radix\<close>.\<close>

abbreviation newline :: char where
  "newline \<equiv> CHR 0x0A"

fun pieces :: "string \<Rightarrow> string list" where
  "pieces [] = [[]]"
| "pieces (c # s) =
     (if c = newline then [] # pieces s
      else case pieces s of [] \<Rightarrow> [[c]] | p # ps \<Rightarrow> (c # p) # ps)"

definition strip_cr :: "string \<Rightarrow> string" where
  "strip_cr s = (case strip_suffix [CHR 0x0D] s of None \<Rightarrow> s | Some t \<Rightarrow> t)"

definition text_lines :: "string \<Rightarrow> string list" where
  "text_lines s =
     (let ps = pieces s
      in map strip_cr (butlast ps) @ (if last ps = [] then [] else [last ps]))"

fun until_space :: "string \<Rightarrow> string" where
  "until_space [] = []"
| "until_space (c # s) = (if starts_with_any white_space (c # s) \<noteq> None then [] else c # until_space s)"

definition first_word :: "string \<Rightarrow> string option" where
  "first_word s = (let t = strip_ws white_space s in if t = [] then None else Some (until_space t))"

fun contains_text :: "string \<Rightarrow> string \<Rightarrow> bool" where
  "contains_text p [] = (p = [])"
| "contains_text p (c # s) = (take (length p) (c # s) = p \<or> contains_text p s)"

definition parse_unsigned :: "nat \<Rightarrow> nat \<Rightarrow> string \<Rightarrow> nat option" where
  "parse_unsigned radix bound s =
     (let t = (case s of [] \<Rightarrow> [] | c # r \<Rightarrow> if c = CHR ''+'' \<and> r \<noteq> [] then r else s)
      in if t = [] then None
         else case read_digits radix t of
           (ds, rest) \<Rightarrow>
             (let n = fold (\<lambda>d a. a * radix + d) ds 0
              in if rest \<noteq> [] \<or> n \<ge> bound then None else Some n))"

subsection \<open>Names\<close>

definition LABEL :: string where "LABEL = ''pai-sho''"

definition PLIST :: string where "PLIST = ''/Library/LaunchDaemons/pai-sho.plist''"

definition BIN :: string where "BIN = ''/usr/local/libexec/pai-sho''"

definition OPERATOR :: string where "OPERATOR = ''/usr/local/libexec/pai-sho-operator''"

definition KEY :: string where "KEY = ''/usr/local/var/pai-sho/op.key''"

definition LOG :: string where "LOG = ''/usr/local/var/log/pai-sho-operator.log''"

definition RESOLVER :: string where "RESOLVER = ''/etc/resolver/pai-sho''"

definition SOCKET :: string where "SOCKET = ''/tmp/pai-sho.sock''"

definition RESOLVER_ADDR :: string where "RESOLVER_ADDR = ''10.99.0.53''"

lemmas path_defs = PLIST_def BIN_def OPERATOR_def KEY_def LOG_def RESOLVER_def SOCKET_def

definition domain :: string where
  "domain = ''system/'' @ LABEL"

text \<open>\<open>Path::with_file_name\<close>, \<open>Path::parent\<close> and \<open>Path::with_extension\<close> on an absolute path.\<close>

definition file_name :: "string \<Rightarrow> string" where
  "file_name p = rev (takeWhile (\<lambda>c. c \<noteq> CHR ''/'') (rev p))"

definition with_file_name :: "string \<Rightarrow> string \<Rightarrow> string" where
  "with_file_name p n = take (length p - length (file_name p)) p @ n"

definition parent_dir :: "string \<Rightarrow> string" where
  "parent_dir p = butlast (with_file_name p [])"

definition file_stem :: "string \<Rightarrow> string" where
  "file_stem n =
     (let stem = rev (tl (dropWhile (\<lambda>c. c \<noteq> CHR ''.'') (rev n)))
      in if CHR ''.'' \<in> set n \<and> stem \<noteq> [] then stem else n)"

definition with_extension :: "string \<Rightarrow> string \<Rightarrow> string" where
  "with_extension p ext = with_file_name p (file_stem (file_name p) @ ''.'' @ ext)"

subsection \<open>The machine\<close>

record file_node =
  node_text :: string
  node_mode :: nat
  node_root :: bool

record 'l mac =
  nodes :: "(string \<times> file_node) list"
  jobs :: 'l
  fs_calls :: nat
  printed :: "string list"

text \<open>What a finished \<open>launchctl\<close> left: its exit status, and as text, and its output.\<close>

record ctl_output =
  ctl_success :: bool
  ctl_status :: string
  ctl_stdout :: bytes
  ctl_stderr :: bytes

record 'l mac_env =
  on_macos :: bool
  is_root :: bool
  elevating :: bool
  current_exe :: "(string \<times> file_node) option"
  sudo_status :: "int option option"
  fs_works :: "nat \<Rightarrow> bool"
  fs_torn :: "nat \<Rightarrow> file_node option"
  new_node :: "string \<Rightarrow> file_node"
  launchctl_run :: "string list \<Rightarrow> 'l \<Rightarrow> ctl_output option \<times> 'l"
  metadata_uid :: "string \<Rightarrow> nat option"
  getpwuid :: "nat \<Rightarrow> bytes option"
  fetches :: "nat \<Rightarrow> response option"
  clock :: "nat \<Rightarrow> nat"

type_synonym ('l, 'a) step = "'l mac \<Rightarrow> 'a result \<times> 'l mac"

definition node_at :: "'l mac \<Rightarrow> string \<Rightarrow> file_node option" where
  "node_at m p = map_of (nodes m) p"

text \<open>The operator \<open>?\<close>.\<close>

definition and_then :: "('l, 'a) step \<Rightarrow> ('a \<Rightarrow> ('l, 'b) step) \<Rightarrow> ('l, 'b) step" where
  "and_then p q m = (case p m of (Inl e, m') \<Rightarrow> (Inl e, m') | (Inr x, m') \<Rightarrow> q x m')"

definition followed_by :: "('l, unit) step \<Rightarrow> ('l, 'b) step \<Rightarrow> ('l, 'b) step" where
  "followed_by p q = and_then p (\<lambda>_. q)"

definition return_ok :: "('l, unit) step" where
  "return_ok m = (Inr (), m)"

definition say :: "string \<Rightarrow> ('l, unit) step" where
  "say s m = (Inr (), m\<lparr>printed := printed m @ [s]\<rparr>)"

text \<open>One file-system call: \<open>change\<close> if it works, \<open>left\<close> if it does not.\<close>

definition fs_call :: "'l mac_env \<Rightarrow> error \<Rightarrow> ((string \<times> file_node) list \<Rightarrow> (string \<times> file_node) list) \<Rightarrow>
    ((string \<times> file_node) list \<Rightarrow> (string \<times> file_node) list) \<Rightarrow> ('l, unit) step" where
  "fs_call env e change left m =
     (if fs_works env (fs_calls m) then (Inr (), m\<lparr>nodes := change (nodes m), fs_calls := Suc (fs_calls m)\<rparr>)
      else (Inl e, m\<lparr>nodes := left (nodes m), fs_calls := Suc (fs_calls m)\<rparr>))"

definition set_node :: "string \<Rightarrow> file_node option \<Rightarrow> (string \<times> file_node) list \<Rightarrow> (string \<times> file_node) list" where
  "set_node p n ns = (case n of None \<Rightarrow> AList.delete p ns | Some x \<Rightarrow> AList.update p x ns)"

definition map_node :: "string \<Rightarrow> (file_node \<Rightarrow> file_node) \<Rightarrow> (string \<times> file_node) list \<Rightarrow> (string \<times> file_node) list" where
  "map_node p f ns = (case map_of ns p of None \<Rightarrow> ns | Some x \<Rightarrow> AList.update p (f x) ns)"

definition torn_node :: "'l mac_env \<Rightarrow> 'l mac \<Rightarrow> string \<Rightarrow> (string \<times> file_node) list \<Rightarrow> (string \<times> file_node) list" where
  "torn_node env m p = set_node p (fs_torn env (fs_calls m))"

definition create_dir_all :: "'l mac_env \<Rightarrow> string \<Rightarrow> ('l, unit) step" where
  "create_dir_all env dir = fs_call env (Creating dir) id id"

text \<open>\<open>fs::write\<close> truncates a file that exists and keeps its owner and mode.\<close>

definition fs_write :: "'l mac_env \<Rightarrow> string \<Rightarrow> string \<Rightarrow> ('l, unit) step" where
  "fs_write env p text m =
     fs_call env (FailedToWrite p)
       (set_node p (Some ((case map_of (nodes m) p of None \<Rightarrow> new_node env p | Some x \<Rightarrow> x)\<lparr>node_text := text\<rparr>)))
       (torn_node env m p) m"

text \<open>A call on a path that has to exist.\<close>

definition fs_on :: "'l mac_env \<Rightarrow> string \<Rightarrow> error \<Rightarrow> ((string \<times> file_node) list \<Rightarrow> (string \<times> file_node) list) \<Rightarrow>
    ('l, unit) step" where
  "fs_on env p e change m =
     (if node_at m p = None then (Inl e, m\<lparr>fs_calls := Suc (fs_calls m)\<rparr>) else fs_call env e change id m)"

definition set_permissions :: "'l mac_env \<Rightarrow> string \<Rightarrow> nat \<Rightarrow> ('l, unit) step" where
  "set_permissions env p mode = fs_on env p (Chmod p) (map_node p (\<lambda>n. n\<lparr>node_mode := mode\<rparr>))"

definition chown_root :: "'l mac_env \<Rightarrow> string \<Rightarrow> ('l, unit) step" where
  "chown_root env p = fs_on env p (Chown p) (map_node p (\<lambda>n. n\<lparr>node_root := True\<rparr>))"

definition rename :: "'l mac_env \<Rightarrow> string \<Rightarrow> string \<Rightarrow> ('l, unit) step" where
  "rename env p q = fs_on env p (Replacing q) (\<lambda>ns. set_node p None (set_node q (map_of ns p) ns))"

text \<open>A file that is not there is no error, and is not a call that can fail.\<close>

definition remove_file :: "'l mac_env \<Rightarrow> string \<Rightarrow> ('l, unit) step" where
  "remove_file env p m =
     (if node_at m p = None then (Inr (), m)
      else fs_call env (Removing p) (set_node p None) id m)"

subsection \<open>launchctl\<close>

definition lossy_trim :: "bytes \<Rightarrow> string" where
  "lossy_trim bs = trim (from_utf8_lossy bs)"

definition failure_text :: "ctl_output \<Rightarrow> string" where
  "failure_text r =
     (let err = lossy_trim (ctl_stderr r); out = lossy_trim (ctl_stdout r)
      in if err \<noteq> [] then err else if out \<noteq> [] then out else ''exit '' @ ctl_status r)"

definition launchctl_output :: "'l mac_env \<Rightarrow> string list \<Rightarrow> ('l, ctl_output) step" where
  "launchctl_output env args m =
     (case launchctl_run env args (jobs m) of
        (None, l) \<Rightarrow> (Inl (FailedToRun ''launchctl''), m\<lparr>jobs := l\<rparr>)
      | (Some r, l) \<Rightarrow> (Inr r, m\<lparr>jobs := l\<rparr>))"

definition launchctl :: "'l mac_env \<Rightarrow> string list \<Rightarrow> ('l, unit) step" where
  "launchctl env args =
     and_then (launchctl_output env args)
       (\<lambda>r m. if ctl_success r then (Inr (), m) else (Inl (LaunchctlFailed args (failure_text r)), m))"

definition launchctl_stdout :: "'l mac_env \<Rightarrow> string list \<Rightarrow> ('l, string) step" where
  "launchctl_stdout env args =
     and_then (launchctl_output env args)
       (\<lambda>r m. if ctl_success r then (Inr (from_utf8_lossy (ctl_stdout r)), m)
              else (Inl (LaunchctlFailed args
                     (let err = lossy_trim (ctl_stderr r)
                      in if err = [] then ''exit '' @ ctl_status r else err)), m))"

definition service_loaded :: "'l mac_env \<Rightarrow> 'l mac \<Rightarrow> bool \<times> 'l mac" where
  "service_loaded env m =
     (case launchctl_output env [''print'', domain] m of
        (Inl _, m') \<Rightarrow> (False, m')
      | (Inr r, m') \<Rightarrow> (ctl_success r, m'))"

text \<open>\<open>start\<close>: the label is enabled first, because a disabled one cannot be bootstrapped.\<close>

definition start :: "'l mac_env \<Rightarrow> bool \<Rightarrow> ('l, unit) step" where
  "start env reload =
     followed_by (launchctl env [''enable'', domain])
       (\<lambda>m. case service_loaded env m of
          (loaded, m1) \<Rightarrow>
            if loaded \<and> \<not> reload then launchctl env [''kickstart'', ''-k'', domain] m1
            else followed_by (if loaded then launchctl env [''bootout'', domain] else return_ok)
                   (launchctl env [''bootstrap'', ''system'', PLIST]) m1)"

subsection \<open>The installed files\<close>

abbreviation quote :: char where "quote \<equiv> CHR 0x27"

abbreviation dquote :: char where "dquote \<equiv> CHR 0x22"

abbreviation backslash :: char where "backslash \<equiv> CHR 0x5C"

definition of_lines :: "string list \<Rightarrow> string" where
  "of_lines ls = concat (map (\<lambda>l. l @ [newline]) ls)"

definition operator_script :: string where
  "operator_script = of_lines
     [''#!/bin/bash'',
      ''# Rewritten by `pai-sho daemon install`.'',
      ''set -eu'',
      ''mkdir -p /etc/resolver'',
      ''printf '' @ [quote] @ ''nameserver '' @ RESOLVER_ADDR @ [backslash] @ ''n'' @ [quote] @ '' > '' @ RESOLVER,
      ''KEY='' @ [dquote] @ KEY @ [dquote],
      ''mkdir -p '' @ [dquote] @ ''$(dirname '' @ [dquote] @ ''$KEY'' @ [dquote] @ '')'' @ [dquote],
      ''u=$(stat -f%Su /dev/console) || exit 1'',
      ''if [ -z '' @ [dquote] @ ''$u'' @ [dquote] @ '' ]; then'',
      ''  echo '' @ [dquote] @ ''pai-sho: no user on /dev/console'' @ [dquote] @ '' >&2'',
      ''  exit 1'',
      ''fi'',
      ''exec '' @ BIN @ '' --socket '' @ SOCKET @ '' daemon '' @ [backslash],
      ''  --key '' @ [dquote] @ ''$KEY'' @ [dquote] @ '' --tun utun --socket-owner '' @ [dquote] @ ''$u'' @ [dquote]]"

definition plist :: string where
  "plist = of_lines
     [''<?xml version='' @ [dquote] @ ''1.0'' @ [dquote] @ '' encoding='' @ [dquote] @ ''UTF-8'' @ [dquote] @ ''?>'',
      ''<!DOCTYPE plist PUBLIC '' @ [dquote] @ ''-//Apple//DTD PLIST 1.0//EN'' @ [dquote] @ '' '' @ [dquote] @
        ''http://www.apple.com/DTDs/PropertyList-1.0.dtd'' @ [dquote] @ ''>'',
      ''<plist version='' @ [dquote] @ ''1.0'' @ [dquote] @ ''>'',
      ''<dict>'',
      ''    <key>Label</key>'',
      ''    <string>'' @ LABEL @ ''</string>'',
      ''    <key>ProgramArguments</key>'',
      ''    <array>'',
      ''        <string>'' @ OPERATOR @ ''</string>'',
      ''    </array>'',
      ''    <key>RunAtLoad</key>'',
      ''    <true/>'',
      ''    <key>KeepAlive</key>'',
      ''    <true/>'',
      ''    <key>StandardOutPath</key>'',
      ''    <string>'' @ LOG @ ''</string>'',
      ''    <key>StandardErrorPath</key>'',
      ''    <string>'' @ LOG @ ''</string>'',
      ''    <key>EnvironmentVariables</key>'',
      ''    <dict>'',
      ''        <key>PATH</key>'',
      ''        <string>/usr/bin:/bin:/usr/sbin:/sbin</string>'',
      ''    </dict>'',
      ''</dict>'',
      ''</plist>'']"

definition ensure_dirs :: "'l mac_env \<Rightarrow> ('l, unit) step" where
  "ensure_dirs env =
     followed_by (create_dir_all env ''/usr/local/libexec'')
       (followed_by (create_dir_all env ''/usr/local/var/log'')
         (create_dir_all env ''/usr/local/var/pai-sho''))"

text \<open>Modes are octal in the source: 755 is 493 and 644 is 420.\<close>

definition write_root_file :: "'l mac_env \<Rightarrow> string \<Rightarrow> string \<Rightarrow> nat \<Rightarrow> ('l, unit) step" where
  "write_root_file env p text mode =
     (let tmp = with_extension p ''tmp'' in
      followed_by (create_dir_all env (parent_dir p))
        (followed_by (fs_write env tmp text)
          (followed_by (set_permissions env tmp mode)
            (followed_by (chown_root env tmp) (rename env tmp p)))))"

definition place_binary :: "'l mac_env \<Rightarrow> string \<Rightarrow> string \<Rightarrow> ('l, unit) step" where
  "place_binary env tmp dest =
     followed_by (set_permissions env tmp 493) (followed_by (chown_root env tmp) (rename env tmp dest))"

text \<open>\<open>fs::copy\<close> takes contents and mode from the source; an existing copy keeps its owner.\<close>

definition fs_copy :: "'l mac_env \<Rightarrow> file_node \<Rightarrow> string \<Rightarrow> string \<Rightarrow> ('l, unit) step" where
  "fs_copy env src_node src p m =
     fs_call env (Copying src)
       (set_node p (Some ((case map_of (nodes m) p of None \<Rightarrow> new_node env p | Some x \<Rightarrow> x)
          \<lparr>node_text := node_text src_node, node_mode := node_mode src_node\<rparr>)))
       (torn_node env m p) m"

definition install_binary :: "'l mac_env \<Rightarrow> ('l, unit) step" where
  "install_binary env m =
     (case current_exe env of
        None \<Rightarrow> (Inl FindingExecutable, m)
      | Some (src, src_node) \<Rightarrow>
          (let tmp = with_file_name BIN ''.pai-sho.installing'' in
           followed_by (create_dir_all env (parent_dir BIN))
             (followed_by (fs_copy env src_node src tmp)
               (\<lambda>m. case place_binary env tmp BIN m of
                  (Inr _, m') \<Rightarrow> (Inr (), m')
                | (Inl e, m') \<Rightarrow> (Inl e, snd (remove_file env tmp m')))) m))"

subsection \<open>Waiting for the daemon\<close>

record install_view =
  view_key :: string
  view_peers :: nat

text \<open>What is made of the answer on the socket; None where connecting, writing, reading or parsing
  failed.\<close>

definition fetch_view :: "response option \<Rightarrow> install_view result" where
  "fetch_view r =
     (case r of
        None \<Rightarrow> Inl NotConnectedToDaemon
      | Some (RespList info) \<Rightarrow> Inr \<lparr>view_key = li_me info, view_peers = length (li_peers info)\<rparr>
      | Some (RespError e) \<Rightarrow> Inl e
      | Some _ \<Rightarrow> Inl UnexpectedResponse)"

text \<open>The i-th attempt is \<open>fetches env i\<close>, and the clock read after it \<open>clock env i\<close>. The loop may
  not end if the clock stands still.\<close>

partial_function (option) wait_loop :: "'l mac_env \<Rightarrow> nat \<Rightarrow> nat \<Rightarrow> install_view option option" where
  "wait_loop env deadline i =
     (case fetch_view (fetches env i) of
        Inr view \<Rightarrow> Some (Some view)
      | Inl _ \<Rightarrow> if clock env i < deadline then wait_loop env deadline (Suc i) else Some None)"

definition wait_for_daemon :: "'l mac_env \<Rightarrow> nat \<Rightarrow> install_view option option" where
  "wait_for_daemon env now = wait_loop env (now + secs 5) 0"

definition install_message :: "install_view option \<Rightarrow> string" where
  "install_message view =
     (case view of
        None \<Rightarrow> ''pai-sho is running. Not answering yet. Run `pai-sho key`.''
      | Some v \<Rightarrow>
          if view_peers v = 0
          then join [newline] [''pai-sho is running.'', [], ''This machine'' @ [quote] @ ''s key:'', [], ''  '' @ view_key v]
          else ''pai-sho is running. '' @
            (if view_peers v = 1 then ''1 peer'' else digits_of 10 (view_peers v) @ '' peers'') @ ''.'')"

subsection \<open>The commands\<close>

datatype privilege = Go | Stop error | Leave int

definition require_macos :: "'l mac_env \<Rightarrow> unit result" where
  "require_macos env = (if on_macos env then Inr () else Inl NotOnMacOS)"

text \<open>Not root: once, the command is run again under sudo and this process ends with its status.\<close>

definition ensure_root :: "'l mac_env \<Rightarrow> privilege" where
  "ensure_root env =
     (if is_root env then Go
      else if elevating env then Stop NeedsRoot
      else if current_exe env = None then Stop FindingExecutable
      else case sudo_status env of
             None \<Rightarrow> Stop (FailedToRun ''sudo'')
           | Some code \<Rightarrow> Leave (case code of None \<Rightarrow> 1 | Some c \<Rightarrow> c))"

definition prepare :: "'l mac_env \<Rightarrow> privilege" where
  "prepare env = (case require_macos env of Inl e \<Rightarrow> Stop e | Inr _ \<Rightarrow> ensure_root env)"

datatype command_end = Returned "unit result" | ProcessExit int

definition as_root :: "'l mac_env \<Rightarrow> ('l, unit) step \<Rightarrow> 'l mac \<Rightarrow> command_end \<times> 'l mac" where
  "as_root env body m =
     (case prepare env of
        Stop e \<Rightarrow> (Returned (Inl e), m)
      | Leave code \<Rightarrow> (ProcessExit code, m)
      | Go \<Rightarrow> (case body m of (r, m') \<Rightarrow> (Returned r, m')))"

definition install_steps :: "'l mac_env \<Rightarrow> ('l, unit) step" where
  "install_steps env =
     followed_by (ensure_dirs env)
       (followed_by (install_binary env)
         (followed_by (write_root_file env OPERATOR operator_script 493)
           (followed_by (write_root_file env PLIST plist 420) (start env True))))"

text \<open>None if waiting for the daemon never ends.\<close>

definition install :: "'l mac_env \<Rightarrow> nat \<Rightarrow> 'l mac \<Rightarrow> (command_end \<times> 'l mac) option" where
  "install env now m =
     (case as_root env (install_steps env) m of
        (Returned (Inr _), m1) \<Rightarrow>
          map_option (\<lambda>view. (Returned (Inr ()), snd (say (install_message view) m1))) (wait_for_daemon env now)
      | r \<Rightarrow> Some r)"

definition up_steps :: "'l mac_env \<Rightarrow> ('l, unit) step" where
  "up_steps env m =
     (if node_at m PLIST = None then (Inl NotInstalled, m)
      else case service_loaded env m of
        (restarting, m1) \<Rightarrow>
          followed_by (start env False)
            (say (if restarting then ''pai-sho restarted.'' else ''pai-sho is running.'')) m1)"

definition up :: "'l mac_env \<Rightarrow> 'l mac \<Rightarrow> command_end \<times> 'l mac" where
  "up env = as_root env (up_steps env)"

definition if_loaded :: "'l mac_env \<Rightarrow> ('l, unit) step \<Rightarrow> ('l, unit) step" where
  "if_loaded env body m = (case service_loaded env m of (loaded, m1) \<Rightarrow> if loaded then body m1 else (Inr (), m1))"

text \<open>launchctl is asked whether the job is loaded only where the plist is missing, and then again.\<close>

definition down_steps :: "'l mac_env \<Rightarrow> ('l, unit) step" where
  "down_steps env =
     followed_by
       (\<lambda>m. if node_at m PLIST = None
            then (case service_loaded env m of (loaded, m1) \<Rightarrow> (if loaded then Inr () else Inl NotInstalled, m1))
            else (Inr (), m))
       (followed_by (if_loaded env (launchctl env [''bootout'', domain]))
         (followed_by (launchctl env [''disable'', domain])
           (say ''pai-sho is stopped. It stays stopped until `pai-sho daemon up`.'')))"

definition down :: "'l mac_env \<Rightarrow> 'l mac \<Rightarrow> command_end \<times> 'l mac" where
  "down env = as_root env (down_steps env)"

definition ignoring :: "('l, unit) step \<Rightarrow> ('l, unit) step" where
  "ignoring body m = (Inr (), snd (body m))"

fun remove_files :: "'l mac_env \<Rightarrow> string list \<Rightarrow> ('l, unit) step" where
  "remove_files env [] = return_ok"
| "remove_files env (p # ps) = followed_by (remove_file env p) (remove_files env ps)"

definition remove_steps :: "'l mac_env \<Rightarrow> ('l, unit) step" where
  "remove_steps env =
     followed_by (if_loaded env (launchctl env [''bootout'', domain]))
       (followed_by (ignoring (launchctl env [''enable'', domain]))
         (followed_by (remove_files env [PLIST, OPERATOR, BIN, RESOLVER, LOG])
           (\<lambda>m. say (if node_at m KEY \<noteq> None then ''Service removed. Kept the key at '' @ KEY
                     else ''Service removed.'') m)))"

definition remove :: "'l mac_env \<Rightarrow> 'l mac \<Rightarrow> command_end \<times> 'l mac" where
  "remove env = as_root env (remove_steps env)"

subsection \<open>Status\<close>

record service_status =
  st_installed :: bool
  st_loaded :: bool
  st_disabled :: bool
  st_launchd_state :: "string option"
  st_pid :: "string option"
  st_socket_owner :: "string option"
  st_key_present :: bool
  st_resolver_present :: bool

definition label_disabled :: "string \<Rightarrow> string \<Rightarrow> bool" where
  "label_disabled text lbl =
     (let needle = [dquote] @ lbl @ [dquote] @ '' =>''
      in list_ex (\<lambda>l. case strip_prefix needle (trim l) of
                        None \<Rightarrow> False
                      | Some rest \<Rightarrow> first_word rest = Some ''disabled'') (text_lines text))"

definition field_line :: "string \<Rightarrow> string \<Rightarrow> string option" where
  "field_line key l =
     (case strip_prefix (key @ '' = '') (trim l) of
        None \<Rightarrow> None
      | Some v \<Rightarrow> if trim v = [] then None else Some (trim v))"

definition field :: "string \<Rightarrow> string \<Rightarrow> string option" where
  "field text key = (case List.map_filter (field_line key) (text_lines text) of [] \<Rightarrow> None | v # _ \<Rightarrow> Some v)"

text \<open>A uid that has no name is printed as a number.\<close>

definition socket_owner :: "'l mac_env \<Rightarrow> string \<Rightarrow> string option" where
  "socket_owner env path =
     (case metadata_uid env path of
        None \<Rightarrow> None
      | Some uid \<Rightarrow>
          (case getpwuid env uid of
             None \<Rightarrow> Some (digits_of 10 uid)
           | Some name \<Rightarrow> Some (from_utf8_lossy name)))"

definition gather :: "'l mac_env \<Rightarrow> ('l, service_status) step" where
  "gather env m0 =
     and_then (launchctl_stdout env [''print-disabled'', ''system''])
       (\<lambda>disabled_text. and_then (launchctl_output env [''print'', domain])
         (\<lambda>r m.
            let err = from_utf8_lossy (ctl_stderr r);
                txt = from_utf8_lossy (ctl_stdout r)
            in if \<not> ctl_success r \<and> \<not> contains_text ''Could not find service'' err
               then (Inl (LaunchctlFailed [''print'', domain] (trim err)), m)
               else (Inr \<lparr>st_installed = node_at m0 PLIST \<noteq> None, st_loaded = ctl_success r,
                          st_disabled = label_disabled disabled_text LABEL,
                          st_launchd_state = (if ctl_success r then field txt ''state'' else None),
                          st_pid = (if ctl_success r then field txt ''pid'' else None),
                          st_socket_owner = socket_owner env SOCKET,
                          st_key_present = node_at m KEY \<noteq> None,
                          st_resolver_present = node_at m RESOLVER \<noteq> None\<rparr>, m))) m0"

definition state_word :: "service_status \<Rightarrow> string" where
  "state_word st =
     (if st_loaded st then (case st_launchd_state st of Some w \<Rightarrow> w | None \<Rightarrow> ''loaded'')
      else if st_installed st then ''stopped'' else ''not installed'')"

record status_report =
  rp_service :: string
  rp_state :: string
  rp_pid :: "nat option"
  rp_disabled :: bool
  rp_installed :: bool
  rp_loaded :: bool
  rp_socket :: "string option"
  rp_socket_owner :: "string option"
  rp_key :: "string option"
  rp_resolver :: "string option"
  rp_log :: string

definition report :: "service_status \<Rightarrow> status_report" where
  "report st =
     \<lparr>rp_service = domain, rp_state = state_word st,
      rp_pid = Option.bind (st_pid st) (parse_unsigned 10 (2 ^ 32)),
      rp_disabled = st_disabled st, rp_installed = st_installed st, rp_loaded = st_loaded st,
      rp_socket = map_option (\<lambda>_. SOCKET) (st_socket_owner st), rp_socket_owner = st_socket_owner st,
      rp_key = (if st_key_present st then Some KEY else None),
      rp_resolver = (if st_resolver_present st then Some RESOLVER else None),
      rp_log = LOG\<rparr>"

definition status :: "'l mac_env \<Rightarrow> ('l, status_report) step" where
  "status env m =
     (case require_macos env of
        Inl e \<Rightarrow> (Inl e, m)
      | Inr _ \<Rightarrow> and_then (gather env) (\<lambda>st m. (Inr (report st), m)) m)"

end
