(* ===== verification/Ip_Round_Trip.thy ===== *)
theory Ip_Round_Trip
  imports Ip_Text
begin

text \<open>
  Parsing an address that was printed gives the address back, IPv6 with its compressed zeros and its
  embedded IPv4 addresses included.
\<close>

subsection \<open>Segments\<close>

lemma from_segments_step:
  fixes v :: "128 word"
  shows "push_bit 16 (drop_bit 16 v) + ucast (ucast v :: u16) = v"
proof -
  have "ucast (ucast v :: u16) = take_bit 16 v"
    by (rule bit_word_eqI) (auto simp: bit_simps)
  then show ?thesis using bits_ident [of 16 v] by simp
qed

lemma from_segments_upto:
  "k \<le> 8 \<Longrightarrow> from_segments (map (\<lambda>i. ucast (drop_bit (16 * (7 - i)) w)) [0..<k]) = drop_bit (16 * (8 - k)) (w :: 128 word)"
proof (induction k)
  case 0
  have "drop_bit 128 w = 0" by (rule bit_word_eqI) (auto simp: bit_simps)
  then show ?case by (simp add: from_segments_def)
next
  case (Suc k)
  have "drop_bit (16 * (8 - k)) w = drop_bit 16 (drop_bit (16 * (7 - k)) w)"
    using Suc.prems by (simp add: drop_bit_drop_bit algebra_simps Suc_diff_le)
  then show ?case using Suc from_segments_step [of "drop_bit (16 * (7 - k)) w"] by (simp add: from_segments_def)
qed

lemma from_segments_segments: "from_segments (segments w) = w"
  using from_segments_upto [of 8 w] by (simp add: segments_def)

lemma length_segments [simp]: "length (segments w) = 8"
  by (simp add: segments_def)

lemma u16_of_bytes: "u16_from_be (ucast (drop_bit 8 (g :: u16))) (ucast g) = g"
  using u16_be_roundtrip [of g] by (simp add: u16_to_be_def)

lemma ucast_segment:
  "ucast (drop_bit (8 + n) (w :: 128 word)) = (ucast (drop_bit 8 (ucast (drop_bit n w) :: u16)) :: u8)"
  "ucast (drop_bit n w) = (ucast (ucast (drop_bit n w) :: u16) :: u8)"
  by (rule bit_word_eqI; auto simp: bit_simps algebra_simps)+

subsection \<open>Runs of zeros\<close>

lemma zero_run_zeros: "take (zero_run gs) gs = replicate (zero_run gs) 0 \<and> zero_run gs \<le> length gs"
  by (induction gs) auto

lemma longest_zeros_zeros:
  assumes "longest_zeros gs = (start, n)"
  shows "gs = take start gs @ replicate n 0 @ drop (start + n) gs \<and> start + n \<le> length gs"
proof -
  let ?ok = "\<lambda>b. take (snd b) (drop (fst b) gs) = replicate (snd b) 0 \<and> fst b + snd b \<le> length gs"
  have "?ok (fold (\<lambda>i best. let n = zero_run (drop i gs) in if n > snd best then (i, n) else best) is b)"
    if "?ok b" "\<forall>i \<in> set is. i < length gs" for "is" b
    using that
  proof (induction "is" arbitrary: b)
    case (Cons i "is")
    have "?ok (i, zero_run (drop i gs))" using zero_run_zeros [of "drop i gs"] Cons.prems(2) by auto
    then show ?case using Cons by (simp add: Let_def)
  qed simp
  from this [of "(0, 0)" "[0..<length gs]"] assms
  have ok: "take n (drop start gs) = replicate n 0" "start + n \<le> length gs" by (simp_all add: longest_zeros_def)
  have "gs = take start gs @ take n (drop start gs) @ drop n (drop start gs)" by (simp only: append_take_drop_id)
  then show ?thesis using ok by (simp add: add.commute [of n])
qed

subsection \<open>Groups\<close>

lemma digit_value_colon: "digit_value r CHR '':'' = None" "digit_value r CHR ''.'' = None"
  by (simp_all add: digit_value_def Let_def)

lemma no_number:
  "rest = [] \<or> hd rest = CHR '':'' \<Longrightarrow> read_number r k z b rest = None"
  "rest = [] \<or> hd rest = CHR '':'' \<Longrightarrow> read_ipv4_addr rest = None"
  by (cases rest; simp add: read_number_def read_ipv4_addr_def read_octet_def read_separator_def digit_value_colon)+

lemma read_digits_rest: "read_digits r s = (ds, rest) \<Longrightarrow> set rest \<subseteq> set s"
  by (induction s arbitrary: ds) (fastforce split: option.splits prod.splits)+

text \<open>Text without a dot is not an IPv4 address.\<close>

lemma no_ipv4:
  assumes "CHR ''.'' \<notin> set s"
  shows "read_ipv4_addr s = None"
proof (cases "read_octet 0 s")
  case (Some x)
  obtain a t where x: "x = (a, t)" by fastforce
  have "set t \<subseteq> set s"
    using Some x read_digits_rest
    by (auto simp: read_octet_def read_separator_def read_number_def Let_def split: prod.splits if_splits)
  then have "read_given_char CHR ''.'' t = None" using assms by (cases t) auto
  then have "read_octet 1 t = None" by (simp add: read_octet_def read_separator_def)
  then show ?thesis using Some x by (simp add: read_ipv4_addr_def)
qed (simp add: read_ipv4_addr_def)

definition more_groups :: "u16 list \<Rightarrow> string" where
  "more_groups gs = concat (map (\<lambda>g. '':'' @ digits_of 16 (unat g)) gs)"

lemma hex_groups_Cons: "hex_groups (g # gs) = digits_of 16 (unat g) @ more_groups gs"
proof (induction gs arbitrary: g)
  case (Cons h gs)
  then show ?case by (simp add: hex_groups_def more_groups_def)
qed (simp add: hex_groups_def more_groups_def)

lemma digits_no_dot: "CHR ''.'' \<notin> set (digits_of 16 n)"
proof -
  obtain ds where "digits_of 16 n = map ((!) hex_digits) ds" "\<forall>d \<in> set ds. d < 16"
    using digits_of_list [of 16 n] by (auto simp: digit_list_def)
  moreover have "CHR ''.'' \<noteq> hex_digits ! d" if "d < 16" for d
    using that nth_mem [of d hex_digits] by (auto simp: hex_digits_def)
  ultimately show ?thesis by auto
qed

lemma groups_no_dot: "CHR ''.'' \<notin> set (more_groups gs)" "CHR ''.'' \<notin> set (hex_groups gs)"
proof -
  show m: "CHR ''.'' \<notin> set (more_groups gs)" for gs by (auto simp: more_groups_def digits_no_dot)
  show "CHR ''.'' \<notin> set (hex_groups gs)"
    using m digits_no_dot by (cases gs) (auto simp: hex_groups_Cons, simp add: hex_groups_def)
qed

text \<open>What ends a list of groups: the end of the text, or the compressed zeros.\<close>

definition stops_groups :: "string \<Rightarrow> bool" where
  "stops_groups rest \<longleftrightarrow> CHR ''.'' \<notin> set rest \<and> (rest = [] \<or> take 2 rest = ''::'')"

lemma read_group:
  assumes "rest = [] \<or> hd rest = CHR '':''"
  shows "read_number 16 4 True 65536 (digits_of 16 (unat (g :: u16)) @ rest) = Some (unat g, rest)"
  using read_number_digits [of 16 4 "unat g" 65536 rest True] unsigned_less [of g, where 'a = nat] assms
  by (auto simp: digit_value_colon)

lemma more_groups_hd: "stops_groups rest \<Longrightarrow> more_groups gs @ rest = [] \<or> hd (more_groups gs @ rest) = CHR '':''"
  by (cases gs; cases rest) (auto simp: stops_groups_def more_groups_def)

lemma read_groups_stop:
  assumes "stops_groups rest"
  shows "read_groups i limit rest = (([], False), rest)"
proof (cases "i = 0")
  case True
  have "rest = [] \<or> hd rest = CHR '':''" using assms by (cases rest) (auto simp: stops_groups_def)
  then show ?thesis using True no_number by (subst read_groups.simps) (simp add: read_separator_def)
next
  case False
  show ?thesis
  proof (cases rest)
    case Nil
    then show ?thesis using False by (subst read_groups.simps) (simp add: read_separator_def)
  next
    case (Cons c t)
    then have "c = CHR '':''" "hd t = CHR '':''" "t \<noteq> []"
      using assms by (cases t; auto simp: stops_groups_def)+
    then show ?thesis using Cons False no_number [of t]
      by (subst read_groups.simps) (simp add: read_separator_def)
  qed
qed

lemma read_more_groups:
  assumes "stops_groups rest" "i + length gs \<le> limit" "0 < i"
  shows "read_groups i limit (more_groups gs @ rest) = ((gs, False), rest)"
  using assms(2,3)
proof (induction gs arbitrary: i)
  case Nil
  then show ?case using read_groups_stop [OF assms(1)] by (simp add: more_groups_def)
next
  case (Cons g gs)
  let ?s = "digits_of 16 (unat g) @ more_groups gs @ rest"
  have "read_ipv4_addr ?s = None"
    using assms(1) groups_no_dot digits_no_dot by (intro no_ipv4) (auto simp: stops_groups_def)
  moreover have "read_number 16 4 True 65536 ?s = Some (unat g, more_groups gs @ rest)"
    by (rule read_group) (rule more_groups_hd [OF assms(1)])
  moreover have "more_groups (g # gs) @ rest = CHR '':'' # ?s" by (simp add: more_groups_def)
  ultimately show ?case using Cons
    by (subst read_groups.simps) (simp add: read_separator_def)
qed

lemma read_hex_groups:
  assumes "stops_groups rest" "length gs \<le> limit"
  shows "read_groups 0 limit (hex_groups gs @ rest) = ((gs, False), rest)"
proof (cases gs)
  case Nil
  then show ?thesis using read_groups_stop [OF assms(1)] by (simp add: hex_groups_def)
next
  case (Cons g hs)
  let ?s = "digits_of 16 (unat g) @ more_groups hs @ rest"
  have "read_ipv4_addr ?s = None"
    using assms(1) groups_no_dot digits_no_dot by (intro no_ipv4) (auto simp: stops_groups_def)
  moreover have "read_number 16 4 True 65536 ?s = Some (unat g, more_groups hs @ rest)"
    by (rule read_group) (rule more_groups_hd [OF assms(1)])
  moreover have "read_groups 1 limit (more_groups hs @ rest) = ((hs, False), rest)"
    using assms(2) Cons by (intro read_more_groups [OF assms(1)]) simp_all
  ultimately show ?thesis using Cons assms(2)
    by (subst read_groups.simps) (simp add: read_separator_def hex_groups_Cons)
qed

subsection \<open>IPv6 addresses round trip\<close>

lemma read_plain_ipv6:
  assumes "length gs = 8"
  shows "read_ipv6_addr (hex_groups gs) = Some (from_segments gs, [])"
  using read_hex_groups [of "[]" gs 8] assms by (simp add: read_ipv6_addr_def stops_groups_def)

lemma read_compressed_ipv6:
  assumes "length hs + length ts < 8"
  shows "read_ipv6_addr (hex_groups hs @ ''::'' @ hex_groups ts) =
    Some (from_segments (hs @ replicate (8 - length hs - length ts) 0 @ ts), [])"
proof -
  have "read_groups 0 8 (hex_groups hs @ ''::'' @ hex_groups ts) = ((hs, False), ''::'' @ hex_groups ts)"
    using assms groups_no_dot by (intro read_hex_groups) (auto simp: stops_groups_def)
  moreover have "read_groups 0 (8 - (length hs + 1)) (hex_groups ts) = ((ts, False), [])"
    using read_hex_groups [of "[]" ts "8 - (length hs + 1)"] assms by (simp add: stops_groups_def)
  ultimately show ?thesis using assms by (simp add: read_ipv6_addr_def)
qed

lemma read_mapped_ipv6:
  "read_ipv6_addr (''::ffff:'' @ ipv4_to_string (Ipv4 a b c d)) =
     Some (from_segments [0, 0, 0, 0, 0, 0xFFFF, u16_from_be a b, u16_from_be c d], [])"
proof -
  let ?v4 = "ipv4_to_string (Ipv4 a b c d)"
  have h: "read_groups 0 8 (''::ffff:'' @ ?v4) = (([], False), ''::ffff:'' @ ?v4)"
    using no_number [of "''::ffff:'' @ ?v4"] by (subst read_groups.simps) (simp add: read_separator_def)
  have f: "digits_of 16 (unat (0xFFFF :: u16)) = ''ffff''" by (simp add: digits_of.simps hex_digits_def)
  have g: "read_number 16 4 True 65536 (''ffff'' @ '':'' @ ?v4) = Some (65535, '':'' @ ?v4)"
    using read_group [of "'':'' @ ?v4" "0xFFFF"] unfolding f by simp
  have n: "read_ipv4_addr (''ffff'' @ '':'' @ ?v4) = None"
    by (simp add: read_ipv4_addr_def read_octet_def read_separator_def read_number_def digit_value_def Let_def)
  have "read_groups 1 7 ('':'' @ ?v4) = (([u16_from_be a b, u16_from_be c d], True), [])"
    using read_ipv4_printed [of "[]" "Ipv4 a b c d"]
    by (subst read_groups.simps) (simp add: read_separator_def)
  then have "read_groups 0 7 (''ffff'' @ '':'' @ ?v4) = (([0xFFFF, u16_from_be a b, u16_from_be c d], True), [])"
    using g n by (subst read_groups.simps) (simp add: read_separator_def)
  with h show ?thesis by (simp add: read_ipv6_addr_def numeral_eq_Suc)
qed

lemma segments_mapped:
  assumes "take 6 (segments w) = [0, 0, 0, 0, 0, 0xFFFF]"
  shows "[0, 0, 0, 0, 0, 0xFFFF, u16_from_be (ucast (drop_bit 24 w)) (ucast (drop_bit 16 w)),
    u16_from_be (ucast (drop_bit 8 w)) (ucast w)] = segments w"
proof -
  have "segments w = take 6 (segments w) @ [ucast (drop_bit 16 w), ucast w]"
    by (simp add: segments_def upt_conv_Cons)
  moreover have "u16_from_be (ucast (drop_bit 24 w)) (ucast (drop_bit 16 w)) = ucast (drop_bit 16 w)"
    using ucast_segment [of 16 w] u16_of_bytes [of "ucast (drop_bit 16 w)"] by simp
  moreover have "u16_from_be (ucast (drop_bit 8 w)) (ucast w) = ucast w"
    using ucast_segment [of 0 w] u16_of_bytes [of "ucast w"] by simp
  ultimately show ?thesis using assms by simp
qed

lemma read_ipv6_printed: "read_ipv6_addr (ipv6_to_string w) = Some (w, []) \<and> read_ipv4_addr (ipv6_to_string w) = None"
proof (cases "take 6 (segments w) = [0, 0, 0, 0, 0, 0xFFFF]")
  case True
  have t: "ipv6_to_string w = ''::ffff:'' @ ipv4_to_string
      (Ipv4 (ucast (drop_bit 24 w)) (ucast (drop_bit 16 w)) (ucast (drop_bit 8 w)) (ucast w))"
    using True by (simp add: ipv6_to_string_def Let_def)
  show ?thesis
    unfolding t read_mapped_ipv6 segments_mapped [OF True] from_segments_segments
    using no_number(2) by simp
next
  case False
  obtain start n where sn: "longest_zeros (segments w) = (start, n)" by fastforce
  note z = longest_zeros_zeros [OF sn]
  show ?thesis
  proof (cases "n > 1")
    case True
    let ?h = "take start (segments w)" and ?t = "drop (start + n) (segments w)"
    have t: "ipv6_to_string w = hex_groups ?h @ ''::'' @ hex_groups ?t"
      using False True sn by (simp add: ipv6_to_string_def Let_def)
    have len: "length ?h = start" "length ?t = 8 - (start + n)" "start + n \<le> 8" using z by auto
    then have "8 - length ?h - length ?t = n" by simp
    then have "?h @ replicate (8 - length ?h - length ?t) 0 @ ?t = segments w" using z by simp
    moreover have "length ?h + length ?t < 8" using len True by simp
    ultimately have "read_ipv6_addr (ipv6_to_string w) = Some (w, [])"
      using read_compressed_ipv6 [of ?h ?t] unfolding t by (simp only: from_segments_segments)
    moreover have "CHR ''.'' \<notin> set (ipv6_to_string w)" unfolding t using groups_no_dot by simp
    ultimately show ?thesis using no_ipv4 by blast
  next
    case n: False
    have t: "ipv6_to_string w = hex_groups (segments w)"
      using False n sn by (simp add: ipv6_to_string_def Let_def)
    show ?thesis
      using read_plain_ipv6 [of "segments w"] no_ipv4 [OF groups_no_dot(2)] unfolding t
      by (simp add: from_segments_segments)
  qed
qed

lemma parse_printed_ip: "parse_ip (ip_to_string ip) = Some ip"
proof (cases ip)
  case (V4 a)
  then show ?thesis using read_ipv4_printed [of "[]" a] by (simp add: parse_ip_def)
next
  case (V6 w)
  then show ?thesis using read_ipv6_printed [of w] by (simp add: parse_ip_def)
qed

end
