(* ===== verification/Client.thy ===== *)
theory Client
  imports Requests Launchd Ip_Round_Trip
begin

text \<open>
  The command line: its commands (\<open>src/main.rs\<close>), the client that sends one to the daemon
  (\<open>src/client.rs\<close>) and the daemon's end of that exchange (\<open>handle_client\<close> in \<open>src/daemon.rs\<close>). The
  arguments are parsed by clap from the declarations, so the model starts at the parsed command and
  states which ones the declarations let through. The JSON text is serde's: a parameter.
\<close>

subsection \<open>Commands\<close>

datatype daemon_service = Install | Up | Down | Remove | Status

record daemon_args =
  arg_service :: "daemon_service option"
  arg_host :: ip_addr
  arg_accept :: "string list"
  arg_ports :: "u16 list"
  arg_key_path :: "string option"
  arg_resolver :: "(ip_addr \<times> u16) option"
  arg_tun :: "string option"
  arg_socket_owner :: "string option"
  arg_socket_mode :: "string option"
  arg_name :: "string option"

datatype command =
    CmdDaemon daemon_args
  | CmdInvite "string option" "string option" "u16 list"
  | CmdAccept string "string option"
  | CmdForget string
  | CmdExpose u16 "string list" bool
  | CmdUnexpose u16 "string option"
  | CmdList
  | CmdKey
  | CmdProject string "ip_addr option" "string option"
  | CmdUnproject string

definition default_args :: "daemon_service option \<Rightarrow> daemon_args" where
  "default_args service =
     \<lparr>arg_service = service, arg_host = localhost, arg_accept = [], arg_ports = [], arg_key_path = None,
      arg_resolver = None, arg_tun = None, arg_socket_owner = None, arg_socket_mode = None, arg_name = None\<rparr>"

text \<open>What the declarations let through: the group \<open>grantees\<close> is required and its members exclude each
  other, and a service command takes none of the daemon's arguments.\<close>

fun cli_allows :: "command \<Rightarrow> bool" where
  "cli_allows (CmdExpose port to every) \<longleftrightarrow> (to \<noteq> []) \<noteq> every"
| "cli_allows (CmdDaemon d) \<longleftrightarrow> (arg_service d \<noteq> None \<longrightarrow> d = default_args (arg_service d))"
| "cli_allows _ \<longleftrightarrow> True"

text \<open>\<open>main\<close>: which part of the program a command runs.\<close>

datatype dispatch = RunService daemon_service | RunDaemon daemon_args | SendToDaemon command

fun main_dispatch :: "command \<Rightarrow> dispatch" where
  "main_dispatch (CmdDaemon d) = (case arg_service d of Some s \<Rightarrow> RunService s | None \<Rightarrow> RunDaemon d)"
| "main_dispatch cmd = SendToDaemon cmd"

text \<open>The request a command is sent as; None is \<open>unreachable!\<close>.\<close>

fun request_of :: "command \<Rightarrow> request option" where
  "request_of (CmdInvite key name ports) = Some (ReqInvite key name ports)"
| "request_of (CmdAccept hdl name) = Some (ReqAccept hdl name)"
| "request_of (CmdForget p) = Some (ReqForget p)"
| "request_of (CmdExpose port to every) = Some (ReqExpose port to every)"
| "request_of (CmdUnexpose port to) = Some (ReqUnexpose port to)"
| "request_of CmdList = Some ReqList"
| "request_of CmdKey = Some ReqKey"
| "request_of (CmdProject p ip name) = Some (ReqProject p (map_option ip_to_string ip) name)"
| "request_of (CmdUnproject p) = Some (ReqUnproject p)"
| "request_of (CmdDaemon d) = None"

subsection \<open>The exchange\<close>

record json =
  req_json :: "request \<Rightarrow> string"
  parse_req :: "string \<Rightarrow> request option"
  resp_json :: "response \<Rightarrow> string"
  parse_resp :: "string \<Rightarrow> response option"
  list_json :: "list_info \<Rightarrow> string"

text \<open>\<open>read_line\<close>: to the first line end, which it keeps, or to the end of the stream.\<close>

fun read_line :: "string \<Rightarrow> string" where
  "read_line [] = []"
| "read_line (c # s) = (if c = newline then [c] else c # read_line s)"

text \<open>How the socket behaves: a cut is a write that failed after so many bytes.\<close>

record socket =
  sk_connects :: bool
  sk_request_cut :: "nat option"
  sk_server_reads :: bool
  sk_reply_cut :: "nat option"
  sk_client_reads :: bool

definition cut :: "nat option \<Rightarrow> string \<Rightarrow> string" where
  "cut k s = (case k of None \<Rightarrow> s | Some n \<Rightarrow> take n s)"

text \<open>The daemon's end: the text it answers with, None where it gives up on the client.\<close>

definition handle_client ::
  "env \<Rightarrow> json \<Rightarrow> pm \<Rightarrow> string option \<Rightarrow> bytes \<Rightarrow> instant \<Rightarrow> string option \<times> pm" where
  "handle_client env j m stream rnd now =
     (case stream of
        None \<Rightarrow> (None, m)
      | Some s \<Rightarrow>
          (case parse_req j (read_line s) of
             None \<Rightarrow> (None, m)
           | Some r \<Rightarrow>
               (case handle_request env m r rnd now of
                  (resp, m') \<Rightarrow> (Some (resp_json j resp @ [newline]), m'))))"

datatype client_end = Panicked | Failed error | Printed string | ExitOne error

fun print_response :: "json \<Rightarrow> response \<Rightarrow> client_end" where
  "print_response j RespOk = Printed ''OK''"
| "print_response j (RespKey key) = Printed key"
| "print_response j (RespInvite invite) = Printed invite"
| "print_response j (RespList info) = Printed (list_json j (info\<lparr>li_cli := VERSION\<rparr>))"
| "print_response j (RespError e) = ExitOne e"

text \<open>The client and the daemon it talks to, whose state the exchange may change even if the client
  fails: it may have lost the connection after its request was delivered.\<close>

definition send_command ::
  "env \<Rightarrow> json \<Rightarrow> socket \<Rightarrow> pm \<Rightarrow> command \<Rightarrow> bytes \<Rightarrow> instant \<Rightarrow> client_end \<times> pm" where
  "send_command env j sk m cmd rnd now =
     (case request_of cmd of
        None \<Rightarrow> (Panicked, m)
      | Some r \<Rightarrow>
          if \<not> sk_connects sk then (Failed NotConnectedToDaemon, m)
          else
            let sent = cut (sk_request_cut sk) (req_json j r @ [newline])
            in (case handle_client env j m (if sk_server_reads sk then Some sent else None) rnd now of
                  (answer, m') \<Rightarrow>
                    if sk_request_cut sk \<noteq> None \<or> \<not> sk_client_reads sk then (Failed StreamReadError, m')
                    else
                      let reply = (case answer of None \<Rightarrow> [] | Some a \<Rightarrow> cut (sk_reply_cut sk) a)
                      in (case parse_resp j (read_line reply) of
                            None \<Rightarrow> (Failed UnexpectedResponse, m')
                          | Some resp \<Rightarrow> (print_response j resp, m'))))"

subsection \<open>What is relied on of the JSON text\<close>

text \<open>A value's text is not empty, has no line end, is read back with or without one after it, and is not complete
  before its end.\<close>

definition line_codec :: "('a \<Rightarrow> string) \<Rightarrow> (string \<Rightarrow> 'a option) \<Rightarrow> 'a \<Rightarrow> bool" where
  "line_codec enc dec x \<longleftrightarrow>
     enc x \<noteq> [] \<and> newline \<notin> set (enc x) \<and> dec (enc x) = Some x \<and> dec (enc x @ [newline]) = Some x \<and>
     (\<forall>k < length (enc x). dec (take k (enc x)) = None)"

lemma read_line_whole: "newline \<notin> set s \<Longrightarrow> read_line (s @ newline # t) = s @ [newline]"
  by (induction s) auto

lemma read_line_none: "newline \<notin> set s \<Longrightarrow> read_line s = s"
  by (induction s) auto

lemma read_cut_line:
  assumes "line_codec enc dec x"
  shows "dec (read_line (cut k (enc x @ [newline]))) = Some x \<or>
    k \<noteq> None \<and> dec (read_line (cut k (enc x @ [newline]))) = None"
proof (cases k)
  case None
  then show ?thesis using assms read_line_whole [of "enc x" "[]"] by (simp add: line_codec_def cut_def)
next
  case (Some n)
  have "read_line (take n (enc x @ [newline])) = take n (enc x @ [newline])"
  proof (cases "n \<le> length (enc x)")
    case True
    have "newline \<notin> set (take n (enc x))" using assms by (auto simp: line_codec_def dest: in_set_takeD)
    then show ?thesis using True by (simp add: read_line_none)
  next
    case False
    then show ?thesis using assms read_line_whole [of "enc x" "[]"] by (simp add: line_codec_def)
  qed
  moreover have "n < length (enc x) \<or> n = length (enc x) \<or> length (enc x) < n" by arith
  ultimately show ?thesis using assms Some by (auto simp: line_codec_def cut_def)
qed

lemma read_whole_line:
  "line_codec enc dec x \<Longrightarrow> dec (read_line (enc x @ [newline])) = Some x"
  using read_cut_line [of enc dec x None] by (simp add: cut_def)

lemma read_nothing: "line_codec enc dec x \<Longrightarrow> dec [] = None"
  unfolding line_codec_def using take_0 by (metis length_greater_0_conv)

lemma cut_reply:
  assumes "line_codec (resp_json j) (parse_resp j) resp" "answer = None \<or> answer = Some (resp_json j resp @ [newline])"
  shows "parse_resp j (read_line (case answer of None \<Rightarrow> [] | Some a \<Rightarrow> cut k a)) = None \<or>
    answer \<noteq> None \<and> parse_resp j (read_line (case answer of None \<Rightarrow> [] | Some a \<Rightarrow> cut k a)) = Some resp"
  using read_cut_line [OF assms(1), of k] read_nothing [OF assms(1)] assms(2) by auto

lemma handle_client_cut:
  assumes "handle_request env m r rnd now = (resp, m1)" "line_codec (req_json j) (parse_req j) r"
  shows "handle_client env j m (if reads then Some (cut k (req_json j r @ [newline])) else None) rnd now =
      (Some (resp_json j resp @ [newline]), m1) \<or>
    (k \<noteq> None \<or> \<not> reads) \<and>
      handle_client env j m (if reads then Some (cut k (req_json j r @ [newline])) else None) rnd now = (None, m)"
  using read_cut_line [OF assms(2), of k] assms(1) by (auto simp: handle_client_def)

lemma project_request:
  "handle_request env m (ReqProject p (map_option ip_to_string ip) name) rnd now = reply_unit (project env m p ip name)"
  by (cases ip) (simp_all add: parse_printed_ip)

lemma collect_length: "collect rs = Inr xs \<Longrightarrow> length xs = length rs"
  by (induction rs arbitrary: xs rule: collect.induct) (auto split: sum.splits)

lemma expose_request:
  assumes "handle_request env m (ReqExpose port to every) rnd now = (RespOk, m1)" "to \<noteq> [] \<or> every"
  shows "\<exists>ks. ks \<noteq> [] \<and> m1 = d_expose env m port ks"
proof -
  obtain ks where ks: "grantees_of env m to every = Inr ks" "m1 = d_expose env m port ks"
    using assms(1) by (auto split: sum.splits)
  have "ks \<noteq> []"
    using ks(1) assms(2) collect_length [of "map (resolve_grantee (e_parse_key env) (pm_session m)) to" ks]
    by (auto simp: grantees_of_def split: if_splits)
  with ks(2) show ?thesis by blast
qed

subsection \<open>Properties\<close>

text \<open>C18: a command does what its request does, and what the client prints is the daemon's answer to it.
  However the socket fails, the daemon is left as it was or as the request leaves it, and the
  client fails or prints that answer; it prints it when nothing fails, and an unreachable daemon is
  left as it was. An address given to \<open>project\<close> is the one the daemon is asked for, and an \<open>expose\<close>
  that the command line lets through and that succeeds grants its port to someone.\<close>

theorem command_exchange:
  assumes r: "request_of cmd = Some r" "handle_request env m r rnd now = (resp, m1)"
    and codec: "line_codec (req_json j) (parse_req j) r" "line_codec (resp_json j) (parse_resp j) resp"
    and sent: "send_command env j sk m cmd rnd now = (ce, m2)"
  shows "(ce = print_response j resp \<and> m2 = m1 \<or> (\<exists>e. ce = Failed e) \<and> (m2 = m \<or> m2 = m1)) \<and>
    (sk_connects sk \<and> sk_request_cut sk = None \<and> sk_server_reads sk \<and> sk_reply_cut sk = None \<and> sk_client_reads sk \<longrightarrow>
       ce = print_response j resp \<and> m2 = m1) \<and>
    (\<not> sk_connects sk \<longrightarrow> m2 = m) \<and>
    (\<forall>p ip name. cmd = CmdProject p ip name \<longrightarrow> (resp, m1) = reply_unit (project env m p ip name)) \<and>
    (\<forall>port to every. cmd = CmdExpose port to every \<and> cli_allows cmd \<and> resp = RespOk \<longrightarrow>
       (\<exists>ks. ks \<noteq> [] \<and> m1 = d_expose env m port ks))"
proof (intro conjI allI impI)
  let ?in = "if sk_server_reads sk then Some (cut (sk_request_cut sk) (req_json j r @ [newline])) else None"
  obtain answer m3 where a: "handle_client env j m ?in rnd now = (answer, m3)" by fastforce
  note hc = handle_client_cut [OF r(2) codec(1), of "sk_server_reads sk" "sk_request_cut sk", unfolded a]
  have ans: "answer = Some (resp_json j resp @ [newline]) \<and> m3 = m1 \<or> answer = None \<and> m3 = m" using hc by auto
  then have ans': "answer = None \<or> answer = Some (resp_json j resp @ [newline])" by blast
  note cr = cut_reply [OF codec(2) ans', of "sk_reply_cut sk"]
  show "ce = print_response j resp \<and> m2 = m1 \<or> (\<exists>e. ce = Failed e) \<and> (m2 = m \<or> m2 = m1)"
    using sent ans cr a r(1) by (auto simp: send_command_def Let_def split: if_splits option.splits)
  show "ce = print_response j resp" "m2 = m1"
    if ok: "sk_connects sk \<and> sk_request_cut sk = None \<and> sk_server_reads sk \<and> sk_reply_cut sk = None \<and> sk_client_reads sk"
    using sent hc a r(1) ok read_whole_line [OF codec(2)]
    by (simp_all add: send_command_def cut_def)
  show "m2 = m" if "\<not> sk_connects sk" using sent that r(1) by (simp add: send_command_def)
  show "(resp, m1) = reply_unit (project env m p ip name)" if "cmd = CmdProject p ip name" for p ip name
    using r that project_request [of env m p ip name rnd now] by simp
  show "\<exists>ks. ks \<noteq> [] \<and> m1 = d_expose env m port ks"
    if "cmd = CmdExpose port to every \<and> cli_allows cmd \<and> resp = RespOk" for port to every
    using expose_request [of env m port to every rnd now m1] r that by auto
qed

definition one_json :: "request \<Rightarrow> response \<Rightarrow> json" where
  "one_json r resp =
     \<lparr>req_json = (\<lambda>_. ''{}''), parse_req = (\<lambda>s. if s = ''{}'' \<or> s = ''{}'' @ [newline] then Some r else None),
      resp_json = (\<lambda>_. ''{}''), parse_resp = (\<lambda>s. if s = ''{}'' \<or> s = ''{}'' @ [newline] then Some resp else None),
      list_json = (\<lambda>_. ''{}'')\<rparr>"

lemma one_json_ok:
  "line_codec (req_json (one_json r resp)) (parse_req (one_json r resp)) r"
  "line_codec (resp_json (one_json r resp)) (parse_resp (one_json r resp)) resp"
  by (auto simp: line_codec_def one_json_def less_Suc_eq)

theorem command_exchange_witness:
  "\<exists>ce m2. send_command plain_env (one_json ReqKey (RespKey (hex_show (our_id plain_pm))))
       \<lparr>sk_connects = True, sk_request_cut = None, sk_server_reads = True, sk_reply_cut = None, sk_client_reads = True\<rparr>
       plain_pm CmdKey [] 0 = (ce, m2) \<and> ce = Printed (hex_show (our_id plain_pm)) \<and> m2 = plain_pm"
proof -
  let ?j = "one_json ReqKey (RespKey (hex_show (our_id plain_pm)))"
  let ?sk = "\<lparr>sk_connects = True, sk_request_cut = None, sk_server_reads = True, sk_reply_cut = None, sk_client_reads = True\<rparr>"
  obtain ce m2 where s: "send_command plain_env ?j ?sk plain_pm CmdKey [] 0 = (ce, m2)" by fastforce
  have "handle_request plain_env plain_pm ReqKey [] 0 = (RespKey (hex_show (our_id plain_pm)), plain_pm)" by simp
  from command_exchange [OF _ this one_json_ok s] have "ce = Printed (hex_show (our_id plain_pm)) \<and> m2 = plain_pm" by simp
  with s show ?thesis by blast
qed

end
