(* ===== verification/Replies.thy ===== *)
theory Replies
  imports Reach Client Invite_Flow
begin

text \<open>
  What the daemon answers on its socket, as the types of \<open>src/protocol.rs\<close> mean it: the response to a
  request is of the request's kind, keys and invitations in it can be read back, and a listing is
  consistent in itself.
\<close>

subsection \<open>Responses of the right kind\<close>

definition listed_peer_ok :: "(string \<Rightarrow> endpoint_id option) \<Rightarrow> peer_info \<Rightarrow> bool" where
  "listed_peer_ok parse_key p \<longleftrightarrow>
     parse_key (pi_key p) \<noteq> None \<and> pi_admission p \<in> {''added'', ''code'', ''key''} \<and>
     sorted (pi_bound p) \<and> distinct (pi_bound p) \<and> set (pi_bound p) \<subseteq> set (pi_they_expose p) \<and>
     (case pi_ip p of None \<Rightarrow> pi_bound p = [] | Some s \<Rightarrow> parse_ip s \<noteq> None)"

definition list_ok :: "(string \<Rightarrow> endpoint_id option) \<Rightarrow> list_info \<Rightarrow> bool" where
  "list_ok parse_key info \<longleftrightarrow>
     parse_key (li_me info) \<noteq> None \<and> list_all (listed_peer_ok parse_key) (li_peers info) \<and>
     distinct (map pi_key (li_peers info)) \<and> sorted (li_i_expose info) \<and> distinct (li_i_expose info) \<and>
     set (li_i_expose info) = gi_port ` set (li_grants info) \<and>
     list_all (\<lambda>g. parse_key (gi_to g) \<noteq> None) (li_grants info)"

fun fits :: "(string \<Rightarrow> endpoint_id option) \<Rightarrow> request \<Rightarrow> response \<Rightarrow> bool" where
  "fits parse_key ReqKey resp = (case resp of RespKey k \<Rightarrow> parse_key k \<noteq> None | _ \<Rightarrow> False)"
| "fits parse_key ReqList resp = (case resp of RespList info \<Rightarrow> list_ok parse_key info | _ \<Rightarrow> False)"
| "fits parse_key (ReqInvite None _ _) resp =
     (case resp of
        RespInvite t \<Rightarrow> (case handle_from_str parse_key t of Inr h \<Rightarrow> handle_code h \<noteq> None | Inl _ \<Rightarrow> False)
      | _ \<Rightarrow> False)"
| "fits parse_key _ resp = (case resp of RespOk \<Rightarrow> True | RespError _ \<Rightarrow> True | _ \<Rightarrow> False)"

lemma listed_peer_fits:
  assumes wf: "pm_wf m" and kc: "key_codec (e_show_key env) (e_parse_key env)" and e: "(k, a) \<in> set (peers m)"
  shows "listed_peer_ok (e_parse_key env) (peer_info_of env m a)"
proof -
  have a: "map_of (peers m) k = Some a" using pm_wfD(2) [OF wf] e by (simp add: hash_ok_def)
  then have at: "a < length (heap m)" "p_endpoint_id (heap m ! a) = k" using pm_wfD(6,7) [OF wf] by auto
  have p: "peer_wf (on_tun m) (heap m ! a)" using pm_wfD(4) [OF wf at(1)] .
  then have "distinct (keys (p_bindings (heap m ! a)))" by (simp add: peer_wf_def bound_at_surface_def hash_ok_def)
  moreover obtain x where "map_of (s_peers (pm_session m)) k = Some x"
    using a member_iff_admitted [OF wf, of k] by (cases "map_of (s_peers (pm_session m)) k") (auto simp: map_of_eq_None_iff)
  then obtain adm where "admission_of (pm_session m) k = Some adm" by (simp add: admission_of_def)
  moreover have "admission_as_str adm \<in> {''added'', ''code'', ''key''}" by (cases adm) simp_all
  ultimately show ?thesis
    using p at kc bound_at_no_surface [of "on_tun m" "heap m ! a"]
    by (simp add: listed_peer_ok_def peer_info_of_def Let_def peer_wf_def key_codecD(1) parse_printed_ip split: option.split)
qed

lemma listing_fits:
  assumes wf: "pm_wf m" and kc: "key_codec (e_show_key env) (e_parse_key env)"
  shows "list_ok (e_parse_key env) (d_list env m)"
proof -
  have g: "grants_wf (s_grants (pm_session m))" using pm_wfD(1) [OF wf] by (simp add: session_wf_def)
  have "inj (e_show_key env)" by (rule injI) (metis key_codecD(1) [OF kc] option.inject)
  then have "distinct (map (e_show_key env) (keys (peers m)))"
    using pm_wfD(2) [OF wf] by (simp add: hash_ok_def distinct_map inj_on_def)
  moreover have "map pi_key (list_peers env m) = map (e_show_key env) (keys (peers m))"
    using wf by (auto simp: list_peers_def peer_info_of_def Let_def pm_wf_but_def map_wf_def)
  moreover have "list_all (listed_peer_ok (e_parse_key env)) (list_peers env m)"
    using listed_peer_fits [OF wf kc] by (auto simp: list_peers_def list_all_iff)
  moreover have "set (granted_ports (pm_session m)) = fst ` set (all_grants (pm_session m))"
    using grants_ports_set [OF g] grants_all_set [OF g] by (force simp: granted_ports_def all_grants_def)
  moreover have "sorted (granted_ports (pm_session m))" "distinct (granted_ports (pm_session m))"
    using g by (simp_all add: granted_ports_def grants_ports_def grants_wf_def hash_ok_def)
  ultimately show ?thesis
    using key_codecD(1) [OF kc] by (simp add: list_ok_def d_list_def list_all_iff image_image)
qed

lemma invitation_fits:
  assumes "key_codec (e_show_key env) (e_parse_key env)" "rnd \<noteq> []"
  shows "fits (e_parse_key env) (ReqInvite None name ports) (fst (d_invite env m None name ports rnd now))"
  using printed_invite_parses [OF assms(1), of "hex_bytes rnd" "our_id m"] hex_bytes_code [OF assms(2)]
  by (simp add: d_invite_def mint_token_def mint_def mint_with_ttl_def Let_def)

lemma reply_unit_kind: "case fst (reply_unit x) of RespOk \<Rightarrow> True | RespError _ \<Rightarrow> True | _ \<Rightarrow> False"
  by (cases x rule: reply_unit.cases) simp_all

lemma invite_key_kind: "case fst (d_invite env m (Some k) name ports rnd now) of RespOk \<Rightarrow> True | RespError _ \<Rightarrow> True | _ \<Rightarrow> False"
  by (auto simp: d_invite_def split: prod.split sum.split option.split)

subsection \<open>Properties\<close>

text \<open>C10: every response is of the kind its request calls for. A request for the key or for a listing is
  always answered with one, the printed keys, invitations and addresses can be read back, a request
  that changes something is answered with ok or an error. A listing names each peer once, with how it was
  admitted, with bound ports only among those the peer announced and only if it has an address, and
  the ports exposed are the ports of the grants. The view that the installer takes of the daemon is its key and the number of
  its peers.\<close>

theorem replies_are_well_typed:
  assumes wf: "pm_wf m" and kc: "key_codec (e_show_key env) (e_parse_key env)" and rnd: "rnd \<noteq> []"
  shows "fits (e_parse_key env) r (fst (handle_request env m r rnd now)) \<and>
    fetch_view (Some (fst (handle_request env m ReqList rnd now))) =
      Inr \<lparr>view_key = e_show_key env (our_id m), view_peers = length (peers m)\<rparr>"
proof
  show "fits (e_parse_key env) r (fst (handle_request env m r rnd now))"
  proof (cases r)
    case (ReqInvite key name ports)
    then show ?thesis
      using invitation_fits [OF kc rnd, of name ports m now] invite_key_kind [of env m _ name ports rnd now]
      by (cases key) simp_all
  qed (use listing_fits [OF wf kc] key_codecD(1) [OF kc] in \<open>simp_all add: reply_unit_kind split: option.split sum.split\<close>)
qed (simp add: fetch_view_def d_list_def list_peers_def)

theorem replies_are_well_typed_witness:
  "fits hex_parse ReqList (fst (handle_request plain_env (paired (EndpointId [1]) (EndpointId [2])) ReqList [7] 0)) \<and>
   fetch_view (Some (fst (handle_request plain_env (paired (EndpointId [1]) (EndpointId [2])) ReqList [7] 0))) =
     Inr \<lparr>view_key = hex_show (EndpointId [1]), view_peers = 1\<rparr>"
proof -
  have "key_codec (e_show_key plain_env) (e_parse_key plain_env)" by (simp add: hex_codec)
  from replies_are_well_typed [OF paired_wf [of "EndpointId [1]" "EndpointId [2]"] this, of "[7]" ReqList 0]
  show ?thesis by (simp add: paired_at)
qed

end
