(* ===== verification/Hearing.thy ===== *)
theory Hearing
  imports Requests
begin

text \<open>
  What a daemon holds for true of its peers it was told by them: the ports listed for a peer, and so
  the ports bound for it, come from the messages of that very peer, on its connection as a peer or
  on the one it enrolled on. Everything else that happens is quiet: it changes no list of ports.
\<close>

subsection \<open>Quiet steps\<close>

text \<open>The objects keep their key and their ports, new ones have none, connections stay with their remote,
  and what waits in enrollments is untouched.\<close>

definition quiet :: "pm \<Rightarrow> pm \<Rightarrow> bool" where
  "quiet m m' \<longleftrightarrow>
     length (heap m) \<le> length (heap m') \<and>
     (\<forall>a < length (heap m). p_exposed_ports (heap m' ! a) = p_exposed_ports (heap m ! a) \<and>
        p_endpoint_id (heap m' ! a) = p_endpoint_id (heap m ! a)) \<and>
     (\<forall>a < length (heap m'). length (heap m) \<le> a \<longrightarrow> p_exposed_ports (heap m' ! a) = []) \<and>
     length (conns m) \<le> length (conns m') \<and>
     (\<forall>c < length (conns m). c_remote (conns m' ! c) = c_remote (conns m ! c)) \<and>
     enrolling m' = enrolling m \<and> s_pending (pm_session m') = s_pending (pm_session m)"

named_theorems quiet_intros

lemma quiet_refl [quiet_intros]: "quiet m m"
  by (simp add: quiet_def)

lemma quiet_trans:
  assumes "quiet m m'" "quiet m' m''"
  shows "quiet m m''"
proof -
  have "p_exposed_ports (heap m'' ! a) = []" if "a < length (heap m'')" "length (heap m) \<le> a" for a
    using assms that unfolding quiet_def by (cases "a < length (heap m')") auto
  then show ?thesis using assms unfolding quiet_def by auto
qed

lemma quiet_fold:
  assumes "\<And>x m. quiet m (f x m)"
  shows "quiet m (fold f xs m)"
  by (induction xs arbitrary: m) (auto intro: quiet_refl quiet_trans assms)

text \<open>The primitive steps.\<close>

lemma quiet_fields [quiet_intros]:
  "quiet m m' \<Longrightarrow> quiet m (m'\<lparr>pins_file := f\<rparr>)" "quiet m m' \<Longrightarrow> quiet m (m'\<lparr>surfaces_file := f\<rparr>)"
  "quiet m m' \<Longrightarrow> quiet m (m'\<lparr>pm_netstack := ns\<rparr>)" "quiet m m' \<Longrightarrow> quiet m (m'\<lparr>calls := n\<rparr>)"
  "quiet m m' \<Longrightarrow> quiet m (m'\<lparr>peers := ps\<rparr>)" "quiet m m' \<Longrightarrow> quiet m (m'\<lparr>next_conn_id := i\<rparr>)"
  "quiet m m' \<Longrightarrow> s_pending s = s_pending (pm_session m') \<Longrightarrow> quiet m (m'\<lparr>pm_session := s\<rparr>)"
  by (simp_all add: quiet_def)

lemma quiet_set_peer [quiet_intros]:
  assumes "quiet m m'" "\<And>p. p_exposed_ports (f p) = p_exposed_ports p" "\<And>p. p_endpoint_id (f p) = p_endpoint_id p"
  shows "quiet m (set_peer m' a f)"
proof -
  have "length (heap (set_peer m' a f)) = length (heap m')" by (simp add: set_peer_def)
  then have "quiet m' (set_peer m' a f)"
    unfolding quiet_def by (simp add: set_peer_nth assms(2,3)) (simp add: set_peer_def)
  then show ?thesis by (rule quiet_trans [OF assms(1)])
qed

lemma quiet_conns:
  assumes "length (conns m) \<le> length cs" "\<And>c. c < length (conns m) \<Longrightarrow> c_remote (cs ! c) = c_remote (conns m ! c)"
  shows "quiet m (m\<lparr>conns := cs\<rparr>)"
  using assms by (simp add: quiet_def)

lemma remote_update: "c_remote x = c_remote (cs ! c) \<Longrightarrow> c_remote (cs[c := x] ! i) = c_remote (cs ! i)"
  by (cases "c < length cs"; cases "i = c") (simp_all add: list_update_beyond)

lemma quiet_close [quiet_intros]:
  assumes "quiet m m'"
  shows "quiet m (close_conn m' c reason)"
  unfolding close_conn_def
  by (rule quiet_trans [OF assms], rule quiet_conns) (auto simp: remote_update split: option.splits)

lemma quiet_message: "quiet m (snd (send_message env m c msg))"
proof -
  have "quiet m (m\<lparr>conns := (conns m)[c := (conns m ! c)\<lparr>c_sent := ds\<rparr>]\<rparr>)" for ds
    by (rule quiet_conns) (simp_all add: remote_update)
  then show ?thesis by (simp add: send_message_def quiet_refl split: option.splits)
qed

lemma quiet_send [quiet_intros]: "quiet m m' \<Longrightarrow> quiet m (send_to env m' a msg)"
  by (auto simp: send_to_def split: option.splits intro: quiet_trans quiet_message)

lemma quiet_announce [quiet_intros]: "quiet m m' \<Longrightarrow> quiet m (announce_to env m' a)"
  by (simp add: announce_to_def announce_def send_ports_def quiet_send)

lemma quiet_broadcast [quiet_intros]: "quiet m m' \<Longrightarrow> quiet m (broadcast_grants env m')"
  unfolding broadcast_grants_def by (rule quiet_trans, assumption, rule quiet_fold) (intro quiet_intros)

lemma quiet_new_conn [quiet_intros]: "quiet m m' \<Longrightarrow> quiet m (new_conn m' remote opens)"
  unfolding new_conn_def by (rule quiet_trans, assumption, rule quiet_conns) (simp_all add: nth_append)

lemma quiet_install:
  assumes "quiet m m'" "p_exposed_ports p = []"
  shows "quiet m (install_peer m' key p)"
proof -
  have "quiet m' (install_peer m' key p)"
    unfolding quiet_def by (auto simp: install_peer_def nth_append assms(2) less_Suc_eq)
  then show ?thesis by (rule quiet_trans [OF assms(1)])
qed

subsection \<open>The operations\<close>

lemma pending_ops [simp]:
  "s_pending (snd (admit_known s k l adm)) = s_pending s" "s_pending (snd (expose s p ks)) = s_pending s"
  "s_pending (snd (unexpose s p t)) = s_pending s" "s_pending (snd (mint_token s n ps rnd now)) = s_pending s"
  "s_pending (snd (evict s k)) = s_pending s"
  by (simp_all add: admit_known_def expose_def unexpose_def mint_token_def evict_def Let_def split: option.splits prod.splits)

lemma quiet_expose [quiet_intros]: "quiet m m' \<Longrightarrow> quiet m (d_expose env m' port ks)"
  unfolding d_expose_def by (intro quiet_intros) simp_all

lemma quiet_unexpose [quiet_intros]: "quiet m m' \<Longrightarrow> quiet m (d_unexpose env m' port t)"
  unfolding d_unexpose_def by (intro quiet_intros) simp_all

lemma quiet_add_peer: "quiet m (snd (add_peer m key name code))"
  by (auto simp: add_peer_def peer_new_def intro!: quiet_intros quiet_install)

lemma quiet_add_pinned: "quiet m (snd (add_pinned env m key name))"
  by (auto simp: add_pinned_def peer_new_def split: option.splits intro!: quiet_intros quiet_install)

lemma quiet_pin_peer: "quiet m (snd (pin_peer env m key name))"
  using quiet_add_pinned [of m env key name]
  by (auto simp: pin_peer_def split: prod.splits sum.splits intro!: quiet_intros)

lemma quiet_exposes: "quiet m (fold (\<lambda>port m. d_expose env m port ks) ports m)"
  by (rule quiet_fold) (intro quiet_intros)

lemma quiet_invite: "quiet m (snd (d_invite env m key name ports rnd now))"
proof -
  have "quiet m (fold (\<lambda>port m. d_expose env m port ks) ports (snd (pin_peer env m k name)))" for ks k
    by (rule quiet_trans [OF quiet_pin_peer quiet_exposes])
  moreover have "quiet m (m\<lparr>pm_session := snd (mint_token (pm_session m) name ports rnd now)\<rparr>)"
    by (intro quiet_intros) simp
  ultimately show ?thesis
    using quiet_pin_peer [of m env "the key" name]
    by (auto simp: d_invite_def split: option.splits prod.splits sum.splits) (metis snd_conv)+
qed

lemma quiet_startup: "quiet m (run_startup env m accept ports)"
proof -
  have "quiet m (fold (\<lambda>h m. snd (add_peer m (handle_key h) None (handle_code h))) hs
      (fold (\<lambda>port m. d_expose env m port ks) ports m))" for hs ks
    by (rule quiet_trans [OF quiet_exposes]) (rule quiet_fold, rule quiet_add_peer)
  then show ?thesis by (auto simp: run_startup_def Let_def intro: quiet_intros quiet_exposes)
qed

text \<open>The work on surfaces and bindings.\<close>

lemma quiet_release: "quiet m (release_binding m a port)"
  by (auto simp: release_binding_def Let_def split: option.splits ip_addr.splits intro!: quiet_intros)

lemma quiet_release_all [quiet_intros]: "quiet m m' \<Longrightarrow> quiet m (release_all m' a)"
  unfolding release_all_def by (rule quiet_trans, assumption, rule quiet_fold, rule quiet_release)

lemma quiet_claim [quiet_intros]: "quiet m m' \<Longrightarrow> quiet m (snd (claim_addr env m' ip name))"
  by (auto simp: claim_addr_def split: option.splits ip_addr.splits intro!: quiet_intros)

lemma quiet_unclaim [quiet_intros]: "quiet m m' \<Longrightarrow> quiet m (snd (unclaim_addr env m' ip))"
  by (auto simp: unclaim_addr_def split: option.splits ip_addr.splits intro!: quiet_intros)

lemma quiet_bind_one: "quiet m (bind_one env m a ip port)"
proof -
  have "quiet m (m\<lparr>calls := n\<rparr>)" for n by (intro quiet_intros)
  moreover obtain n where "snd (bind_loop BIND_ATTEMPTS env m ip port) = m\<lparr>calls := n\<rparr>"
    using bind_loop_calls by blast
  ultimately show ?thesis
    by (auto simp: bind_one_def record_binding_def split: option.splits ip_addr.splits prod.splits bool.splits intro!: quiet_intros)
qed

lemma quiet_bind_missing [quiet_intros]: "quiet m m' \<Longrightarrow> quiet m (bind_missing env a ip ports m')"
  unfolding bind_missing_def by (rule quiet_trans, assumption, rule quiet_fold) (simp add: quiet_refl quiet_bind_one)

lemma quiet_drop_surface [quiet_intros]: "quiet m m' \<Longrightarrow> quiet m (drop_surface env m' a)"
  by (auto simp: drop_surface_def split: option.splits intro!: quiet_intros)

lemma quiet_place: "quiet m (snd (place_surface env m key a ip name))"
proof -
  have "quiet m (snd (claim_addr env m ip name))" by (intro quiet_intros)
  then show ?thesis
    by (auto simp: place_surface_def persist_surface_def Let_def split: prod.splits sum.splits intro!: quiet_intros)
qed

lemma quiet_project: "quiet m (snd (project env m peer_ref ip name))"
proof -
  have t: "quiet m (teardown_surface env m a)" for a
    by (auto simp: teardown_surface_def split: option.splits intro!: quiet_intros)
  have "quiet m (snd (place_surface env (teardown_surface env m a) key a addr name'))" for a key addr name'
    by (rule quiet_trans [OF t quiet_place])
  then show ?thesis using t by (auto simp: project_def Let_def quiet_refl split: option.splits sum.splits)
qed

lemma quiet_unproject: "quiet m (snd (unproject env m peer_ref))"
proof -
  have "quiet m (snd (unclaim_addr env (set_peer (release_all m a) a (\<lambda>p. p\<lparr>p_surface := None\<rparr>)) ip))" for a ip
    by (intro quiet_intros) simp_all
  then show ?thesis
    by (auto simp: unproject_def quiet_refl split: option.splits prod.splits sum.splits) (metis snd_conv quiet_fields(2))+
qed

lemma quiet_forget: "quiet m (snd (remove_peer env m peer_ref))"
proof -
  have o: "quiet m (evict_object env m key reason)" for key reason
    by (auto simp: evict_object_def Let_def take_connection_def split: option.splits intro!: quiet_intros)
  have "quiet m (evict_peer env m key reason)" for key reason
  proof -
    let ?m = "evict_object env m key reason"
    obtain acts s where e: "evict (pm_session ?m) key = (acts, s)" by fastforce
    then have "s_pending s = s_pending (pm_session ?m)" using pending_ops(5) [of "pm_session ?m" key] by simp
    then have "quiet m (fold (drop_pin env) acts (?m\<lparr>pm_session := s\<rparr>))"
      by (intro quiet_trans [OF quiet_fields(7) [OF o] quiet_fold])
        (auto simp: drop_pin_def split: action.splits intro!: quiet_intros)
    then show ?thesis unfolding evict_peer_def Let_def e by (simp add: quiet_fields)
  qed
  then show ?thesis by (simp add: remove_peer_def quiet_refl split: option.splits)
qed

lemma quiet_request: "quiet m (snd (handle_request env m r rnd now))"
  by (cases r) (auto simp: quiet_refl quiet_invite quiet_project quiet_unproject quiet_forget d_accept_def quiet_add_peer
      split: option.splits sum.splits intro!: quiet_intros)

subsection \<open>Connections\<close>

lemma quiet_actions:
  assumes "quiet m m'" "\<forall>k ports. ApplyPorts k ports \<notin> set acts"
  shows "quiet m (apply_actions env m' a acts)"
  unfolding apply_actions_def using assms
proof (induction acts arbitrary: m')
  case (Cons x acts)
  then have "quiet m (apply_action env a x m')"
    by (cases x) (auto simp: apply_action_def send_ports_def intro!: quiet_intros)
  then show ?case using Cons by simp
qed simp

lemma quiet_install_connection [quiet_intros]: "quiet m m' \<Longrightarrow> quiet m (install_connection m' a c by_us)"
  by (auto simp: install_connection_def Let_def split: option.splits intro!: quiet_intros)

lemma quiet_dialed: "quiet m m' \<Longrightarrow> quiet m (dialed env m' a c)"
  by (auto simp: dialed_def Let_def split: option.splits intro!: quiet_intros intro: quiet_trans quiet_message)

subsection \<open>Messages\<close>

text \<open>Who says what, where an event brings the message of a peer.\<close>

fun told :: "pm \<Rightarrow> daemon_event \<Rightarrow> (endpoint_id \<times> bytes) option" where
  "told m (UniStream a (Some d)) = (if length d \<le> READ_LIMIT then Some (p_endpoint_id (heap m ! a), d) else None)"
| "told m (EnrollmentStream i (Some d) now) =
     (case map_of (enrolling m) i of
        Some en \<Rightarrow> if length d \<le> READ_LIMIT then Some (c_remote (conns m ! en_conn en), d) else None
      | None \<Rightarrow> None)"
| "told m _ = None"

definition ports_in :: "env \<Rightarrow> bytes \<Rightarrow> u16 set" where
  "ports_in env d = (case e_decode env d of Some (ExposedPorts ports) \<Rightarrow> set ports | _ \<Rightarrow> {})"

definition heard :: "env \<Rightarrow> pm \<Rightarrow> daemon_event \<Rightarrow> (endpoint_id \<times> u16) set" where
  "heard env m e = (case told m e of None \<Rightarrow> {} | Some (k, d) \<Rightarrow> {k} \<times> ports_in env d)"

text \<open>The ports listed for an object, and those an enrollment brings along, were heard from its key.\<close>

definition ports_heard :: "(endpoint_id \<times> u16) set \<Rightarrow> pm \<Rightarrow> bool" where
  "ports_heard H m \<longleftrightarrow>
     (\<forall>a < length (heap m). \<forall>p \<in> set (p_exposed_ports (heap m ! a)). (p_endpoint_id (heap m ! a), p) \<in> H)"

definition early_heard :: "(endpoint_id \<times> u16) set \<Rightarrow> pm \<Rightarrow> bool" where
  "early_heard H m \<longleftrightarrow>
     (\<forall>i en. map_of (enrolling m) i = Some en \<longrightarrow>
        (\<forall>p \<in> set (early_of (pm_session m) i). (c_remote (conns m ! en_conn en), p) \<in> H))"

lemma heard_mono:
  "ports_heard H m \<Longrightarrow> H \<subseteq> H' \<Longrightarrow> ports_heard H' m" "early_heard H m \<Longrightarrow> H \<subseteq> H' \<Longrightarrow> early_heard H' m"
  by (auto simp: ports_heard_def early_heard_def)

lemma quiet_heard:
  assumes q: "quiet m m'" and wf: "\<And>i en. map_of (enrolling m) i = Some en \<Longrightarrow> en_conn en < length (conns m)"
  shows "ports_heard H m \<Longrightarrow> ports_heard H m'" "early_heard H m \<Longrightarrow> early_heard H m'"
proof -
  assume h: "ports_heard H m"
  have "(p_endpoint_id (heap m' ! a), p) \<in> H" if "a < length (heap m')" "p \<in> set (p_exposed_ports (heap m' ! a))" for a p
    using q h that unfolding quiet_def ports_heard_def by (cases "a < length (heap m)") auto
  then show "ports_heard H m'" by (simp add: ports_heard_def)
next
  assume "early_heard H m"
  then show "early_heard H m'"
    using q wf by (simp add: quiet_def early_heard_def early_of_def)
qed

lemma quiet_both:
  "quiet m m' \<Longrightarrow> ports_heard H m \<Longrightarrow> early_heard H m \<Longrightarrow> pm_wf m \<Longrightarrow> ports_heard H m' \<and> early_heard H m'"
  using quiet_heard [of m m' H] pm_wfD(9) [of "{}" m] by simp

lemma exposed_update: "a < length (heap m) \<Longrightarrow> p_exposed_ports (heap (update_peer_ports env m a ports) ! a) = ports"
proof -
  assume a: "a < length (heap m)"
  obtain r m2 where "a < length (heap m2)" "update_peer_ports env m a ports =
      set_peer (case r of None \<Rightarrow> m2 | Some ip \<Rightarrow> bind_missing env a ip ports m2) a (\<lambda>p. p\<lparr>p_exposed_ports := ports\<rparr>)"
    by (rule update_ports_stages [OF a, of env ports])
  moreover have "length (heap (bind_missing env a ip ports m2)) = length (heap m2)" for ip
    by (rule touches_keeps(11) [OF touches_bind_missing])
  ultimately show ?thesis by (cases r) (simp_all add: set_peer_nth)
qed

lemma heard_update:
  assumes "ports_heard H m" "{p_endpoint_id (heap m ! a)} \<times> set ports \<subseteq> H"
  shows "ports_heard H (update_peer_ports env m a ports)"
proof -
  have t: "touches a m (update_peer_ports env m a ports)" by (rule touches_update_ports)
  have "(p_endpoint_id (heap (update_peer_ports env m a ports) ! b), p) \<in> H"
    if "b < length (heap m)" "p \<in> set (p_exposed_ports (heap (update_peer_ports env m a ports) ! b))" for b p
    using assms that exposed_update [of a m env ports] touches_keeps(13) [OF t] touches_keeps_peer [OF t, of b]
    by (cases "b = a") (auto simp: peer_kept_def ports_heard_def)
  then show ?thesis using touches_keeps(11) [OF t] by (simp add: ports_heard_def)
qed

lemma early_touches:
  assumes "touches a m m'" "early_heard H m"
  shows "early_heard H m'"
  using assms(2) by (simp add: early_heard_def touches_keeps(2,4,9) [OF assms(1)])

subsection \<open>Enrollments\<close>

text \<open>An enrollment that is over takes what it brought along with it.\<close>

lemma early_deleted:
  assumes "early_heard H m" "\<And>j. j \<noteq> i \<Longrightarrow> map_of (s_pending s) j = map_of (s_pending (pm_session m)) j"
  shows "early_heard H (m\<lparr>pm_session := s, enrolling := AList.delete i (enrolling m)\<rparr>)"
  using assms by (auto simp: early_heard_def early_of_def delete_conv' split: if_splits)

lemma early_irrelevant:
  assumes "early_heard H m" "enrolling m' = enrolling m" "pm_session m' = pm_session m"
    "\<And>i en. map_of (enrolling m) i = Some en \<Longrightarrow> c_remote (conns m' ! en_conn en) = c_remote (conns m ! en_conn en)"
  shows "early_heard H m'"
  using assms by (simp add: early_heard_def)

lemma heard_refused:
  assumes h: "ports_heard H m" "early_heard H m" and na: "\<not> list_ex is_admit acts"
    and s: "\<And>j. j \<noteq> i \<Longrightarrow> map_of (s_pending s) j = map_of (s_pending (pm_session m)) j"
    and m': "m' = settle_enrollment env (m\<lparr>pm_session := s\<rparr>) i en acts"
  shows "ports_heard H m' \<and> early_heard H m'"
proof -
  let ?m = "m\<lparr>pm_session := s, enrolling := AList.delete i (enrolling m)\<rparr>"
  obtain reason where r: "m' = close_conn ?m (en_conn en) reason"
    using na m' by (auto simp: settle_enrollment_def Let_def split: list.splits)
  have "c_remote (conns (close_conn ?m (en_conn en) reason) ! c) = c_remote (conns ?m ! c)" for c
    by (auto simp: close_conn_def remote_update split: option.splits)
  then have "early_heard H m'"
    unfolding r using early_deleted [OF h(2) s] by (auto simp: early_heard_def close_conn_def)
  moreover have "ports_heard H m'" using h(1) r by (simp add: ports_heard_def close_conn_def)
  ultimately show ?thesis by blast
qed

lemma heard_admitted:
  assumes h: "ports_heard H m" "early_heard H m" and wf: "pm_wf m" and i: "map_of (enrolling m) i = Some en"
    and s: "\<And>j. j \<noteq> i \<Longrightarrow> map_of (s_pending s) j = map_of (s_pending (pm_session m)) j"
    and acts: "acts = [Admit i k False, PersistPin k lbl] @ (if early \<noteq> [] then [ApplyPorts k early] else []) @ [Announce k' ports]"
    and early: "{c_remote (conns m ! en_conn en)} \<times> set early \<subseteq> H"
    and m': "m' = settle_enrollment env (m\<lparr>pm_session := s\<rparr>) i (en\<lparr>en_version := v\<rparr>) acts"
  shows "ports_heard H m' \<and> early_heard H m'"
proof -
  let ?k = "c_remote (conns m ! en_conn en)"
  let ?m1 = "m\<lparr>pm_session := s, enrolling := AList.delete i (enrolling m)\<rparr>"
  let ?a = "length (heap m)"
  define p where "p = (peer_new ?k (label_of s ?k) True None (Some (en_conn en)))\<lparr>p_version := v\<rparr>"
  define m2 where "m2 = (install_peer ?m1 ?k p)
    \<lparr>pins_file := snd (pins_add (e_pins env) (pins_file m) (e_show_key env k) lbl)\<rparr>"
  define m3 where "m3 = (if early \<noteq> [] then update_peer_ports env m2 ?a early else m2)"
  have "m' = apply_actions env (install_peer ?m1 ?k p) ?a acts"
    unfolding m' settle_enrollment_def p_def by (simp add: Let_def acts is_refuse_def is_admit_def map_filter_simps)
  also have "\<dots> = send_ports env m3 ?a ports"
    by (simp add: apply_actions_def apply_action_def acts m3_def m2_def install_peer_def)
  finally have e: "m' = send_ports env m3 ?a ports" .
  have d: "en_conn x < length (conns ?m1)" if "map_of (enrolling ?m1) j = Some x" for j x
    using that pm_wfD(9) [OF wf] by (auto simp: delete_conv' split: if_splits)
  have "quiet ?m1 m2" unfolding m2_def by (intro quiet_intros quiet_install) (simp add: p_def peer_new_def)
  moreover have "ports_heard H ?m1" using h(1) by (simp add: ports_heard_def)
  moreover have "early_heard H ?m1" by (rule early_deleted [OF h(2) s])
  ultimately have h2: "ports_heard H m2" "early_heard H m2" using d quiet_heard by blast+
  have "p_endpoint_id (heap m2 ! ?a) = ?k" by (simp add: m2_def install_peer_def p_def peer_new_def)
  then have h3: "ports_heard H m3" "early_heard H m3"
    using early heard_update [OF h2(1), of ?a early env] h2 early_touches [OF touches_update_ports h2(2)] by (simp_all add: m3_def)
  have "quiet m3 m'" unfolding e send_ports_def by (intro quiet_intros)
  moreover have "en_conn x < length (conns m3)" if "map_of (enrolling m3) j = Some x" for j x
  proof -
    have "enrolling m3 = enrolling ?m1" "conns m3 = conns ?m1"
      using touches_keeps(2,9) [OF touches_update_ports [of ?a m2 env early]]
      by (simp_all add: m3_def m2_def install_peer_def)
    then show ?thesis using d that by simp
  qed
  ultimately show ?thesis using h3 quiet_heard by blast
qed

lemma settle_forgets:
  "settle_enrollment env (m\<lparr>enrolling := AList.update i en (enrolling m), pm_session := s\<rparr>) i en' acts =
     settle_enrollment env (m\<lparr>pm_session := s\<rparr>) i en' acts"
  by (simp add: settle_enrollment_def Let_def delete_update_same split: list.splits)

lemma early_updated:
  assumes "early_heard H m" "map_of (enrolling m) i = Some en"
    and "\<And>j. j \<noteq> i \<Longrightarrow> map_of (s_pending s) j = map_of (s_pending (pm_session m)) j"
    and "\<forall>p \<in> set (early_of s i). (c_remote (conns m ! en_conn en), p) \<in> H"
  shows "early_heard H (m\<lparr>enrolling := AList.update i (en\<lparr>en_version := v\<rparr>) (enrolling m), pm_session := s\<rparr>)"
  using assms by (auto simp: early_heard_def early_of_def update_conv' split: if_splits)

lemma version_noted: "\<exists>v. (case msg of Enroll _ (Some v) \<Rightarrow> en\<lparr>en_version := Some v\<rparr> | _ \<Rightarrow> en) = en\<lparr>en_version := v\<rparr>"
proof -
  have "\<exists>v. en = en\<lparr>en_version := v\<rparr>" by (rule exI [of _ "en_version en"]) simp
  then show ?thesis by (cases msg) (auto split: option.splits)
qed

lemma heard_verdict:
  assumes h: "ports_heard H m" "early_heard H m" and wf: "pm_wf m" and i: "map_of (enrolling m) i = Some en"
    and o: "on_unadmitted (pm_session m) i (c_remote (conns m ! en_conn en)) msg now = (acts, s)" "acts \<noteq> []"
    and other: "\<And>j. j \<noteq> i \<Longrightarrow> map_of (s_pending s) j = map_of (s_pending (pm_session m)) j"
    and early: "\<forall>p \<in> set (early_of (pm_session m) i). (c_remote (conns m ! en_conn en), p) \<in> H"
    and m': "m' = settle_enrollment env (m\<lparr>pm_session := s\<rparr>) i (en\<lparr>en_version := v\<rparr>) acts"
  shows "ports_heard H m' \<and> early_heard H m'"
proof -
  let ?k = "c_remote (conns m ! en_conn en)"
  obtain token ver where msg: "msg = Enroll token ver"
    using o by (cases msg) (auto simp: on_unadmitted_def split: option.splits)
  obtain r ts where c: "claim (s_tokens (pm_session m)) token now = (r, ts)" by fastforce
  show ?thesis
  proof (cases r)
    case None
    then have "\<not> list_ex is_admit acts" using o msg c by (auto simp: on_unadmitted_def is_admit_def)
    from heard_refused [OF h this other] m' show ?thesis by simp
  next
    case (Some cl)
    then obtain k' ports where "acts = [Admit i ?k False, PersistPin ?k (claimed_name cl)] @
        (if early_of (pm_session m) i \<noteq> [] then [ApplyPorts ?k (early_of (pm_session m) i)] else []) @ [Announce k' ports]"
      using o msg c by (auto simp: on_unadmitted_def Let_def announce_def)
    from heard_admitted [OF h wf i other this _ refl] early m' show ?thesis by auto
  qed
qed

lemma heard_stream:
  assumes h: "ports_heard H m" "early_heard H m" and wf: "pm_wf m" and i: "map_of (enrolling m) i = Some en"
    and new: "{c_remote (conns m ! en_conn en)} \<times> ports_in env d \<subseteq> H"
  shows "ports_heard H (enrollment_stream env m i d now) \<and> early_heard H (enrollment_stream env m i d now)"
proof (cases "e_decode env d")
  case None
  then show ?thesis using h i by (simp add: enrollment_stream_def)
next
  case (Some msg)
  let ?k = "c_remote (conns m ! en_conn en)"
  obtain v where v: "(case msg of Enroll _ (Some v) \<Rightarrow> en\<lparr>en_version := Some v\<rparr> | _ \<Rightarrow> en) = en\<lparr>en_version := v\<rparr>"
    using version_noted by blast
  obtain acts s where o: "on_unadmitted (pm_session m) i ?k msg now = (acts, s)" by fastforce
  have e: "enrollment_stream env m i d now =
      (if acts = [] then m\<lparr>enrolling := AList.update i (en\<lparr>en_version := v\<rparr>) (enrolling m), pm_session := s\<rparr>
       else settle_enrollment env (m\<lparr>pm_session := s\<rparr>) i (en\<lparr>en_version := v\<rparr>) acts)"
    by (simp add: enrollment_stream_def i Some v o Let_def settle_forgets)
  have b: "btree_ok (s_pending (pm_session m))" using pm_wfD(1) [OF wf] by (simp add: session_wf_def)
  have other: "map_of (s_pending s) j = map_of (s_pending (pm_session m)) j" if "j \<noteq> i" for j
    using o that b by (auto simp: on_unadmitted_def Let_def btree_specs split: peer_message.splits option.splits prod.splits)
  have early: "\<forall>p \<in> set (early_of (pm_session m) i). (?k, p) \<in> H" using h(2) i by (simp add: early_heard_def)
  show ?thesis
  proof (cases "acts = []")
    case True
    have "\<forall>p \<in> set (early_of s i). (?k, p) \<in> H"
      using o early new b Some True
      by (auto simp: on_unadmitted_def Let_def ports_in_def early_of_def btree_specs split: peer_message.splits option.splits prod.splits)
    then have "early_heard H (m\<lparr>enrolling := AList.update i (en\<lparr>en_version := v\<rparr>) (enrolling m), pm_session := s\<rparr>)"
      using early_updated [OF h(2) i] other by simp
    then show ?thesis using e True h(1) by (simp add: ports_heard_def)
  next
    case False
    show ?thesis by (rule heard_verdict [OF h wf i o False other early]) (simp_all add: e False)
  qed
qed

lemma heard_ends:
  assumes h: "ports_heard H m" "early_heard H m" and wf: "pm_wf m"
  shows "ports_heard H (enrollment_ends env m i) \<and> early_heard H (enrollment_ends env m i)"
proof (cases "map_of (enrolling m) i")
  case None
  then show ?thesis using h by (simp add: enrollment_ends_def)
next
  case (Some en)
  obtain acts s where o: "on_enroll_timeout (pm_session m) i = (acts, s)" by fastforce
  have b: "btree_ok (s_pending (pm_session m))" using pm_wfD(1) [OF wf] by (simp add: session_wf_def)
  have "\<not> list_ex is_admit acts" "\<And>j. j \<noteq> i \<Longrightarrow> map_of (s_pending s) j = map_of (s_pending (pm_session m)) j"
    using o b by (auto simp: on_enroll_timeout_def is_admit_def btree_specs split: if_splits)
  from heard_refused [OF h this] show ?thesis by (simp add: enrollment_ends_def Some o)
qed

lemma heard_incoming:
  assumes h: "ports_heard H m" "early_heard H m" and wf: "pm_wf m"
  shows "ports_heard H (handle_connection env m c) \<and> early_heard H (handle_connection env m c)"
proof -
  let ?k = "c_remote (conns m ! c)" and ?i = "next_conn_id m"
  obtain acts s where o: "on_inbound (pm_session m) ?i ?k = (acts, s)" by fastforce
  show ?thesis
  proof (cases "acts = []")
    case True
    have "btree_ok (s_pending (pm_session m))" using pm_wfD(1) [OF wf] by (simp add: session_wf_def)
    then have "early_of s ?i = []" "\<And>j. j \<noteq> ?i \<Longrightarrow> early_of s j = early_of (pm_session m) j"
      using o True by (auto simp: on_inbound_def early_of_def btree_specs split: if_splits)
    then show ?thesis
      using h by (auto simp: handle_connection_def o True Let_def ports_heard_def early_heard_def update_conv' split: if_splits)
  next
    case False
    then have a: "acts = [Admit ?i ?k True, announce (pm_session m) ?k]" and s: "s = pm_session m"
      using o by (auto simp: on_inbound_def split: if_splits)
    have "\<forall>k ports. ApplyPorts k ports \<notin> set acts" by (simp add: a announce_def)
    then have "quiet m (handle_connection env m c)"
      using False by (auto simp: handle_connection_def o s Let_def split: option.splits intro!: quiet_actions quiet_intros)
    from quiet_both [OF this h wf] show ?thesis .
  qed
qed

text \<open>The events that only the machine itself and its operator bring about.\<close>

fun quiet_event :: "daemon_event \<Rightarrow> bool" where
  "quiet_event (Incoming _ _) = False"
| "quiet_event (EnrollmentStream _ _ _) = False"
| "quiet_event (UniStream _ _) = False"
| "quiet_event _ = True"

lemma quiet_step: "quiet_event e \<Longrightarrow> quiet m (daemon_step env m e)"
  by (cases e)
    (auto simp: start_running_def send_version_def clear_notify_def quiet_startup quiet_request intro!: quiet_intros quiet_dialed)

text \<open>Every step: what it adds to the lists was heard in that step.\<close>

lemma heard_uni:
  assumes "ports_heard H m" "early_heard H m" "pm_wf m"
    and "\<And>d. stream = Some d \<Longrightarrow> length d \<le> READ_LIMIT \<Longrightarrow> {p_endpoint_id (heap m ! a)} \<times> ports_in env d \<subseteq> H"
  shows "ports_heard H (handle_uni_stream env m a stream) \<and> early_heard H (handle_uni_stream env m a stream)"
proof (cases "\<exists>d ports. stream = Some d \<and> length d \<le> READ_LIMIT \<and> e_decode env d = Some (ExposedPorts ports)")
  case True
  then obtain ports where "handle_uni_stream env m a stream = update_peer_ports env m a ports"
      "{p_endpoint_id (heap m ! a)} \<times> set ports \<subseteq> H"
    using assms(4) by (auto simp: handle_uni_stream_def ports_in_def)
  then show ?thesis using heard_update [OF assms(1)] early_touches [OF touches_update_ports assms(2)] by simp
next
  case False
  then have "quiet m (handle_uni_stream env m a stream)"
    by (auto simp: handle_uni_stream_def split: option.splits peer_message.splits intro!: quiet_intros)
  from quiet_both [OF this assms(1-3)] show ?thesis .
qed

lemma heard_step:
  assumes h: "ports_heard H m" "early_heard H m" and wf: "pm_wf m"
  shows "ports_heard (H \<union> heard env m e) (daemon_step env m e) \<and> early_heard (H \<union> heard env m e) (daemon_step env m e)"
proof -
  let ?H = "H \<union> heard env m e"
  have h': "ports_heard ?H m" "early_heard ?H m" by (rule heard_mono(1) [OF h(1)] heard_mono(2) [OF h(2)], simp)+
  have q: "ports_heard ?H m' \<and> early_heard ?H m'" if "quiet m m'" for m'
    by (rule quiet_both [OF that h' wf])
  show ?thesis
  proof (cases e)
    case (Incoming k opens)
    have "quiet m (new_conn m k opens)" by (intro quiet_intros)
    then show ?thesis using q heard_incoming [OF _ _ pm_wf_new_conn [OF wf]] by (simp add: Incoming)
  next
    case (EnrollmentStream i stream now)
    show ?thesis
    proof (cases "\<exists>d en. stream = Some d \<and> length d \<le> READ_LIMIT \<and> map_of (enrolling m) i = Some en")
      case True
      then show ?thesis using heard_stream [OF h' wf] by (auto simp: EnrollmentStream handle_enrollment_def heard_def)
    next
      case False
      then have "daemon_step env m e = m \<or> daemon_step env m e = enrollment_ends env m i"
        by (cases stream; cases "map_of (enrolling m) i")
          (simp_all add: EnrollmentStream handle_enrollment_def enrollment_stream_def not_le)
      then show ?thesis using h' heard_ends [OF h' wf] by auto
    qed
  next
    case (UniStream a stream)
    then show ?thesis using heard_uni [OF h' wf, of stream a] by (auto simp: heard_def)
  qed (use q quiet_step [of e m env] in simp_all)
qed

subsection \<open>Histories\<close>

definition all_heard :: "env \<Rightarrow> pm \<Rightarrow> daemon_event list \<Rightarrow> (endpoint_id \<times> u16) set" where
  "all_heard env m es = {x. \<exists>pre e post. es = pre @ e # post \<and> x \<in> heard env (daemon_run env m pre) e}"

lemma all_heard_snoc: "all_heard env m (es @ [e]) = all_heard env m es \<union> heard env (daemon_run env m es) e"
proof -
  have "es @ [e] = pre @ f # post \<longleftrightarrow> (pre = es \<and> f = e \<and> post = []) \<or> (\<exists>post'. post = post' @ [e] \<and> es = pre @ f # post')"
    for pre f post by (cases post rule: rev_cases) auto
  then show ?thesis unfolding all_heard_def by auto
qed

lemma heard_run:
  assumes "ports_heard {} m" "early_heard {} m" "pm_wf m"
  shows "ports_heard (all_heard env m es) (daemon_run env m es) \<and> early_heard (all_heard env m es) (daemon_run env m es) \<and>
    pm_wf (daemon_run env m es)"
proof (induction es rule: rev_induct)
  case Nil
  then show ?case using assms by (simp add: all_heard_def)
next
  case (snoc e es)
  then show ?case using heard_step pm_wf_daemon_step by (simp add: run_all_append all_heard_snoc)
qed

lemma nothing_heard_at_start:
  assumes "with_endpoint env me h pf sf ns name = Inr m"
  shows "ports_heard {} m \<and> early_heard {} m"
proof -
  have r: "quiet m (restore_record env rec m)" for rec m
    by (auto simp: restore_record_def claim_addr_def split: option.splits prod.splits sum.splits ip_addr.splits intro!: quiet_intros)
  obtain ps where m: "m = restore_surfaces env (load_pins env ps (pm_new me h session_new pf sf ns name))"
    using assms by (auto simp: with_endpoint_def split: sum.splits)
  have "quiet m0 (load_pins env ps m0)" for m0
    unfolding load_pins_def by (rule quiet_fold) (rule quiet_add_pinned)
  moreover have "quiet m0 (restore_surfaces env m0)" for m0
    by (auto simp: restore_surfaces_def split: sum.splits intro!: quiet_refl quiet_fold r)
  ultimately have "quiet (pm_new me h session_new pf sf ns name) m" unfolding m by (blast intro: quiet_trans)
  then show ?thesis using quiet_heard [of "pm_new me h session_new pf sf ns name" m "{}"]
    by (simp add: ports_heard_def early_heard_def pm_new_def)
qed

lemma listed_was_heard:
  assumes start: "with_endpoint env me h pf sf ns name = Inr m0" and m: "m = daemon_run env m0 es"
    and k: "map_of (peers m) k = Some a"
    and p: "port \<in> set (p_exposed_ports (heap m ! a)) \<union> set (keys (p_bindings (heap m ! a)))"
  shows "(k, port) \<in> all_heard env m0 es"
proof -
  have wf0: "pm_wf m0" using with_endpoint_start [OF start] by blast
  have h: "ports_heard (all_heard env m0 es) m" "pm_wf m"
    using heard_run [of m0 env es] nothing_heard_at_start [OF start] wf0 m by auto
  have "peer_wf (on_tun m) (heap m ! a)" using pm_wfD(4,6) [OF h(2)] k by blast
  then have "port \<in> set (p_exposed_ports (heap m ! a))" using p by (auto simp: peer_wf_def)
  then show ?thesis using h(1) pm_wfD(6,7) [OF h(2) k] by (auto simp: ports_heard_def)
qed

end
