(* ===== verification/Telling.thy ===== *)
theory Telling
  imports Requests
begin

text \<open>
  What a daemon tells its peers is true when it says it: every list of ports it has sent on a
  connection names only ports that the key at the other end was granted, at the time or before.
\<close>

subsection \<open>Messages on connections\<close>

definition granted :: "pm \<Rightarrow> (endpoint_id \<times> u16) set" where
  "granted m = {(k, p). may m p k}"

text \<open>A message to a key that lists only ports of \<open>G\<close>, and connections that carry only such.\<close>

definition says :: "env \<Rightarrow> (endpoint_id \<times> u16) set \<Rightarrow> endpoint_id \<Rightarrow> bytes \<Rightarrow> bool" where
  "says env G k d \<longleftrightarrow>
     (\<exists>msg. e_encode env msg = Some d \<and> (\<forall>ports. msg = ExposedPorts ports \<longrightarrow> {k} \<times> set ports \<subseteq> G))"

definition said :: "env \<Rightarrow> (endpoint_id \<times> u16) set \<Rightarrow> conn list \<Rightarrow> bool" where
  "said env G cs \<longleftrightarrow> (\<forall>c \<in> set cs. \<forall>d \<in> set (c_sent c). says env G (c_remote c) d)"

lemma said_mono: "said env G cs \<Longrightarrow> G \<subseteq> G' \<Longrightarrow> said env G' cs"
  unfolding said_def says_def by fast

named_theorems said_intros

lemma said_update:
  assumes "said env G cs" "\<forall>d \<in> set (c_sent x). says env G (c_remote x) d"
  shows "said env G (cs[c := x])"
  using assms set_update_subset_insert [of cs c x] unfolding said_def by blast

lemma said_close [said_intros]:
  assumes "said env G (conns m)"
  shows "said env G (conns (close_conn m c reason))"
proof (cases "c < length (conns m)")
  case True
  then have "\<forall>d \<in> set (c_sent (conns m ! c)). says env G (c_remote (conns m ! c)) d"
    using assms by (simp add: said_def)
  then show ?thesis using assms by (auto simp: close_conn_def split: option.splits intro!: said_update)
qed (use assms in \<open>simp add: close_conn_def list_update_beyond\<close>)

lemma said_new_conn [said_intros]: "said env G (conns m) \<Longrightarrow> said env G (conns (new_conn m k opens))"
  by (simp add: new_conn_def said_def)

lemma conns_set_peer [simp]: "conns (set_peer m a f) = conns m"
  by (simp add: set_peer_def)

lemma said_message:
  assumes s: "said env G (conns m)" and t: "\<And>ports. msg = ExposedPorts ports \<Longrightarrow> {c_remote (conns m ! c)} \<times> set ports \<subseteq> G"
  shows "said env G (conns (snd (send_message env m c msg)))"
proof (cases "c < length (conns m) \<and> e_encode env msg \<noteq> None")
  case True
  then obtain d where d: "e_encode env msg = Some d" by blast
  have "\<forall>d \<in> set (c_sent (conns m ! c)). says env G (c_remote (conns m ! c)) d" using s True by (simp add: said_def)
  moreover have "says env G (c_remote (conns m ! c)) d" unfolding says_def using d t by blast
  ultimately show ?thesis using s d by (auto simp: send_message_def intro!: said_update)
qed (use s in \<open>auto simp: send_message_def list_update_beyond split: option.splits\<close>)

text \<open>The connection of an object leads to a key.\<close>

definition leads :: "pm \<Rightarrow> nat \<Rightarrow> endpoint_id \<Rightarrow> bool" where
  "leads m a k \<longleftrightarrow> (\<forall>c. p_connection (heap m ! a) = Some c \<longrightarrow> c_remote (conns m ! c) = k)"

lemma leads_wf: "pm_wf m \<Longrightarrow> a < length (heap m) \<Longrightarrow> leads m a (p_endpoint_id (heap m ! a))"
  using pm_wfD(10) by (simp add: leads_def)

lemma said_send:
  assumes "said env G (conns m)" "leads m a k" "\<And>ports. msg = ExposedPorts ports \<Longrightarrow> {k} \<times> set ports \<subseteq> G"
  shows "said env G (conns (send_to env m a msg))"
  using assms said_message [OF assms(1), of msg] by (auto simp: send_to_def leads_def split: option.splits)

lemma leads_send: "leads m a k \<Longrightarrow> leads (send_to env m b msg) a k"
proof -
  have "c_remote (conns (send_to env m b msg) ! c) = c_remote (conns m ! c)" for c
    by (cases "the (p_connection (heap m ! b)) < length (conns m)"; cases "c = the (p_connection (heap m ! b))")
      (auto simp: send_to_def send_message_def list_update_beyond split: option.splits)
  then show "leads m a k \<Longrightarrow> leads (send_to env m b msg) a k" by (simp add: leads_def send_to_heap)
qed

lemma said_announce:
  assumes "said env G (conns m)" "pm_wf m" "a < length (heap m)" "granted m \<subseteq> G"
  shows "said env G (conns (announce_to env m a))"
proof -
  have "set (ports_for (s_grants (pm_session m)) k) = {p. may m p k}" for k
    using pm_wfD(1) [OF assms(2)] by (simp add: ports_for_set session_wf_def)
  then show ?thesis
    using assms(4) unfolding announce_to_def announce_def send_ports_def granted_def
    by (auto intro!: said_send [OF assms(1) leads_wf [OF assms(2,3)]])
qed

lemma said_broadcast:
  assumes "said env G (conns m)" "pm_wf m" "granted m \<subseteq> G"
  shows "said env G (conns (broadcast_grants env m))"
proof -
  have "said env G (conns (fold (\<lambda>e m. announce_to env m (snd e)) es m))"
    if "\<forall>e \<in> set es. snd e < length (heap m)" "said env G (conns m)" "pm_wf m" "granted m \<subseteq> G" for es m
    using that
  proof (induction es arbitrary: m)
    case (Cons e es)
    then show ?case using said_announce [of env G m "snd e"] pm_wf_announce_to [of "{}" m env "snd e"]
      by (simp add: announce_to_keeps granted_def)
  qed simp
  moreover have "\<forall>e \<in> set (peers m). snd e < length (heap m)"
    using assms(2) by (auto simp: pm_wf_but_def map_wf_def)
  ultimately show ?thesis using assms by (simp add: broadcast_grants_def)
qed

subsection \<open>Requests\<close>

lemma granted_keeps:
  "granted (broadcast_grants env m) = granted m" "granted (snd (add_peer m key name code)) = granted m"
  by (simp_all add: granted_def grants_add_peer)

lemma said_expose:
  assumes "said env G (conns m)" "pm_wf m" "granted (d_expose env m port ks) \<subseteq> G"
  shows "said env G (conns (d_expose env m port ks))"
  using assms unfolding d_expose_def granted_keeps
  by (intro said_broadcast pm_wf_session) (simp_all add: session_wf_ops same_peers pm_wfD(1))

lemma said_unexpose:
  assumes "said env G (conns m)" "pm_wf m" "granted (d_unexpose env m port t) \<subseteq> G"
  shows "said env G (conns (d_unexpose env m port t))"
  using assms unfolding d_unexpose_def granted_keeps
  by (intro said_broadcast pm_wf_session) (simp_all add: session_wf_ops same_peers pm_wfD(1))

lemma said_exposes:
  assumes "said env G (conns m)" "pm_wf m" "granted (fold (\<lambda>port m. d_expose env m port ks) ports m) \<subseteq> G"
  shows "said env G (conns (fold (\<lambda>port m. d_expose env m port ks) ports m))"
  using assms
proof (induction ports arbitrary: m)
  case (Cons port ports)
  have wf: "pm_wf (d_expose env m port ks)" using Cons.prems(2) by (rule pm_wf_expose)
  then have "granted (d_expose env m port ks) \<subseteq> G" using Cons.prems(3) by (auto simp: granted_def may_exposes)
  then show ?case using Cons said_expose wf by simp
qed simp

lemma conns_install [simp]: "conns (install_peer m key p) = conns m"
  by (simp add: install_peer_def)

lemma conns_add_peer [simp]: "conns (snd (add_peer m key name code)) = conns m"
  by (simp add: add_peer_def)

lemma conns_pin_peer [simp]: "conns (snd (pin_peer env m key name)) = conns m"
  by (auto simp: pin_peer_def add_pinned_def split: prod.splits sum.splits option.splits if_splits)

lemmas conns_touched = touches_keeps(2) [OF touches_release_all] touches_keeps(2) [OF touches_unclaim]
  touches_keeps(2) [OF touches_teardown] touches_keeps(2) [OF touches_place] touches_keeps(2) [OF touches_update_ports]

lemma conns_project [simp]: "conns (snd (project env m peer_ref ip name)) = conns m"
  by (auto simp: project_def Let_def conns_touched split: option.splits sum.splits)

lemma conns_unproject [simp]: "conns (snd (unproject env m peer_ref)) = conns m"
proof -
  have "conns (snd (unclaim_addr env (set_peer (release_all m a) a (\<lambda>p. p\<lparr>p_surface := None\<rparr>)) ip)) = conns m" for a ip
    by (simp add: conns_touched)
  then show ?thesis by (auto simp: unproject_def split: option.splits prod.splits sum.splits) (metis snd_conv)+
qed

lemma said_forget:
  assumes "said env G (conns m)" "pm_wf m"
  shows "said env G (conns (snd (remove_peer env m peer_ref)))"
proof (cases "\<exists>k. resolve_peer env m peer_ref = Some k \<and> map_of (peers m) k \<noteq> None")
  case True
  then obtain k a where "resolve_peer env m peer_ref = Some k" and a: "map_of (peers m) k = Some a" by blast
  then show ?thesis
    using assms(1) evict_object_peer [OF assms(2) a, of env]
    by (auto simp: remove_peer_def evict_peer_fields split: option.splits intro: said_intros)
qed (use assms in \<open>auto simp: remove_peer_def split: option.splits\<close>)

lemma said_invite:
  assumes "said env G (conns m)" "pm_wf m" "granted (snd (d_invite env m key name ports rnd now)) \<subseteq> G"
  shows "said env G (conns (snd (d_invite env m key name ports rnd now)))"
proof (cases key)
  case None
  then show ?thesis using assms by (simp add: d_invite_def split: prod.splits)
next
  case (Some k)
  obtain r m1 where p: "pin_peer env m k name = (r, m1)" by fastforce
  have "said env G (conns m1)" "pm_wf m1"
    using assms conns_pin_peer [of env m k name] pm_wf_pin_peer [OF assms(2), of env k name] p by simp_all
  then show ?thesis using assms(3) said_exposes [of env G m1] by (auto simp: d_invite_def Some p split: sum.splits option.splits)
qed

lemma said_startup:
  assumes "said env G (conns m)" "pm_wf m" "granted (run_startup env m accept ports) \<subseteq> G"
  shows "said env G (conns (run_startup env m accept ports))"
proof -
  let ?hs = "parsed_handles env accept"
  let ?m1 = "fold (\<lambda>port m. d_expose env m port (map handle_key ?hs)) ports m"
  let ?m2 = "fold (\<lambda>h m. snd (add_peer m (handle_key h) None (handle_code h))) ?hs ?m1"
  have f: "conns (fold (\<lambda>h m. snd (add_peer m (handle_key h) None (handle_code h))) hs m) = conns m \<and>
    granted (fold (\<lambda>h m. snd (add_peer m (handle_key h) None (handle_code h))) hs m) = granted m" for hs m
    by (induction hs arbitrary: m) (simp_all add: granted_keeps)
  have "granted (run_startup env m accept ports) = granted ?m1"
    using f by (simp add: run_startup_def Let_def granted_keeps)
  then have "said env G (conns ?m2)" "granted ?m2 \<subseteq> G" using said_exposes [OF assms(1,2)] assms(3) f by simp_all
  moreover have "pm_wf ?m2" by (intro pm_wf_fold pm_wf_add_peer pm_wf_expose assms(2))
  ultimately show ?thesis by (cases "?hs = []") (simp_all add: run_startup_def Let_def said_broadcast)
qed

lemma said_request:
  assumes "said env G (conns m)" "pm_wf m" "granted (snd (handle_request env m r rnd now)) \<subseteq> G"
  shows "said env G (conns (snd (handle_request env m r rnd now)))"
  using assms
  by (cases r) (auto simp: d_accept_def split: option.splits sum.splits
      intro!: said_invite said_forget said_expose said_unexpose)

subsection \<open>Connections\<close>

lemma leads_touched: "touches b m m' \<Longrightarrow> leads m a k \<Longrightarrow> leads m' a k"
  using touches_keeps(2) [of b m m'] touches_keeps_peer [of b m m' a] by (simp add: leads_def peer_kept_def)

lemma said_actions:
  assumes "said env G (conns m)" "leads m a k" "\<forall>k' ports. Announce k' ports \<in> set acts \<longrightarrow> {k} \<times> set ports \<subseteq> G"
  shows "said env G (conns (apply_actions env m a acts))"
  unfolding apply_actions_def using assms
proof (induction acts arbitrary: m)
  case (Cons x acts)
  have "said env G (conns (apply_action env a x m)) \<and> leads (apply_action env a x m) a k"
  proof (cases x)
    case (Announce k' ports)
    then have "{k} \<times> set ports \<subseteq> G" using Cons.prems(3) by auto
    then show ?thesis
      using Announce Cons.prems said_send [of env G m a k "ExposedPorts ports"] leads_send
      by (auto simp: apply_action_def send_ports_def)
  next
    case (ApplyPorts k' ports)
    then show ?thesis using Cons.prems leads_touched [OF touches_update_ports] by (simp add: apply_action_def conns_touched)
  qed (use Cons.prems in \<open>simp_all add: apply_action_def leads_def\<close>)
  then show ?case using Cons by simp
qed simp

lemma said_install:
  "said env G (conns m) \<Longrightarrow> said env G (conns (install_connection m a c by_us))"
  by (auto simp: install_connection_def Let_def split: option.splits intro: said_intros)

lemma leads_install:
  assumes "a < length (heap m)" "c_remote (conns m ! c) = k"
  shows "leads (install_connection m a c by_us) a k"
  using assms by (auto simp: leads_def install_connection_def Let_def set_peer_def split: option.splits)

lemma leads_set_peer: "(\<And>p. p_connection (f p) = p_connection p) \<Longrightarrow> leads m a k \<Longrightarrow> leads (set_peer m b f) a k"
  by (simp add: leads_def set_peer_nth)

lemma announce_granted:
  assumes "session_wf s" "{(k, p). allows (s_grants s) p k} \<subseteq> G" "Announce k' ports = announce s k"
  shows "{k} \<times> set ports \<subseteq> G"
  using assms by (auto simp: announce_def ports_for_set session_wf_def)

lemma said_incoming:
  assumes "said env G (conns m)" "pm_wf m" "granted m \<subseteq> G"
  shows "said env G (conns (handle_connection env m c))"
proof -
  let ?k = "c_remote (conns m ! c)" and ?i = "next_conn_id m"
  obtain acts s where o: "on_inbound (pm_session m) ?i ?k = (acts, s)" by fastforce
  let ?m = "m\<lparr>next_conn_id := ?i + 1, pm_session := s\<rparr>"
  show ?thesis
  proof (cases "acts = []")
    case True
    then show ?thesis using assms(1) by (simp add: handle_connection_def o Let_def)
  next
    case False
    then have a: "acts = [Admit ?i ?k True, announce (pm_session m) ?k]" using o by (auto simp: on_inbound_def split: if_splits)
    have "{?k} \<times> set ports \<subseteq> G" if "Announce k' ports \<in> set acts" for k' ports
      by (rule announce_granted [OF pm_wfD(1) [OF assms(2)] assms(3) [unfolded granted_def]]) (use that a in simp)
    moreover have "leads (set_peer (install_connection ?m b c False) b (\<lambda>p. p\<lparr>p_dial := True, p_conn_notify := True\<rparr>)) b ?k"
      if "map_of (peers m) ?k = Some b" for b
      by (intro leads_set_peer leads_install) (use pm_wfD(6) [OF assms(2) that] in simp_all)
    ultimately show ?thesis
      using assms(1) False
      by (auto simp: handle_connection_def o Let_def split: option.splits intro!: said_actions said_install said_close)
  qed
qed

lemma said_enrollment:
  assumes s: "said env G (conns m)" and wf: "pm_wf m" and g: "granted (handle_enrollment env m i stream now) \<subseteq> G"
  shows "said env G (conns (handle_enrollment env m i stream now))"
proof -
  have set: "said env G (conns (settle_enrollment env m' i en acts))"
    if "conns m' = conns m" "\<And>k' ports. Announce k' ports \<in> set acts \<Longrightarrow> {c_remote (conns m ! en_conn en)} \<times> set ports \<subseteq> G"
    for m' en acts
  proof -
    let ?k = "c_remote (conns m ! en_conn en)"
    let ?p = "(peer_new ?k (label_of (pm_session m') ?k) True None (Some (en_conn en)))\<lparr>p_version := en_version en\<rparr>"
    have "leads (install_peer (m'\<lparr>enrolling := AList.delete i (enrolling m')\<rparr>) ?k ?p) (length (heap m')) ?k"
      by (simp add: leads_def that(1)) (simp add: install_peer_def peer_new_def)
    then show ?thesis
      using s that by (auto simp: settle_enrollment_def Let_def split: list.splits intro!: said_actions said_close)
  qed
  have ends: "said env G (conns (enrollment_ends env m i))"
    using s by (auto simp: enrollment_ends_def on_enroll_timeout_def split: option.splits prod.splits intro!: set)
  have "said env G (conns (enrollment_stream env m i d now))" if g': "granted (enrollment_stream env m i d now) \<subseteq> G" for d
  proof (cases "map_of (enrolling m) i = None \<or> e_decode env d = None")
    case True
    then show ?thesis using s by (auto simp: enrollment_stream_def split: option.splits)
  next
    case False
    then obtain en msg where en: "map_of (enrolling m) i = Some en" and msg: "e_decode env d = Some msg" by auto
    let ?k = "c_remote (conns m ! en_conn en)"
    define en' where "en' = (case msg of Enroll _ (Some v) \<Rightarrow> en\<lparr>en_version := Some v\<rparr> | _ \<Rightarrow> en)"
    have c: "en_conn en' = en_conn en" by (auto simp: en'_def split: peer_message.splits option.splits)
    obtain acts s' where o: "on_unadmitted (pm_session m) i ?k msg now = (acts, s')" by fastforce
    let ?m = "m\<lparr>enrolling := AList.update i en' (enrolling m), pm_session := s'\<rparr>"
    have e: "enrollment_stream env m i d now = (if acts = [] then ?m else settle_enrollment env ?m i en' acts)"
      by (simp add: enrollment_stream_def en msg o Let_def en'_def)
    then have gs: "{(k, p). allows (s_grants s') p k} \<subseteq> G" using g' by (auto simp: granted_def split: if_splits)
    have wfs: "session_wf s'" using session_wf_step [OF pm_wfD(1) [OF wf], of "Unadmitted i ?k msg now"] o by simp
    have "{?k} \<times> set ports \<subseteq> G" if "Announce k' ports \<in> set acts" for k' ports
      by (rule announce_granted [OF wfs gs])
        (use that o in \<open>auto simp: on_unadmitted_def Let_def announce_def split: peer_message.splits option.splits prod.splits if_splits\<close>)
    then show ?thesis using s set [of ?m] by (simp add: e c)
  qed
  then show ?thesis using ends g by (auto simp: handle_enrollment_def split: option.splits)
qed

lemma said_dialed:
  assumes s: "said env G (conns m)" and wf: "pm_wf m" and g: "granted m \<subseteq> G" and a: "a < length (heap m)"
    and c: "c < length (conns m)" "c_remote (conns m ! c) = p_endpoint_id (heap m ! a)"
  shows "said env G (conns (dialed env m a c))"
proof -
  let ?m1 = "install_connection m a c True"
  let ?m2 = "case p_enroll_token (heap ?m1 ! a) of None \<Rightarrow> ?m1 | Some token \<Rightarrow> snd (send_message env ?m1 c (enroll_message token))"
  have wf1: "pm_wf ?m1" by (rule pm_wf_install_connection [OF wf c])
  have k: "heap ?m2 = heap ?m1" "pm_session ?m2 = pm_session ?m1" by (auto simp: send_message_def split: option.splits)
  have wf2: "pm_wf ?m2" using wf1 by (auto split: option.splits intro!: pm_wf_send_message)
  have "said env G (conns ?m2)"
    using said_message [OF said_install [OF s, of a c True], of "enroll_message _" c] said_install [OF s, of a c True]
    by (auto simp: enroll_message_def split: option.splits)
  moreover have "granted ?m2 \<subseteq> G" "a < length (heap ?m2)"
    using g a k by (auto simp: granted_def install_connection_def Let_def set_peer_def close_conn_def split: option.splits)
  ultimately have "said env G (conns (announce_to env ?m2 a))" using wf2 by (intro said_announce)
  then show ?thesis using s by (simp add: dialed_def Let_def said_close)
qed

subsection \<open>Histories\<close>

text \<open>A connection is dialed for an object that exists.\<close>

fun dials_known :: "env \<Rightarrow> pm \<Rightarrow> daemon_event list \<Rightarrow> bool" where
  "dials_known env m [] = True"
| "dials_known env m (e # es) =
     ((case e of Dialed a _ \<Rightarrow> a < length (heap m) | _ \<Rightarrow> True) \<and> dials_known env (daemon_step env m e) es)"

lemma dials_known_append:
  "dials_known env m (xs @ ys) \<longleftrightarrow> dials_known env m xs \<and> dials_known env (daemon_run env m xs) ys"
  by (induction xs arbitrary: m) auto

lemma said_step:
  assumes s: "said env G (conns m)" and wf: "pm_wf m" and g: "granted m \<subseteq> G" "granted (daemon_step env m e) \<subseteq> G"
    and d: "dials_known env m [e]"
  shows "said env G (conns (daemon_step env m e))"
proof (cases e)
  case (Incoming k opens)
  then show ?thesis
    using said_incoming [OF said_new_conn [OF s] pm_wf_new_conn [OF wf]] g(1) by (simp add: granted_def new_conn_last)
next
  case (Dialed a opens)
  then show ?thesis
    using said_dialed [OF said_new_conn [OF s] pm_wf_new_conn [OF wf] _ _ new_conn_last(1)] g(1) d
    by (simp add: granted_def new_conn_last)
next
  case (UniStream a stream)
  then show ?thesis using s by (auto simp: handle_uni_stream_def conns_touched split: option.splits peer_message.splits)
next
  case (RunConnection a)
  have "conns (send_version env m a) = conns m \<or> (\<exists>c. conns (send_version env m a) = conns (snd (send_message env m c (enroll_message []))))"
    by (auto simp: send_version_def send_to_def split: option.splits)
  then show ?thesis using s said_message [OF s, of "enroll_message []"] RunConnection
    by (auto simp: start_running_def enroll_message_def)
qed (use s wf g in \<open>simp_all add: said_startup said_request said_enrollment said_close clear_notify_def\<close>)

definition ever_granted :: "env \<Rightarrow> pm \<Rightarrow> daemon_event list \<Rightarrow> (endpoint_id \<times> u16) set" where
  "ever_granted env m es = {x. \<exists>pre post. es = pre @ post \<and> x \<in> granted (daemon_run env m pre)}"

lemma ever_granted_Cons: "ever_granted env m (e # es) = granted m \<union> ever_granted env (daemon_step env m e) es"
proof (intro set_eqI iffI)
  fix x assume "x \<in> ever_granted env m (e # es)"
  then obtain pre post where p: "e # es = pre @ post" "x \<in> granted (daemon_run env m pre)" unfolding ever_granted_def by blast
  then show "x \<in> granted m \<union> ever_granted env (daemon_step env m e) es"
    by (cases pre) (auto simp: ever_granted_def)
next
  fix x assume "x \<in> granted m \<union> ever_granted env (daemon_step env m e) es"
  then consider "x \<in> granted m" | pre post where "es = pre @ post" "x \<in> granted (daemon_run env (daemon_step env m e) pre)"
    unfolding ever_granted_def by blast
  then have "\<exists>pre post. e # es = pre @ post \<and> x \<in> granted (daemon_run env m pre)"
  proof cases
    case 1
    then have "e # es = [] @ e # es \<and> x \<in> granted (daemon_run env m [])" by simp
    then show ?thesis by blast
  next
    case (2 pre post)
    then have "e # es = (e # pre) @ post \<and> x \<in> granted (daemon_run env m (e # pre))" by simp
    then show ?thesis by blast
  qed
  then show "x \<in> ever_granted env m (e # es)" by (simp add: ever_granted_def)
qed

lemma granted_ever: "granted m \<subseteq> ever_granted env m es"
  unfolding ever_granted_def by (auto intro: exI [of _ "[]"])

lemma ever_granted_append: "ever_granted env m xs \<subseteq> ever_granted env m (xs @ ys)"
proof
  fix x assume "x \<in> ever_granted env m xs"
  then obtain pre post where "xs = pre @ post" "x \<in> granted (daemon_run env m pre)" by (auto simp: ever_granted_def)
  then have "xs @ ys = pre @ post @ ys \<and> x \<in> granted (daemon_run env m pre)" by simp
  then show "x \<in> ever_granted env m (xs @ ys)" unfolding ever_granted_def by blast
qed

lemma said_run:
  assumes "said env G (conns m)" "pm_wf m" "dials_known env m es" "ever_granted env m es \<subseteq> G"
  shows "said env G (conns (daemon_run env m es))"
  using assms
proof (induction es arbitrary: m)
  case (Cons e es)
  have "granted m \<subseteq> G" "granted (daemon_step env m e) \<subseteq> G"
    using Cons.prems(4) granted_ever [of "daemon_step env m e" env es] by (auto simp: ever_granted_Cons)
  then have "said env G (conns (daemon_step env m e))" using said_step [of env G m e] Cons.prems by simp
  then show ?case using Cons pm_wf_daemon_step by (simp add: ever_granted_Cons)
qed simp

lemma nothing_said_at_start:
  assumes "with_endpoint env me h pf sf ns name = Inr m"
  shows "said env {} (conns m)"
proof -
  have r: "conns (restore_record env rec m) = conns m" for rec m
    by (auto simp: restore_record_def claim_addr_def split: option.splits prod.splits sum.splits ip_addr.splits)
  have "conns (fold (restore_record env) rs m) = conns m" for rs m by (induction rs arbitrary: m) (simp_all add: r)
  then have "conns (restore_surfaces env m) = conns m" for m by (simp add: restore_surfaces_def split: sum.splits)
  moreover have "conns (load_pins env ps m) = conns m" for ps m
    unfolding load_pins_def by (induction ps arbitrary: m) (simp_all add: add_pinned_def split: option.splits)
  ultimately show ?thesis using assms by (auto simp: with_endpoint_def pm_new_def said_def split: sum.splits)
qed

end
