(* ===== verification/Provenance.thy ===== *)
theory Provenance
  imports Hearing Telling
begin

text \<open>
  Two daemons together: where a port that one of them shows for the other comes from. What the one
  lists was heard (\<open>Hearing\<close>), what was heard was said, and what the other says was granted
  (\<open>Telling\<close>); the network is only asked to say truly whose message it delivers.
\<close>

lemma heard_was_said:
  assumes "(k, port) \<in> all_heard env m es"
  obtains pre e post d where "es = pre @ e # post" "told (daemon_run env m pre) e = Some (k, d)" "port \<in> ports_in env d"
  using assms by (fastforce simp: all_heard_def heard_def split: option.splits prod.splits)

lemma said_was_granted:
  assumes start: "with_endpoint env me h pf sf ns name = Inr m" and d: "dials_known env m es"
    and c: "c \<in> set (conns (daemon_run env m es))" "data \<in> set (c_sent c)"
    and codec: "\<And>msg. e_encode env msg = Some data \<Longrightarrow> e_decode env' data = Some msg" and p: "port \<in> ports_in env' data"
  shows "(c_remote c, port) \<in> ever_granted env m es"
proof -
  have "said env (ever_granted env m es) (conns m)" by (rule said_mono [OF nothing_said_at_start [OF start]]) simp
  then have "said env (ever_granted env m es) (conns (daemon_run env m es))"
    using said_run d with_endpoint_start [OF start] by blast
  then have "says env (ever_granted env m es) (c_remote c) data" using c by (simp add: said_def)
  then obtain msg where "e_encode env msg = Some data" "\<And>ports. msg = ExposedPorts ports \<Longrightarrow> {c_remote c} \<times> set ports \<subseteq> ever_granted env m es"
    by (auto simp: says_def)
  then show ?thesis using p codec by (cases msg) (auto simp: ports_in_def)
qed

lemma grant_was_given:
  assumes start: "with_endpoint env me h pf sf ns name = Inr m" and g: "(k, port) \<in> ever_granted env m es"
  shows "\<exists>pre e post. es = pre @ e # post \<and> daemon_grants env port k (daemon_run env m pre) e"
proof -
  obtain xs ys where xs: "es = xs @ ys" "may (daemon_run env m xs) port k"
    using g by (auto simp: ever_granted_def granted_def)
  then obtain pre e post where "xs = pre @ e # post" "daemon_grants env port k (daemon_run env m pre) e"
    using port.holds_iff_from [of m port k env xs] with_endpoint_start [OF start] started_without_grants [OF start] by blast
  with xs(1) show ?thesis by (intro exI [of _ pre] exI [of _ e] exI [of _ "post @ ys"]) simp
qed

text \<open>A port that a daemon lists or has bound for a peer was opened for it there. Let two daemons
  run from their files through any two histories, and let what the first receives in the name of
  the second's key have been sent to it by the second. Then every port the first lists for the
  second, and every port it has a listener on, goes back to an event at the second that gave
  the first that port.\<close>

theorem bound_ports_were_granted:
  assumes A: "with_endpoint envA meA hA pA sA nA nameA = Inr A0" "dials_known envA A0 as"
    and B: "with_endpoint envB meB hB pB sB nB nameB = Inr B0" "B = daemon_run envB B0 bs"
    and codec: "\<forall>msg d. e_encode envA msg = Some d \<longrightarrow> e_decode envB d = Some msg"
    and authentic: "\<forall>pre e post d. bs = pre @ e # post \<longrightarrow> told (daemon_run envB B0 pre) e = Some (meA, d) \<longrightarrow>
      (\<exists>as1 as2. as = as1 @ as2 \<and> (\<exists>c \<in> set (conns (daemon_run envA A0 as1)). c_remote c = meB \<and> d \<in> set (c_sent c)))"
    and b: "map_of (peers B) meA = Some b" "port \<in> set (p_exposed_ports (heap B ! b)) \<union> set (keys (p_bindings (heap B ! b)))"
  shows "\<exists>pre e post. as = pre @ e # post \<and> daemon_grants envA port meB (daemon_run envA A0 pre) e"
proof -
  have "(meA, port) \<in> all_heard envB B0 bs" by (rule listed_was_heard [OF B b])
  then obtain pre e post d where e: "bs = pre @ e # post" "told (daemon_run envB B0 pre) e = Some (meA, d)" "port \<in> ports_in envB d"
    by (rule heard_was_said)
  then obtain as1 as2 c where c: "as = as1 @ as2" "c \<in> set (conns (daemon_run envA A0 as1))" "c_remote c = meB" "d \<in> set (c_sent c)"
    using authentic by blast
  have "dials_known envA A0 as1" using A(2) c(1) by (simp add: dials_known_append)
  then have "(meB, port) \<in> ever_granted envA A0 as1"
    using said_was_granted [OF A(1) _ c(2,4), of envB port] codec e(3) c(3) by blast
  then have "(meB, port) \<in> ever_granted envA A0 as" using ever_granted_append c(1) by blast
  then show ?thesis by (rule grant_was_given [OF A(1)])
qed

end
