(* ===== verification/Network.thy ===== *)
theory Network
  imports Provenance
begin

text \<open>
  Daemons on a network: any number of machines that run this program, among others that run
  whatever they like. The network is QUIC as iroh offers it: a connection has two ends, each end
  knows the key at the other, and a message arrives, at most once and in any order, at the other end of the
  connection it was written to. Everything a machine does on its own, and everything that comes from
  the machines outside, is unrestricted.
\<close>

subsection \<open>What a step keeps\<close>

text \<open>Objects keep their key and connections their remote key.\<close>

definition persists :: "pm \<Rightarrow> pm \<Rightarrow> bool" where
  "persists m m' \<longleftrightarrow>
     length (heap m) \<le> length (heap m') \<and>
     (\<forall>a < length (heap m). p_endpoint_id (heap m' ! a) = p_endpoint_id (heap m ! a)) \<and>
     length (conns m) \<le> length (conns m') \<and>
     (\<forall>c < length (conns m). c_remote (conns m' ! c) = c_remote (conns m ! c))"

lemma persists_refl: "persists m m"
  by (simp add: persists_def)

lemma persists_trans: "persists m m' \<Longrightarrow> persists m' m'' \<Longrightarrow> persists m m''"
  unfolding persists_def by auto

lemma quiet_persists: "quiet m m' \<Longrightarrow> persists m m'"
  by (simp add: quiet_def persists_def)

lemma touched_persists: "touches a m m' \<Longrightarrow> persists m m'"
  using touches_keeps(2,11) [of a m m'] touches_keeps_peer [of a m m'] by (simp add: persists_def peer_kept_def)

lemma persists_fields:
  "persists m m' \<Longrightarrow> persists m (m'\<lparr>enrolling := en\<rparr>)" "persists m m' \<Longrightarrow> persists m (m'\<lparr>pm_session := s\<rparr>)"
  "persists m m' \<Longrightarrow> persists m (m'\<lparr>next_conn_id := n\<rparr>)"
  by (simp_all add: persists_def)

lemma persists_actions: "persists m m' \<Longrightarrow> persists m (apply_actions env m' a acts)"
  unfolding apply_actions_def
proof (induction acts arbitrary: m')
  case (Cons x acts)
  have "persists m' (apply_action env a x m')"
  proof (cases x)
    case (ApplyPorts k ports)
    then show ?thesis by (simp add: apply_action_def touched_persists [OF touches_update_ports])
  qed (auto simp: apply_action_def send_ports_def intro!: quiet_persists quiet_intros)
  then show ?case using Cons persists_trans by simp
qed simp

lemma persists_settle: "persists m (settle_enrollment env m i en acts)"
proof -
  let ?m = "m\<lparr>enrolling := AList.delete i (enrolling m)\<rparr>"
  have m: "persists m ?m" by (simp add: persists_fields persists_refl)
  have "persists ?m (close_conn ?m c r)" for c r by (intro quiet_persists quiet_intros)
  moreover have "persists ?m (install_peer ?m k p)" for k p by (simp add: persists_def install_peer_def nth_append)
  ultimately show ?thesis
    using m persists_trans [OF m]
    by (auto simp: settle_enrollment_def Let_def split: list.splits intro!: persists_actions)
qed

lemma persists_enrollment: "persists m (handle_enrollment env m i stream now)"
proof -
  have s: "persists m (settle_enrollment env (m\<lparr>enrolling := es, pm_session := s\<rparr>) i en acts)" for es s en acts
    by (rule persists_trans [OF _ persists_settle]) (simp add: persists_fields persists_refl)
  have t: "persists m (settle_enrollment env (m\<lparr>pm_session := s\<rparr>) i en acts)" for s en acts
    by (rule persists_trans [OF _ persists_settle]) (simp add: persists_fields persists_refl)
  show ?thesis
    by (auto simp: handle_enrollment_def enrollment_ends_def enrollment_stream_def Let_def persists_refl persists_fields s t
        split: option.splits prod.splits)
qed

lemma persists_incoming: "persists m (handle_connection env m c)"
proof -
  let ?i = "next_conn_id m"
  obtain acts s where o: "on_inbound (pm_session m) ?i (c_remote (conns m ! c)) = (acts, s)" by fastforce
  let ?m = "m\<lparr>next_conn_id := ?i + 1, pm_session := s\<rparr>"
  have m: "persists m ?m" by (simp add: persists_fields persists_refl)
  have "persists ?m (set_peer (install_connection ?m a c False) a (\<lambda>p. p\<lparr>p_dial := True, p_conn_notify := True\<rparr>))" for a
    by (intro quiet_persists quiet_intros) simp_all
  then have i: "persists m (set_peer (install_connection ?m a c False) a (\<lambda>p. p\<lparr>p_dial := True, p_conn_notify := True\<rparr>))" for a
    using persists_trans [OF m] by blast
  have "persists ?m (close_conn ?m c r)" for r by (intro quiet_persists quiet_intros)
  then have c: "persists m (close_conn ?m c r)" for r using persists_trans [OF m] by blast
  show ?thesis
    using m by (auto simp: handle_connection_def o Let_def persists_fields split: option.splits intro!: persists_actions i c)
qed

lemma persists_step: "persists m (daemon_step env m e)"
proof (cases e)
  case (Incoming k opens)
  have "persists m (new_conn m k opens)" by (intro quiet_persists quiet_intros)
  then show ?thesis using Incoming persists_trans persists_incoming by auto
next
  case (UniStream a stream)
  have "quiet m (set_peer m a (\<lambda>p. p\<lparr>p_version := v\<rparr>))" for v by (intro quiet_intros) simp_all
  then show ?thesis
    using UniStream by (auto simp: handle_uni_stream_def persists_refl quiet_persists touched_persists [OF touches_update_ports]
        split: option.splits peer_message.splits)
next
  case (EnrollmentStream i stream now)
  then show ?thesis by (simp add: persists_enrollment)
qed (use quiet_persists quiet_step [of e m env] in simp_all)

subsection \<open>The network\<close>

text \<open>The machines that run this program, by key, with what each runs on and starts from.\<close>

record net =
  honest :: "endpoint_id set"
  n_env :: "endpoint_id \<Rightarrow> env"
  n_start :: "endpoint_id \<Rightarrow> pm"

text \<open>A connection: who dialed whom, for which peer object, and its number at either end once it is
  known there.\<close>

record link =
  l_from :: endpoint_id
  l_object :: nat
  l_to :: endpoint_id
  l_near :: "nat option"
  l_far :: "nat option"

record world =
  hist :: "endpoint_id \<Rightarrow> daemon_event list"
  links :: "link list"
  arrived :: "(nat \<times> bool \<times> nat) list"

definition node :: "net \<Rightarrow> world \<Rightarrow> endpoint_id \<Rightarrow> pm" where
  "node net w k = daemon_run (n_env net k) (n_start net k) (hist w k)"

definition happens :: "endpoint_id \<Rightarrow> daemon_event \<Rightarrow> world \<Rightarrow> world" where
  "happens k e w = w\<lparr>hist := (hist w)(k := hist w k @ [e])\<rparr>"

definition net_start :: world where
  "net_start = \<lparr>hist = (\<lambda>_. []), links = [], arrived = []\<rparr>"

text \<open>What happens to a machine without another of the honest ones.\<close>

definition outside :: "net \<Rightarrow> pm \<Rightarrow> daemon_event \<Rightarrow> bool" where
  "outside net m e =
     (case e of
        Incoming k _ \<Rightarrow> k \<notin> honest net
      | Dialed a _ \<Rightarrow> a < length (heap m) \<and> p_endpoint_id (heap m ! a) \<notin> honest net
      | _ \<Rightarrow> (case told m e of None \<Rightarrow> True | Some (k, _) \<Rightarrow> k \<notin> honest net))"

text \<open>A stream with the given bytes comes in on a connection: it is read by the task of the peer the
  connection belongs to, or by the enrollment that holds the connection.\<close>

definition receives :: "pm \<Rightarrow> nat \<Rightarrow> bytes \<Rightarrow> daemon_event \<Rightarrow> bool" where
  "receives m c d e =
     (case e of
        UniStream a (Some d') \<Rightarrow> d' = d \<and> a < length (heap m) \<and> p_endpoint_id (heap m ! a) = c_remote (conns m ! c)
      | EnrollmentStream i (Some d') _ \<Rightarrow>
          d' = d \<and> (case map_of (enrolling m) i of None \<Rightarrow> False | Some en \<Rightarrow> en_conn en = c)
      | _ \<Rightarrow> False)"

text \<open>The end that writes and the end that reads, where \<open>out\<close> is the direction from the dialer.\<close>

definition writer :: "link \<Rightarrow> bool \<Rightarrow> endpoint_id \<times> nat option" where
  "writer l out = (if out then (l_from l, l_near l) else (l_to l, l_far l))"

definition reader :: "link \<Rightarrow> bool \<Rightarrow> endpoint_id \<times> nat option" where
  "reader l out = writer l (\<not> out)"

inductive net_step :: "net \<Rightarrow> world \<Rightarrow> world \<Rightarrow> bool" for net where
  alone: "k \<in> honest net \<Longrightarrow> outside net (node net w k) e \<Longrightarrow> net_step net w (happens k e w)"
| handshake: "x \<in> honest net \<Longrightarrow> y \<in> honest net \<Longrightarrow> a < length (heap (node net w x)) \<Longrightarrow>
    p_endpoint_id (heap (node net w x) ! a) = y \<Longrightarrow>
    net_step net w (w\<lparr>links := links w @ [\<lparr>l_from = x, l_object = a, l_to = y, l_near = None, l_far = None\<rparr>]\<rparr>)"
| near_end: "i < length (links w) \<Longrightarrow> l = links w ! i \<Longrightarrow> l_near l = None \<Longrightarrow>
    net_step net w (happens (l_from l) (Dialed (l_object l) opens)
      (w\<lparr>links := (links w)[i := l\<lparr>l_near := Some (length (conns (node net w (l_from l))))\<rparr>]\<rparr>))"
| far_end: "i < length (links w) \<Longrightarrow> l = links w ! i \<Longrightarrow> l_far l = None \<Longrightarrow>
    net_step net w (happens (l_to l) (Incoming (l_from l) opens)
      (w\<lparr>links := (links w)[i := l\<lparr>l_far := Some (length (conns (node net w (l_to l))))\<rparr>]\<rparr>))"
| message: "i < length (links w) \<Longrightarrow> writer (links w ! i) out = (x, Some c) \<Longrightarrow> reader (links w ! i) out = (y, Some c') \<Longrightarrow>
    j < length (c_sent (conns (node net w x) ! c)) \<Longrightarrow> (i, out, j) \<notin> set (arrived w) \<Longrightarrow>
    receives (node net w y) c' (c_sent (conns (node net w x) ! c) ! j) e \<Longrightarrow>
    net_step net w (happens y e (w\<lparr>arrived := (i, out, j) # arrived w\<rparr>))"

abbreviation net_reach :: "net \<Rightarrow> world \<Rightarrow> bool" where
  "net_reach net \<equiv> (net_step net)\<^sup>*\<^sup>* net_start"

definition net_ok :: "net \<Rightarrow> bool" where
  "net_ok net \<longleftrightarrow>
     (\<forall>k \<in> honest net. \<exists>h pf sf ns name. with_endpoint (n_env net k) k h pf sf ns name = Inr (n_start net k)) \<and>
     (\<forall>j \<in> honest net. \<forall>k \<in> honest net. \<forall>msg d. e_encode (n_env net j) msg = Some d \<longrightarrow> e_decode (n_env net k) d = Some msg)"

lemma node_happens:
  "node net (happens k e w) j = (if j = k then daemon_step (n_env net k) (node net w k) e else node net w j)"
  by (simp add: node_def happens_def run_all_append)

lemma node_same [simp]: "node net (w\<lparr>links := ls\<rparr>) = node net w" "node net (w\<lparr>arrived := ds\<rparr>) = node net w"
  by (simp_all add: node_def fun_eq_iff)

lemma persists_happens: "persists (node net w j) (node net (happens k e w) j)"
  by (simp add: node_happens persists_step persists_refl)

subsection \<open>Both ends of a connection\<close>

definition end_ok :: "net \<Rightarrow> world \<Rightarrow> endpoint_id \<Rightarrow> nat option \<Rightarrow> endpoint_id \<Rightarrow> bool" where
  "end_ok net w k c j \<longleftrightarrow>
     (\<forall>i. c = Some i \<longrightarrow> i < length (conns (node net w k)) \<and> c_remote (conns (node net w k) ! i) = j)"

definition link_ok :: "net \<Rightarrow> world \<Rightarrow> link \<Rightarrow> bool" where
  "link_ok net w l \<longleftrightarrow> l_from l \<in> honest net \<and> l_to l \<in> honest net \<and>
     l_object l < length (heap (node net w (l_from l))) \<and>
     p_endpoint_id (heap (node net w (l_from l)) ! l_object l) = l_to l \<and>
     end_ok net w (l_from l) (l_near l) (l_to l) \<and> end_ok net w (l_to l) (l_far l) (l_from l)"

lemma end_ok_happens: "end_ok net w k c j \<Longrightarrow> end_ok net (happens k' e w) k c j"
  using persists_happens [of net w k k' e] by (auto simp: end_ok_def persists_def)

lemma link_ok_happens: "link_ok net w l \<Longrightarrow> link_ok net (happens k e w) l"
  using persists_happens [of net w "l_from l" k e] end_ok_happens by (auto simp: link_ok_def persists_def)

lemma link_ok_same: "link_ok net (w\<lparr>links := ls\<rparr>) = link_ok net w" "link_ok net (w\<lparr>arrived := ds\<rparr>) = link_ok net w"
  by (simp_all add: link_ok_def end_ok_def fun_eq_iff)

text \<open>The connection an event brings has the number it was given, and leads to the key named.\<close>

lemma new_end:
  assumes "e = Incoming j opens \<or> e = Dialed a opens \<and> p_endpoint_id (heap (node net w k) ! a) = j"
  shows "end_ok net (happens k e w) k (Some (length (conns (node net w k)))) j"
proof -
  let ?m = "node net w k"
  have "persists (new_conn ?m j opens) (daemon_step (n_env net k) ?m e)"
    using assms persists_incoming quiet_persists [OF quiet_dialed [OF quiet_refl]] by auto
  then show ?thesis
    by (auto simp: end_ok_def node_happens persists_def new_conn_def nth_append dest: spec [of _ "length (conns ?m)"])
qed

subsection \<open>Messages are authentic\<close>

definition authentic :: "net \<Rightarrow> world \<Rightarrow> endpoint_id \<Rightarrow> endpoint_id \<Rightarrow> bool" where
  "authentic net w x y \<longleftrightarrow> (\<forall>pre e post d. hist w y = pre @ e # post \<longrightarrow>
     told (daemon_run (n_env net y) (n_start net y) pre) e = Some (x, d) \<longrightarrow>
     (\<exists>as1 as2. hist w x = as1 @ as2 \<and>
        (\<exists>c \<in> set (conns (daemon_run (n_env net x) (n_start net x) as1)). c_remote c = y \<and> d \<in> set (c_sent c))))"

lemma authentic_happens:
  assumes a: "authentic net w x y"
    and new: "\<And>d. k = y \<Longrightarrow> told (node net w y) e = Some (x, d) \<Longrightarrow>
      \<exists>c \<in> set (conns (node net w x)). c_remote c = y \<and> d \<in> set (c_sent c)"
  shows "authentic net (happens k e w) x y"
  unfolding authentic_def
proof (intro allI impI)
  fix pre f post d
  assume h: "hist (happens k e w) y = pre @ f # post"
    and t: "told (daemon_run (n_env net y) (n_start net y) pre) f = Some (x, d)"
  have "\<exists>as1 as2. hist w x = as1 @ as2 \<and>
      (\<exists>c \<in> set (conns (daemon_run (n_env net x) (n_start net x) as1)). c_remote c = y \<and> d \<in> set (c_sent c))"
  proof (cases "k = y \<and> post = []")
    case True
    then have "pre = hist w y" "f = e" using h by (auto simp: happens_def)
    then show ?thesis using new [of d] True t by - (rule exI [of _ "hist w x"], rule exI [of _ "[]"], simp add: node_def)
  next
    case False
    then obtain post' where "hist w y = pre @ f # post'"
      using h by (cases post rule: rev_cases) (auto simp: happens_def split: if_splits)
    then show ?thesis using a t unfolding authentic_def by blast
  qed
  then obtain as1 as2 where "hist w x = as1 @ as2"
    "\<exists>c \<in> set (conns (daemon_run (n_env net x) (n_start net x) as1)). c_remote c = y \<and> d \<in> set (c_sent c)" by blast
  then show "\<exists>as1 as2. hist (happens k e w) x = as1 @ as2 \<and>
      (\<exists>c \<in> set (conns (daemon_run (n_env net x) (n_start net x) as1)). c_remote c = y \<and> d \<in> set (c_sent c))"
    by - (rule exI [of _ as1], rule exI [of _ "as2 @ (if x = k then [e] else [])"], auto simp: happens_def)
qed

definition net_inv :: "net \<Rightarrow> world \<Rightarrow> bool" where
  "net_inv net w \<longleftrightarrow> (\<forall>k \<in> honest net. dials_known (n_env net k) (n_start net k) (hist w k)) \<and>
     (\<forall>l \<in> set (links w). link_ok net w l) \<and> (\<forall>x \<in> honest net. \<forall>y \<in> honest net. authentic net w x y)"

lemma inv_happens:
  assumes inv: "net_inv net w" and d: "dials_known (n_env net k) (node net w k) [e]"
    and t: "\<And>x d. x \<in> honest net \<Longrightarrow> told (node net w k) e = Some (x, d) \<Longrightarrow>
      \<exists>c \<in> set (conns (node net w x)). c_remote c = k \<and> d \<in> set (c_sent c)"
  shows "net_inv net (happens k e w)"
proof -
  have "dials_known (n_env net j) (n_start net j) (hist (happens k e w) j)" if "j \<in> honest net" for j
    using inv that d by (auto simp: net_inv_def happens_def dials_known_append node_def)
  moreover have "authentic net (happens k e w) x y" if "x \<in> honest net" "y \<in> honest net" for x y
    by (rule authentic_happens) (use inv that t in \<open>auto simp: net_inv_def\<close>)
  moreover have "link_ok net (happens k e w) l" if "l \<in> set (links w)" for l
    using inv that by (auto simp: net_inv_def intro: link_ok_happens)
  ultimately show ?thesis by (simp add: net_inv_def) (simp add: happens_def)
qed

lemma inv_links:
  "net_inv net w \<Longrightarrow> set ls \<subseteq> set (links w) \<union> {l. link_ok net w l} \<Longrightarrow> net_inv net (w\<lparr>links := ls\<rparr>)"
  "net_inv net w \<Longrightarrow> net_inv net (w\<lparr>arrived := ds\<rparr>)"
  by (auto simp: net_inv_def link_ok_same authentic_def)

lemma told_received:
  assumes "receives m c d e" "told m e = Some (k, d')"
  shows "k = c_remote (conns m ! c) \<and> d' = d"
proof (cases e)
  case (UniStream a stream)
  then show ?thesis using assms by (cases stream) (auto simp: receives_def split: if_splits)
next
  case (EnrollmentStream i stream now)
  then show ?thesis using assms by (cases stream) (auto simp: receives_def split: if_splits option.splits)
qed (use assms in simp_all)

lemma told_outside: "outside net m e \<Longrightarrow> told m e = Some (k, d) \<Longrightarrow> k \<notin> honest net"
  by (cases e) (simp_all add: outside_def)

lemma happens_links: "happens k e (w\<lparr>links := ls\<rparr>) = (happens k e w)\<lparr>links := ls\<rparr>"
  by (simp add: happens_def)

lemma inv_end:
  assumes inv: "net_inv net (happens k e w)" and l: "links w ! i = l" "i < length (links w)"
    and new: "link_ok net (happens k e w) l'"
  shows "net_inv net (happens k e (w\<lparr>links := (links w)[i := l']\<rparr>))"
  unfolding happens_links
  by (rule inv_links(1) [OF inv]) (use new set_update_subset_insert [of "links w" i l'] in \<open>auto simp: happens_def\<close>)

lemma net_inv_step:
  assumes inv: "net_inv net w" and step: "net_step net w w'"
  shows "net_inv net w'"
  using step
proof cases
  case (alone k e)
  have "dials_known (n_env net k) (node net w k) [e]" using alone(3) by (auto simp: outside_def split: daemon_event.splits)
  then show ?thesis unfolding alone(1) by (rule inv_happens [OF inv]) (use told_outside [OF alone(3)] in blast)
next
  case (handshake x y a)
  then show ?thesis by (auto simp: link_ok_def end_ok_def intro!: inv_links(1) [OF inv])
next
  case (near_end i l opens)
  have l: "link_ok net w l" using inv near_end(2,3) by (simp add: net_inv_def)
  have inv': "net_inv net (happens (l_from l) (Dialed (l_object l) opens) w)"
    by (rule inv_happens [OF inv]) (use l in \<open>simp_all add: link_ok_def\<close>)
  show ?thesis unfolding near_end(1)
    by (rule inv_end [OF inv' near_end(3) [symmetric] near_end(2)])
      (use link_ok_happens [OF l, of "l_from l" "Dialed (l_object l) opens"] new_end [of "Dialed (l_object l) opens"] l
        in \<open>auto simp: link_ok_def\<close>)
next
  case (far_end i l opens)
  have l: "link_ok net w l" using inv far_end(2,3) by (simp add: net_inv_def)
  have inv': "net_inv net (happens (l_to l) (Incoming (l_from l) opens) w)"
    by (rule inv_happens [OF inv]) simp_all
  show ?thesis unfolding far_end(1)
    by (rule inv_end [OF inv' far_end(3) [symmetric] far_end(2)])
      (use link_ok_happens [OF l, of "l_to l" "Incoming (l_from l) opens"] new_end [of "Incoming (l_from l) opens"]
        in \<open>auto simp: link_ok_def\<close>)
next
  case (message i out x c y c' j e)
  let ?w = "w\<lparr>arrived := (i, out, j) # arrived w\<rparr>"
  have l: "link_ok net w (links w ! i)" using inv message(2) by (simp add: net_inv_def)
  then have ends: "end_ok net w x (Some c) y" "end_ok net w y (Some c') x"
    using message(3,4) by (auto simp: link_ok_def writer_def reader_def split: if_splits)
  have e: "dials_known (n_env net y) (node net ?w y) [e]" using message(7) by (auto simp: receives_def split: daemon_event.splits)
  show ?thesis unfolding message(1)
  proof (rule inv_happens [OF inv_links(2) [OF inv] e])
    fix z d
    assume "told (node net ?w y) e = Some (z, d)"
    then have "z = x" "d = c_sent (conns (node net w x) ! c) ! j"
      using told_received [OF message(7)] ends(2) by (auto simp: end_ok_def)
    then show "\<exists>c \<in> set (conns (node net ?w z)). c_remote c = y \<and> d \<in> set (c_sent c)"
      using ends(1) message(5) by (auto simp: end_ok_def intro!: bexI [of _ "conns (node net w x) ! c"])
  qed
qed

lemma net_inv_reach: "net_reach net w \<Longrightarrow> net_inv net w"
  by (induction rule: rtranclp_induct) (auto simp: net_inv_step, simp add: net_inv_def net_start_def authentic_def)

subsection \<open>Running the network\<close>

text \<open>A step is determined by what takes it.\<close>

datatype net_event =
    Alone endpoint_id daemon_event
  | Handshake endpoint_id nat
  | NearEnd nat bool
  | FarEnd nat bool
  | Message nat bool nat daemon_event

fun net_do :: "net \<Rightarrow> net_event \<Rightarrow> world \<Rightarrow> world option" where
  "net_do net (Alone k e) w = (if k \<in> honest net \<and> outside net (node net w k) e then Some (happens k e w) else None)"
| "net_do net (Handshake x a) w =
     (if x \<in> honest net \<and> a < length (heap (node net w x)) \<and> p_endpoint_id (heap (node net w x) ! a) \<in> honest net
      then Some (w\<lparr>links := links w @ [\<lparr>l_from = x, l_object = a, l_to = p_endpoint_id (heap (node net w x) ! a),
                                        l_near = None, l_far = None\<rparr>]\<rparr>)
      else None)"
| "net_do net (NearEnd i opens) w =
     (if i < length (links w) \<and> l_near (links w ! i) = None
      then Some (let l = links w ! i
                 in happens (l_from l) (Dialed (l_object l) opens)
                      (w\<lparr>links := (links w)[i := l\<lparr>l_near := Some (length (conns (node net w (l_from l))))\<rparr>]\<rparr>))
      else None)"
| "net_do net (FarEnd i opens) w =
     (if i < length (links w) \<and> l_far (links w ! i) = None
      then Some (let l = links w ! i
                 in happens (l_to l) (Incoming (l_from l) opens)
                      (w\<lparr>links := (links w)[i := l\<lparr>l_far := Some (length (conns (node net w (l_to l))))\<rparr>]\<rparr>))
      else None)"
| "net_do net (Message i out j e) w =
     (if i < length (links w) \<and> (i, out, j) \<notin> set (arrived w) then
        (case (writer (links w ! i) out, reader (links w ! i) out) of
           ((x, Some c), (y, Some c')) \<Rightarrow>
             if j < length (c_sent (conns (node net w x) ! c)) \<and>
                receives (node net w y) c' (c_sent (conns (node net w x) ! c) ! j) e
             then Some (happens y e (w\<lparr>arrived := (i, out, j) # arrived w\<rparr>)) else None
         | _ \<Rightarrow> None)
      else None)"

fun net_run :: "net \<Rightarrow> net_event list \<Rightarrow> world \<Rightarrow> world option" where
  "net_run net [] w = Some w"
| "net_run net (e # es) w = Option.bind (net_do net e w) (net_run net es)"

lemma net_do_step: "net_do net e w = Some w' \<Longrightarrow> net_step net w w'"
  by (cases e) (auto simp: Let_def split: if_splits option.splits prod.splits intro: net_step.intros)

lemma net_run_reach: "net_run net es w = Some w' \<Longrightarrow> (net_step net)\<^sup>*\<^sup>* w w'"
proof (induction es arbitrary: w)
  case (Cons e es)
  then obtain w1 where "net_do net e w = Some w1" "net_run net es w1 = Some w'" by (auto simp: bind_eq_Some_conv)
  then show ?case using Cons.IH net_do_step converse_rtranclp_into_rtranclp by metis
qed simp

lemma net_run_append: "net_run net (es @ fs) w = Option.bind (net_run net es w) (net_run net fs)"
proof (induction es arbitrary: w)
  case (Cons e es)
  then show ?case by (cases "net_do net e w") simp_all
qed simp

subsection \<open>Properties\<close>

text \<open>C5: a port that a daemon lists or has bound for a peer was opened for it there. On a network where
  any number of machines run this program, among others that may do and send whatever they
  like, every port that one of them lists for another of them, and every port it has a listener on for it,
  goes back to an event at that other machine that gave it the port: a request or a flag of the operator there
  that names its key for the port, or its own claim of a live code that carries the port.\<close>

theorem listed_ports_were_granted:
  assumes "net_ok net" "net_reach net w" "x \<in> honest net" "y \<in> honest net"
    and "map_of (peers (node net w y)) x = Some b"
    and "port \<in> set (p_exposed_ports (heap (node net w y) ! b)) \<union> set (keys (p_bindings (heap (node net w y) ! b)))"
  shows "\<exists>pre e post. hist w x = pre @ e # post \<and>
    daemon_grants (n_env net x) port y (daemon_run (n_env net x) (n_start net x) pre) e"
proof -
  have inv: "net_inv net w" by (rule net_inv_reach [OF assms(2)])
  obtain hx px sx nx namex where x: "with_endpoint (n_env net x) x hx px sx nx namex = Inr (n_start net x)"
    using assms(1,3) unfolding net_ok_def by meson
  obtain hy py sy ny namey where y: "with_endpoint (n_env net y) y hy py sy ny namey = Inr (n_start net y)"
    using assms(1,4) unfolding net_ok_def by meson
  have "dials_known (n_env net x) (n_start net x) (hist w x)" using inv assms(3) by (simp add: net_inv_def)
  moreover have "authentic net w x y" using inv assms(3,4) by (simp add: net_inv_def)
  moreover have "\<forall>msg d. e_encode (n_env net x) msg = Some d \<longrightarrow> e_decode (n_env net y) d = Some msg"
    using assms(1,3,4) by (simp add: net_ok_def)
  ultimately show ?thesis
    using bound_ports_were_granted [OF x _ y node_def, where as = "hist w x"] assms(5,6) unfolding authentic_def by blast
qed

end
