(* ===== verification/Streams.thy ===== *)
theory Streams
  imports Reach Network "HOL-Library.Multiset" "HOL-Library.Sublist"
begin

text \<open>
  The streams of a running connection: the accept loop of \<open>run_connection\<close> in \<open>src/peer.rs\<close>. It takes
  control streams and tunnel requests as they come and hands each to a task of its own, so they are
  handled in any order, with anything else the daemon does in between, and the tasks outlive the
  loop.
\<close>

subsection \<open>The loop and its tasks\<close>

text \<open>A control stream is what was read of it, None where reading failed; a tunnel request is what the
  peer sent on it.\<close>

datatype stream = Uni "bytes option" | Bi bytes

record conn_task =
  ct_pm :: pm
  ct_open :: bool
  ct_accepted :: "stream list"
  ct_spawned :: "stream multiset"
  ct_handled :: "stream list"
  ct_tunnels :: "(bytes \<times> bi_outcome result) list"

definition run_connection :: "pm \<Rightarrow> conn_task" where
  "run_connection m =
     \<lparr>ct_pm = m, ct_open = True, ct_accepted = [], ct_spawned = {#}, ct_handled = [], ct_tunnels = []\<rparr>"

inductive stream_step :: "env \<Rightarrow> (ip_addr \<Rightarrow> u16 \<Rightarrow> bool) \<Rightarrow> nat \<Rightarrow> conn_task \<Rightarrow> conn_task \<Rightarrow> bool"
  for env connects a where
  accepts: "ct_open s \<Longrightarrow>
    stream_step env connects a s (s\<lparr>ct_accepted := ct_accepted s @ [x], ct_spawned := add_mset x (ct_spawned s)\<rparr>)"
| connection_fails: "ct_open s \<Longrightarrow> stream_step env connects a s (s\<lparr>ct_open := False\<rparr>)"
| handles_uni: "Uni d \<in># ct_spawned s \<Longrightarrow>
    stream_step env connects a s
      (s\<lparr>ct_pm := handle_uni_stream env (ct_pm s) a d, ct_spawned := ct_spawned s - {#Uni d#},
         ct_handled := ct_handled s @ [Uni d]\<rparr>)"
| handles_bi: "Bi d \<in># ct_spawned s \<Longrightarrow>
    stream_step env connects a s
      (s\<lparr>ct_spawned := ct_spawned s - {#Bi d#}, ct_handled := ct_handled s @ [Bi d],
         ct_tunnels := ct_tunnels s @ [(d, handle_bi_stream connects (ct_pm s) a d)]\<rparr>)"
| elsewhere: "stream_step env connects a s (s\<lparr>ct_pm := daemon_step env (ct_pm s) e\<rparr>)"

inductive_cases stream_stepE: "stream_step env connects a s s'"

subsection \<open>The tasks are events of the daemon\<close>

fun control_event :: "nat \<Rightarrow> stream \<Rightarrow> daemon_event list" where
  "control_event a (Uni d) = [UniStream a d]"
| "control_event a (Bi d) = []"

fun is_Bi :: "stream \<Rightarrow> bool" where
  "is_Bi (Bi d) = True"
| "is_Bi (Uni d) = False"

definition stream_inv :: "env \<Rightarrow> (ip_addr \<Rightarrow> u16 \<Rightarrow> bool) \<Rightarrow> nat \<Rightarrow> pm \<Rightarrow> conn_task \<Rightarrow> bool" where
  "stream_inv env connects a m s \<longleftrightarrow>
     mset (ct_accepted s) = ct_spawned s + mset (ct_handled s) \<and>
     map (Bi \<circ> fst) (ct_tunnels s) = filter is_Bi (ct_handled s) \<and>
     (\<exists>es. ct_pm s = daemon_run env m es \<and> subseq (concat (map (control_event a) (ct_handled s))) es \<and>
        (\<forall>(d, r) \<in> set (ct_tunnels s). \<exists>before. prefix before es \<and> r = handle_bi_stream connects (daemon_run env m before) a d))"

lemma stream_inv_extend:
  assumes "mset (ct_accepted s') = ct_spawned s' + mset (ct_handled s')"
    "map (Bi \<circ> fst) (ct_tunnels s') = filter is_Bi (ct_handled s')"
    and "ct_pm s = daemon_run env m es" "ct_pm s' = daemon_run env (ct_pm s) fs"
    and "subseq (concat (map (control_event a) (ct_handled s'))) (es @ fs)"
    and "\<forall>(d, r) \<in> set (ct_tunnels s'). \<exists>before. prefix before (es @ fs) \<and> r = handle_bi_stream connects (daemon_run env m before) a d"
  shows "stream_inv env connects a m s'"
  unfolding stream_inv_def using assms run_all_append [of "daemon_step env" m es fs] by (intro conjI exI [of _ "es @ fs"]) auto

lemma stream_inv_step:
  assumes "stream_step env connects a s s'" "stream_inv env connects a m s"
  shows "stream_inv env connects a m s'"
proof -
  obtain es where es: "ct_pm s = daemon_run env m es" "subseq (concat (map (control_event a) (ct_handled s))) es"
    "\<forall>(d, r) \<in> set (ct_tunnels s). \<exists>before. prefix before es \<and> r = handle_bi_stream connects (daemon_run env m before) a d"
    and tasks: "mset (ct_accepted s) = ct_spawned s + mset (ct_handled s)"
      "map (Bi \<circ> fst) (ct_tunnels s) = filter is_Bi (ct_handled s)"
    using assms(2) unfolding stream_inv_def by auto
  have later: "\<exists>before. prefix before (es @ fs) \<and> r = handle_bi_stream connects (daemon_run env m before) a d"
    if "(d, r) \<in> set (ct_tunnels s)" for d r fs
    using es(3) that prefix_prefix by fastforce
  show ?thesis
    using assms(1)
  proof cases
    case (handles_uni d)
    then show ?thesis
      using es tasks later list_emb_append_mono [OF es(2), of "[UniStream a d]" "[UniStream a d]"]
      by (intro stream_inv_extend [where s = s and es = es and fs = "[UniStream a d]"]) auto
  next
    case (handles_bi d)
    then show ?thesis
      using es tasks later [of _ _ "[]"] by (intro stream_inv_extend [where s = s and es = es and fs = "[]"]) auto
  next
    case (elsewhere e)
    then show ?thesis
      using es tasks later by (intro stream_inv_extend [where s = s and es = es and fs = "[e]"]) auto
  qed (use es tasks later [of _ _ "[]"] in \<open>intro stream_inv_extend [where s = s and es = es and fs = "[]"]; auto\<close>)+
qed

lemma stream_inv_reached:
  "(stream_step env connects a)\<^sup>*\<^sup>* (run_connection m) s \<Longrightarrow> stream_inv env connects a m s"
proof (induction rule: rtranclp_induct)
  case base
  show ?case unfolding stream_inv_def run_connection_def by (simp, intro exI [of _ "[]"]) simp
qed (rule stream_inv_step)

subsection \<open>Properties\<close>

text \<open>The port was given to the key in the course of the events, and not taken away since.\<close>

definition granted_by :: "env \<Rightarrow> pm \<Rightarrow> daemon_event list \<Rightarrow> u16 \<Rightarrow> endpoint_id \<Rightarrow> bool" where
  "granted_by env m0 es port k \<longleftrightarrow>
     (\<exists>xs e ys. es = xs @ e # ys \<and> daemon_grants env port k (daemon_run env m0 xs) e \<and>
        kept_through (daemon_step env) (daemon_grants env port k) (operator_revokes env port k)
          (daemon_step env (daemon_run env m0 xs) e) ys)"

lemma persists_run: "persists m (daemon_run env m es)"
  by (induction es arbitrary: m) (auto intro: persists_refl persists_trans [OF persists_step])

lemma tunnel_decided:
  assumes "with_endpoint env me h pf sf ns name = Inr m0" and "m = daemon_run env m0 es"
  shows "handle_bi_stream connects m a (tunnel_preamble port @ data) =
    (if granted_by env m0 es port (p_endpoint_id (heap m ! a)) then
       (if connects (host m) port then Inr (Tunneled (Forwarding (host m) port data)) else Inl (FailedToConnect (host m) port))
     else Inr Declined)"
proof -
  have wf: "pm_wf m0" using with_endpoint_start [OF assms(1)] by blast
  have "may m port k \<longleftrightarrow> granted_by env m0 es port k" for k
    unfolding granted_by_def assms(2) by (rule port.holds_iff_from [OF wf started_without_grants [OF assms(1)]])
  then show ?thesis by (simp add: served_port)
qed

text \<open>C7: the streams of a connection are decided by the grants, however many of them are handled at once. Take a daemon
  that started from its files, at any later time, and one of its peer objects. Whatever arrives on the connection, in
  whatever order the tasks of its streams run, and whatever else the daemon does meanwhile: every accepted stream is handled
  once or still waits; the manager is in a state that the events of the handled control streams, in the order they were
  handled, and other events of the daemon lead to; and each tunnel request, all of which are answered, was decided at one of the
  moments on the way. It was forwarded to the port it names only if an event up to that moment, before the connection or
  during it, had given the peer's key that port and none had taken it away, and declined otherwise.\<close>

theorem streams_decided_by_grants:
  assumes start: "with_endpoint env me h pf sf ns name = Inr m0" and m: "m = daemon_run env m0 before" "a < length (heap m)"
    and run: "(stream_step env connects a)\<^sup>*\<^sup>* (run_connection m) s"
  shows "mset (ct_accepted s) = ct_spawned s + mset (ct_handled s) \<and>
    map (Bi \<circ> fst) (ct_tunnels s) = filter is_Bi (ct_handled s) \<and>
    (\<exists>es. ct_pm s = daemon_run env m0 (before @ es) \<and> subseq (concat (map (control_event a) (ct_handled s))) es \<and>
       (\<forall>(d, r) \<in> set (ct_tunnels s). \<exists>now. prefix now es \<and>
          (length d < 2 \<longrightarrow> r = Inl StreamReadError) \<and>
          (\<forall>port data. d = tunnel_preamble port @ data \<longrightarrow>
             (let h = host (daemon_run env m0 (before @ now))
              in r = (if granted_by env m0 (before @ now) port (p_endpoint_id (heap m ! a)) then
                        (if connects h port then Inr (Tunneled (Forwarding h port data)) else Inl (FailedToConnect h port))
                      else Inr Declined)))))"
proof -
  obtain es where tasks: "mset (ct_accepted s) = ct_spawned s + mset (ct_handled s)"
    "map (Bi \<circ> fst) (ct_tunnels s) = filter is_Bi (ct_handled s)"
    and es: "ct_pm s = daemon_run env m es" "subseq (concat (map (control_event a) (ct_handled s))) es"
    "\<forall>(d, r) \<in> set (ct_tunnels s). \<exists>now. prefix now es \<and> r = handle_bi_stream connects (daemon_run env m now) a d"
    using stream_inv_reached [OF run] unfolding stream_inv_def by auto
  have run_from: "daemon_run env m now = daemon_run env m0 (before @ now)" for now by (simp add: m(1) run_all_append)
  have key: "p_endpoint_id (heap (daemon_run env m now) ! a) = p_endpoint_id (heap m ! a)" for now
    using persists_run [of m env now] m(2) by (simp add: persists_def)
  have decided: "(length d < 2 \<longrightarrow> r = Inl StreamReadError) \<and>
      (\<forall>port data. d = tunnel_preamble port @ data \<longrightarrow>
         (let h = host (daemon_run env m0 (before @ now))
          in r = (if granted_by env m0 (before @ now) port (p_endpoint_id (heap m ! a)) then
                    (if connects h port then Inr (Tunneled (Forwarding h port data)) else Inl (FailedToConnect h port))
                  else Inr Declined)))"
    if "r = handle_bi_stream connects (daemon_run env m now) a d" for d r now
  proof -
    have "r = Inl StreamReadError" if "length d < 2"
      using that \<open>r = _\<close> by (cases d rule: read_exact2.cases) (simp_all add: handle_bi_stream_def)
    then show ?thesis
      using that tunnel_decided [OF start run_from, of connects now a] key [of now] by (simp add: run_from Let_def)
  qed
  show ?thesis
  proof (intro conjI exI [of _ es] ballI)
    fix x assume x: "x \<in> set (ct_tunnels s)"
    obtain d r where dr: "x = (d, r)" by fastforce
    obtain now where now: "prefix now es" "r = handle_bi_stream connects (daemon_run env m now) a d"
      using bspec [OF es(3) x] unfolding dr by auto
    show "case x of (d, r) \<Rightarrow> \<exists>now. prefix now es \<and> (length d < 2 \<longrightarrow> r = Inl StreamReadError) \<and>
          (\<forall>port data. d = tunnel_preamble port @ data \<longrightarrow>
             (let h = host (daemon_run env m0 (before @ now))
              in r = (if granted_by env m0 (before @ now) port (p_endpoint_id (heap m ! a)) then
                        (if connects h port then Inr (Tunneled (Forwarding h port data)) else Inl (FailedToConnect h port))
                      else Inr Declined)))"
      unfolding dr prod.case by (rule exI [of _ now], rule conjI [OF now(1) decided [OF now(2)]])
  qed (simp_all only: tasks es run_from [symmetric])
qed

text \<open>Two control streams that come one after the other, handled in the other order.\<close>

lemma crossing:
  "(stream_step env connects a)\<^sup>*\<^sup>* (run_connection m)
     \<lparr>ct_pm = handle_uni_stream env (handle_uni_stream env m a d') a d, ct_open = True,
      ct_accepted = [Uni d, Uni d'], ct_spawned = {#}, ct_handled = [Uni d', Uni d], ct_tunnels = []\<rparr>"
proof -
  let ?s0 = "run_connection m"
  let ?s1 = "?s0\<lparr>ct_accepted := [Uni d], ct_spawned := {#Uni d#}\<rparr>"
  let ?s2 = "?s0\<lparr>ct_accepted := [Uni d, Uni d'], ct_spawned := {#Uni d, Uni d'#}\<rparr>"
  let ?s3 = "?s2\<lparr>ct_pm := handle_uni_stream env m a d', ct_spawned := {#Uni d#}, ct_handled := [Uni d']\<rparr>"
  have "stream_step env connects a ?s0 ?s1"
    using accepts [of ?s0 env connects a "Uni d"] by (simp add: run_connection_def)
  moreover have "stream_step env connects a ?s1 ?s2"
    using accepts [of ?s1 env connects a "Uni d'"] by (simp add: run_connection_def add_mset_commute)
  moreover have "stream_step env connects a ?s2 ?s3"
    using handles_uni [of d' ?s2 env connects a] by (simp add: run_connection_def)
  moreover have "stream_step env connects a ?s3
      \<lparr>ct_pm = handle_uni_stream env (handle_uni_stream env m a d') a d, ct_open = True,
       ct_accepted = [Uni d, Uni d'], ct_spawned = {#}, ct_handled = [Uni d', Uni d], ct_tunnels = []\<rparr>"
    using handles_uni [of d ?s3 env connects a] by (simp add: run_connection_def)
  ultimately show ?thesis by (meson converse_rtranclp_into_rtranclp rtranclp.rtrancl_refl)
qed

text \<open>One tunnel request is served, the port withdrawn, and the next one on the same connection declined.\<close>

lemma serving_then_not:
  assumes "handle_bi_stream connects m a d = r" "handle_bi_stream connects (daemon_step env m e) a d' = r'"
  shows "\<exists>s. (stream_step env connects a)\<^sup>*\<^sup>* (run_connection m) s \<and> ct_tunnels s = [(d, r), (d', r')]"
proof -
  let ?s0 = "run_connection m"
  let ?s1 = "?s0\<lparr>ct_accepted := [Bi d], ct_spawned := {#Bi d#}\<rparr>"
  let ?s2 = "?s1\<lparr>ct_spawned := {#}, ct_handled := [Bi d], ct_tunnels := [(d, r)]\<rparr>"
  let ?s3 = "?s2\<lparr>ct_pm := daemon_step env m e\<rparr>"
  let ?s4 = "?s3\<lparr>ct_accepted := [Bi d, Bi d'], ct_spawned := {#Bi d'#}\<rparr>"
  let ?s5 = "?s4\<lparr>ct_spawned := {#}, ct_handled := [Bi d, Bi d'], ct_tunnels := [(d, r), (d', r')]\<rparr>"
  have "stream_step env connects a ?s0 ?s1" using accepts [of ?s0 env connects a "Bi d"] by (simp add: run_connection_def)
  moreover have "stream_step env connects a ?s1 ?s2"
    using handles_bi [of d ?s1 env connects a] assms(1) by (simp add: run_connection_def)
  moreover have "stream_step env connects a ?s2 ?s3" using elsewhere [of env connects a ?s2 e] by (simp add: run_connection_def)
  moreover have "stream_step env connects a ?s3 ?s4" using accepts [of ?s3 env connects a "Bi d'"] by (simp add: run_connection_def)
  moreover have "stream_step env connects a ?s4 ?s5"
    using handles_bi [of d' ?s4 env connects a] assms(2) by (simp add: run_connection_def)
  ultimately have "(stream_step env connects a)\<^sup>*\<^sup>* ?s0 ?s5" by (meson converse_rtranclp_into_rtranclp rtranclp.rtrancl_refl)
  then show ?thesis by (intro exI [of _ ?s5]) simp
qed

definition served_events :: "daemon_event list" where
  "served_events = [Request (ReqExpose 80 [hex_show (EndpointId [7])] False) [] 0, Request (ReqAccept (hex_show (EndpointId [7])) None) [] 0]"

definition served_start :: pm where
  "served_start = pm_new (EndpointId [1]) localhost session_new (new_file ''p'') (new_file ''s'') None None"

lemma served_start_files: "with_endpoint plain_env (EndpointId [1]) localhost (new_file ''p'') (new_file ''s'') None None = Inr served_start"
  by (simp add: with_endpoint_def pins.load_absent surfs.load_absent load_pins_def restore_surfaces_def served_start_def pm_new_def)

lemma served_run:
  defines "m \<equiv> daemon_run plain_env served_start served_events"
  shows "heap m = [peer_new (EndpointId [7]) None True None None]" "host m = localhost" "may m 80 (EndpointId [7])"
    "heap (d_unexpose plain_env m 80 None) = heap m" "\<not> may (d_unexpose plain_env m 80 None) 80 (EndpointId [7])"
proof -
  let ?k = "EndpointId [7]"
  have g: "grantees_of plain_env served_start [hex_show ?k] False = Inr [?k]"
    using key_codecD(1) [OF hex_codec] by (simp add: grantees_of_def resolve_grantee_def)
  have m: "m = snd (add_peer (d_expose plain_env served_start 80 [?k]) ?k None None)"
    using printed_key_parses [OF hex_codec, of ?k]
    by (simp add: m_def served_events_def g d_accept_def)
  show "heap m = [peer_new ?k None True None None]" "host m = localhost"
    by (simp_all add: m served_start_def d_expose_def broadcast_grants_def add_peer_def install_peer_def pm_new_def)
  have w: "pm_wf served_start" unfolding served_start_def by (rule pm_wf_pm_new)
  then show "may m 80 ?k" by (simp add: m grants_add_peer may_expose)
  have "pm_wf m" unfolding m by (intro pm_wf_add_peer pm_wf_expose w)
  then show "\<not> may (d_unexpose plain_env m 80 None) 80 ?k" by (simp add: may_unexpose)
  show "heap (d_unexpose plain_env m 80 None) = heap m" by (simp add: d_unexpose_def heap_broadcast)
qed

theorem streams_decided_by_grants_witness:
  "\<exists>s es. (stream_step plain_env (\<lambda>_ _. True) 0)\<^sup>*\<^sup>* (run_connection (daemon_run plain_env served_start served_events)) s \<and>
     ct_tunnels s = [(tunnel_preamble 80 @ [1, 2], Inr (Tunneled (Forwarding localhost 80 [1, 2]))), (tunnel_preamble 80 @ [3], Inr Declined)] \<and>
     ct_pm s = daemon_run plain_env served_start (served_events @ es) \<and>
     (\<exists>now. prefix now es \<and> granted_by plain_env served_start (served_events @ now) 80 (EndpointId [7])) \<and>
     (\<exists>now. prefix now es \<and> \<not> granted_by plain_env served_start (served_events @ now) 80 (EndpointId [7]))"
proof -
  let ?m = "daemon_run plain_env served_start served_events" and ?c = "\<lambda>_ _. True"
  let ?e = "Request (ReqUnexpose 80 None) [] 1" and ?r = "Inr (Tunneled (Forwarding localhost 80 [1, 2]))"
  have h: "handle_bi_stream ?c ?m 0 (tunnel_preamble 80 @ [1, 2]) = ?r"
    "handle_bi_stream ?c (daemon_step plain_env ?m ?e) 0 (tunnel_preamble 80 @ [3]) = Inr Declined"
    using served_run by (simp_all add: served_port peer_new_def)
  obtain s where s: "(stream_step plain_env ?c 0)\<^sup>*\<^sup>* (run_connection ?m) s"
    "ct_tunnels s = [(tunnel_preamble 80 @ [1, 2], ?r), (tunnel_preamble 80 @ [3], Inr Declined)]"
    using serving_then_not [OF h] by blast
  have o: "0 < length (heap ?m)" "p_endpoint_id (heap ?m ! 0) = EndpointId [7]" using served_run(1) by (simp_all add: peer_new_def)
  obtain es where es: "ct_pm s = daemon_run plain_env served_start (served_events @ es)"
    and all: "\<forall>(d, r) \<in> set (ct_tunnels s). \<exists>now. prefix now es \<and> (length d < 2 \<longrightarrow> r = Inl StreamReadError) \<and>
      (\<forall>port data. d = tunnel_preamble port @ data \<longrightarrow>
         (let h = host (daemon_run plain_env served_start (served_events @ now))
          in r = (if granted_by plain_env served_start (served_events @ now) port (EndpointId [7]) then
             (if True then Inr (Tunneled (Forwarding h port data)) else Inl (FailedToConnect h port)) else Inr Declined)))"
    using streams_decided_by_grants [OF served_start_files refl o(1) s(1), unfolded o(2), THEN conjunct2, THEN conjunct2]
    by (elim exE conjE) (rule that)
  have one: "\<exists>now. prefix now es \<and> (r = Inr Declined \<longleftrightarrow> \<not> granted_by plain_env served_start (served_events @ now) port (EndpointId [7]))"
    if "(tunnel_preamble port @ data, r) \<in> set (ct_tunnels s)" for port data r
    using bspec [OF all that] by (auto simp: Let_def split: if_splits)
  have "\<exists>now. prefix now es \<and> granted_by plain_env served_start (served_events @ now) 80 (EndpointId [7])"
    using one [of 80 "[1, 2]" ?r] s(2) by auto
  moreover have "\<exists>now. prefix now es \<and> \<not> granted_by plain_env served_start (served_events @ now) 80 (EndpointId [7])"
    using one [of 80 "[3]" "Inr Declined"] s(2) by auto
  ultimately show ?thesis using s es by blast
qed

text \<open>C28: announcements can overtake each other. Nothing keeps the control streams of a peer in the order they were
  sent: of two announcements that both arrive, the first can be the one that is applied last, and the
  listeners are then those of the ports the peer exposed before, not of those it exposes now, with no
  further message on the way to correct them.\<close>

theorem announcements_can_cross:
  assumes m: "pm_wf m" "a < length (heap m)"
    and first: "e_decode env d = Some (ExposedPorts old)" "length d \<le> READ_LIMIT" "old \<noteq> []"
    and second: "e_decode env d' = Some (ExposedPorts new)" "length d' \<le> READ_LIMIT"
    and up: "binds_in_time env" "can_project env (update_peer_ports env m a new) a"
  shows "\<exists>s. (stream_step env connects a)\<^sup>*\<^sup>* (run_connection m) s \<and>
    ct_accepted s = [Uni (Some d), Uni (Some d')] \<and> ct_spawned s = {#} \<and>
    p_exposed_ports (heap (ct_pm s) ! a) = old \<and> set (keys (p_bindings (heap (ct_pm s) ! a))) = set old"
proof -
  let ?m1 = "update_peer_ports env m a new" and ?m2 = "update_peer_ports env (update_peer_ports env m a new) a old"
  have t: "touches a m ?m1" by (rule touches_update_ports)
  have a: "a < length (heap ?m1)" using m(2) touches_keeps(11) [OF t] by simp
  have "peer_wf (on_tun m) (heap ?m1 ! a)" by (rule update_ports_wf [OF m(2) pm_wfD(4) [OF m]])
  then have w: "peer_wf (on_tun ?m1) (heap ?m1 ! a)" using touches_keeps(12) [OF t] by simp
  obtain y where "p_surface (heap ?m2 ! a) = Some y"
    using update_ports_projects [OF a w up(2) first(3)] by blast
  then have "p_exposed_ports (heap ?m2 ! a) = old \<and> set (keys (p_bindings (heap ?m2 ! a))) = set old"
    using update_ports_exact [OF a w up(1), of old] by simp
  then show ?thesis
    using crossing [of env connects a m "Some d'" "Some d"]
    unfolding handle_announcement [OF first(1,2)] handle_announcement [OF second] by fastforce
qed

theorem announcements_can_cross_witness:
  "let m = paired (EndpointId [1]) (EndpointId [2]); enc = \<lambda>ps. the (encode_message (ExposedPorts ps))
   in \<exists>s. (stream_step plain_env (\<lambda>_ _. True) 0)\<^sup>*\<^sup>* (run_connection m) s \<and>
        ct_accepted s = [Uni (Some (enc [80])), Uni (Some (enc []))] \<and> ct_spawned s = {#} \<and>
        p_exposed_ports (heap (ct_pm s) ! 0) = [80] \<and> set (keys (p_bindings (heap (ct_pm s) ! 0))) = {80}"
proof -
  let ?m = "paired (EndpointId [1]) (EndpointId [2])" and ?enc = "\<lambda>ps. the (encode_message (ExposedPorts ps))"
  have dec: "e_decode plain_env (?enc ps) = Some (ExposedPorts ps)" for ps
    using message_codec_ok [of "ExposedPorts ps"] by auto
  have len: "length (?enc [80]) \<le> READ_LIMIT" "length (?enc []) \<le> READ_LIMIT"
    by (simp_all add: encode_message_def length_to_unary enc_list_def enc_map_def READ_LIMIT_def)
  have "heap (update_peer_ports plain_env ?m 0 []) = heap ?m"
    "can_project plain_env (update_peer_ports plain_env ?m 0 []) 0"
    using paired_can_project [of "EndpointId [1]" "EndpointId [2]"]
    by (simp_all add: update_peer_ports_def surface_ip_def set_peer_def paired_at peer_new_def can_project_def
        surface_base_def projected_ips_def claim_addr_def)
  then show ?thesis
    using announcements_can_cross [OF paired_wf, of 0 "EndpointId [1]" "EndpointId [2]" plain_env, OF _ dec len(1) _ dec len(2) plain_binds]
    by (auto simp: paired_at Let_def)
qed

end
