(* ===== verification/Forward.thy ===== *)
theory Forward
  imports Tunnel "HOL-Library.Sublist"
begin

text \<open>
  Both directions of a tunnel: \<open>forward_bidirectional\<close> in \<open>src/tunnel.rs\<close> and \<open>bridge\<close> in
  \<open>src/peer.rs\<close>. The two copies run concurrently, one turn of either at a time in any order, and the
  first to end drops the other (\<open>tokio::select!\<close>). A queue holds what has arrived at its reader and not been read
  yet; \<open>feed\<close> adds to it, and what a tunnel has done it could have done with more in its queues.
\<close>

subsection \<open>One turn of the copying loop\<close>

datatype turn = Blocked | Again "read_result list" writer u64 | Ended copy_outcome writer

definition copy_turn :: "read_result list \<Rightarrow> writer \<Rightarrow> u64 \<Rightarrow> turn" where
  "copy_turn rs w tot =
     (case rs of
        [] \<Rightarrow> Blocked
      | ReadFailure # _ \<Rightarrow> Ended CopyReadError w
      | Chunk bs # rs' \<Rightarrow>
          if bs = [] then Ended (Copied tot) w
          else let n = min COPY_BUF (length bs) in
            (case write_all w (take n bs) of
               (False, w') \<Rightarrow> Ended CopyWriteError w'
             | (True, w') \<Rightarrow> Again (if n < length bs then Chunk (drop n bs) # rs' else rs') w' (tot + of_nat n)))"

lemma copy_loop_turns:
  "copy_loop rs w tot =
     (case copy_turn rs w tot of
        Blocked \<Rightarrow> (CopyWaiting, w)
      | Again rs' w' tot' \<Rightarrow> copy_loop rs' w' tot'
      | Ended oc w' \<Rightarrow> (oc, w'))"
  by (cases "(rs, w, tot)" rule: copy_loop.cases) (auto simp: copy_turn_def Let_def split: prod.splits bool.splits)

lemma copy_turn_Blocked: "copy_turn rs w tot = Blocked \<longleftrightarrow> rs = []"
  by (auto simp: copy_turn_def Let_def split: list.splits read_result.splits prod.splits bool.splits)

subsection \<open>Two directions at once\<close>

record half =
  h_queue :: "read_result list"
  h_writer :: writer
  h_total :: u64

datatype side = Outward | Inward

datatype splice = Bidirectional | Bridge

text \<open>\<open>quic_finished\<close>: \<open>finish\<close> was called on the QUIC stream. \<open>client_shut\<close>: \<open>shutdown\<close> was called on
  the client's stream, which only \<open>bridge\<close> does.\<close>

record tunnel =
  outward :: half
  inward :: half
  quic_finished :: bool
  client_shut :: bool
  ended :: "(side \<times> copy_outcome) option"

abbreviation half_turn :: "half \<Rightarrow> turn" where
  "half_turn h \<equiv> copy_turn (h_queue h) (h_writer h) (h_total h)"

definition half_start :: "read_result list \<Rightarrow> writer \<Rightarrow> half" where
  "half_start rs w = \<lparr>h_queue = rs, h_writer = w, h_total = 0\<rparr>"

definition tunnel_start :: "half \<Rightarrow> half \<Rightarrow> tunnel" where
  "tunnel_start u d = \<lparr>outward = u, inward = d, quic_finished = False, client_shut = False, ended = None\<rparr>"

inductive tunnel_step :: "splice \<Rightarrow> tunnel \<Rightarrow> tunnel \<Rightarrow> bool" for k where
  out_again: "ended t = None \<Longrightarrow> half_turn (outward t) = Again rs w tot \<Longrightarrow>
    tunnel_step k t (t\<lparr>outward := \<lparr>h_queue = rs, h_writer = w, h_total = tot\<rparr>\<rparr>)"
| out_ends: "ended t = None \<Longrightarrow> half_turn (outward t) = Ended oc w \<Longrightarrow>
    tunnel_step k t (t\<lparr>outward := (outward t)\<lparr>h_writer := w\<rparr>, quic_finished := True, ended := Some (Outward, oc)\<rparr>)"
| in_again: "ended t = None \<Longrightarrow> half_turn (inward t) = Again rs w tot \<Longrightarrow>
    tunnel_step k t (t\<lparr>inward := \<lparr>h_queue = rs, h_writer = w, h_total = tot\<rparr>\<rparr>)"
| in_ends: "ended t = None \<Longrightarrow> half_turn (inward t) = Ended oc w \<Longrightarrow>
    tunnel_step k t (t\<lparr>inward := (inward t)\<lparr>h_writer := w\<rparr>, client_shut := (k = Bridge), ended := Some (Inward, oc)\<rparr>)"

inductive_cases tunnel_stepE: "tunnel_step k t t'"

subsection \<open>What a half has copied\<close>

text \<open>A half that copies \<open>rs\<close> to \<open>w\<close> and has not ended: what it wrote and what it has still to read
  make up the input.\<close>

definition half_copies :: "read_result list \<Rightarrow> writer \<Rightarrow> half \<Rightarrow> bool" where
  "half_copies rs w h \<longleftrightarrow> prefix (taken_bytes w) (taken_bytes (h_writer h)) \<and>
     taken_bytes w @ input_bytes rs = taken_bytes (h_writer h) @ input_bytes (h_queue h) \<and>
     h_total h + of_nat (length (taken_bytes w)) = of_nat (length (taken_bytes (h_writer h))) \<and>
     input_ends (h_queue h) = input_ends rs \<and> fails_after (h_writer h) = fails_after w"

definition half_wrote :: "read_result list \<Rightarrow> writer \<Rightarrow> half \<Rightarrow> bool" where
  "half_wrote rs w h \<longleftrightarrow> prefix (taken_bytes w) (taken_bytes (h_writer h)) \<and>
     prefix (taken_bytes (h_writer h)) (taken_bytes w @ input_bytes rs)"

text \<open>A half that ended: it wrote everything where it ended well.\<close>

definition half_ended :: "read_result list \<Rightarrow> writer \<Rightarrow> half \<Rightarrow> copy_outcome \<Rightarrow> bool" where
  "half_ended rs w h oc \<longleftrightarrow>
     (case oc of
        Copied n \<Rightarrow> taken_bytes (h_writer h) = taken_bytes w @ input_bytes rs \<and> input_ends rs \<and>
          n = of_nat (length (input_bytes rs))
      | CopyReadError \<Rightarrow> taken_bytes (h_writer h) = taken_bytes w @ input_bytes rs \<and> \<not> input_ends rs
      | CopyWriteError \<Rightarrow> fails_after w \<noteq> None
      | CopyWaiting \<Rightarrow> False)"

lemma half_copies_start: "half_copies rs w (half_start rs w)"
  by (simp add: half_copies_def half_start_def)

lemma half_copies_wrote: "half_copies rs w h \<Longrightarrow> half_wrote rs w h"
  by (simp add: half_copies_def half_wrote_def)

lemma write_all_True: "write_all w bs = (True, w') \<Longrightarrow> w' = w\<lparr>taken_bytes := taken_bytes w @ bs\<rparr>"
  by (auto simp: write_all_def split: option.splits if_splits)

lemma write_all_False:
  assumes "write_all w bs = (False, w')"
  shows "fails_after w \<noteq> None \<and> (\<exists>j. taken_bytes w' = taken_bytes w @ take j bs)"
  using assms by (auto simp: write_all_def split: option.splits if_splits)

lemma turn_again_cases:
  assumes "copy_turn q w tot = Again q' w' tot'"
  obtains bs rs where "q = Chunk bs # rs" "bs \<noteq> []"
    "w' = w\<lparr>taken_bytes := taken_bytes w @ take COPY_BUF bs\<rparr>" "tot' = tot + of_nat (length (take COPY_BUF bs))"
    "q' = (if COPY_BUF < length bs then Chunk (drop COPY_BUF bs) # rs else rs)"
proof -
  from assms obtain bs rs where q: "q = Chunk bs # rs" "bs \<noteq> []"
    by (auto simp: copy_turn_def Let_def split: list.splits read_result.splits if_splits)
  let ?n = "min COPY_BUF (length bs)"
  have t: "take ?n bs = take COPY_BUF bs" "(?n < length bs) = (COPY_BUF < length bs)" by (auto simp: min_def)
  obtain ok w1 where w1: "write_all w (take COPY_BUF bs) = (ok, w1)" by fastforce
  have ok: "ok" using assms q w1 by (cases ok) (simp_all add: copy_turn_def Let_def t)
  then have "w' = w1" "tot' = tot + of_nat ?n" "q' = (if ?n < length bs then Chunk (drop ?n bs) # rs else rs)"
    using assms q w1 by (simp_all add: copy_turn_def Let_def t)
  moreover have "?n = length (take COPY_BUF bs)" by simp
  moreover have "drop ?n bs = drop COPY_BUF bs" if "COPY_BUF < length bs" using that by (simp add: min_def)
  ultimately show thesis using that [OF q] write_all_True [of w "take COPY_BUF bs" w1] w1 ok t(2) by auto
qed

lemma half_copies_again:
  assumes "half_copies rs w h" "half_turn h = Again q' w' tot'"
  shows "half_copies rs w \<lparr>h_queue = q', h_writer = w', h_total = tot'\<rparr>"
proof -
  obtain bs r where r: "h_queue h = Chunk bs # r" "bs \<noteq> []"
    "w' = (h_writer h)\<lparr>taken_bytes := taken_bytes (h_writer h) @ take COPY_BUF bs\<rparr>"
    "tot' = h_total h + of_nat (length (take COPY_BUF bs))"
    "q' = (if COPY_BUF < length bs then Chunk (drop COPY_BUF bs) # r else r)"
    using turn_again_cases [OF assms(2)] by blast
  have "take COPY_BUF bs @ input_bytes q' = input_bytes (h_queue h)" "input_ends q' = input_ends (h_queue h)"
    using r(1,2,5) by auto
  then show ?thesis using assms(1) r(3,4) by (simp add: half_copies_def algebra_simps)
qed

lemma half_copies_ends:
  assumes "half_copies rs w h" "half_turn h = Ended oc w'"
  shows "half_wrote rs w (h\<lparr>h_writer := w'\<rparr>) \<and> half_ended rs w (h\<lparr>h_writer := w'\<rparr>) oc"
proof (cases "h_queue h")
  case Nil
  then show ?thesis using assms(2) by (simp add: copy_turn_def)
next
  case (Cons r q)
  show ?thesis
  proof (cases r)
    case ReadFailure
    then show ?thesis using assms Cons by (auto simp: copy_turn_def half_copies_def half_wrote_def half_ended_def)
  next
    case (Chunk bs)
    show ?thesis
    proof (cases "bs = []")
      case True
      then have "oc = Copied (h_total h)" "w' = h_writer h" "input_bytes (h_queue h) = []" "input_ends (h_queue h)"
        using assms(2) Cons Chunk by (auto simp: copy_turn_def)
      moreover from this(3) assms(1) have "h_total h = of_nat (length (input_bytes rs))"
        by (auto simp: half_copies_def dest: arg_cong [where f = length] sym)
      ultimately show ?thesis using assms(1) by (auto simp: half_copies_def half_wrote_def half_ended_def)
    next
      case False
      let ?n = "min COPY_BUF (length bs)"
      obtain ok w1 where w1: "write_all (h_writer h) (take ?n bs) = (ok, w1)" by fastforce
      have no: "\<not> ok" and w': "w' = w1" "oc = CopyWriteError"
        using assms(2) Cons Chunk False w1 by (cases ok; simp add: copy_turn_def Let_def)+
      have "write_all (h_writer h) (take ?n bs) = (False, w1)" using w1 no by simp
      from write_all_False [OF this]
      obtain j where j: "fails_after (h_writer h) \<noteq> None" "taken_bytes w1 = taken_bytes (h_writer h) @ take j (take ?n bs)" by blast
      have "prefix (take j (take ?n bs)) (bs @ input_bytes q)"
        by (metis prefix_def append_take_drop_id append.assoc)
      then show ?thesis using assms(1) j w' Cons Chunk False
        by (auto simp: half_copies_def half_wrote_def half_ended_def)
    qed
  qed
qed

subsection \<open>What a tunnel has copied\<close>

definition tunnel_inv :: "splice \<Rightarrow> read_result list \<Rightarrow> writer \<Rightarrow> read_result list \<Rightarrow> writer \<Rightarrow> tunnel \<Rightarrow> bool" where
  "tunnel_inv k a wa b wb t \<longleftrightarrow>
     (case ended t of
        None \<Rightarrow> half_copies a wa (outward t) \<and> half_copies b wb (inward t) \<and> \<not> quic_finished t \<and> \<not> client_shut t
      | Some (Outward, oc) \<Rightarrow> half_wrote a wa (outward t) \<and> half_ended a wa (outward t) oc \<and>
          half_copies b wb (inward t) \<and> quic_finished t \<and> \<not> client_shut t
      | Some (Inward, oc) \<Rightarrow> half_wrote b wb (inward t) \<and> half_ended b wb (inward t) oc \<and>
          half_copies a wa (outward t) \<and> \<not> quic_finished t \<and> (client_shut t \<longleftrightarrow> k = Bridge))"

lemma tunnel_inv_step:
  assumes "tunnel_inv k a wa b wb t" "tunnel_step k t t'"
  shows "tunnel_inv k a wa b wb t'"
  using assms(2,1)
  by (cases rule: tunnel_step.cases) (auto simp: tunnel_inv_def intro: half_copies_again dest: half_copies_ends)

lemma tunnel_inv_reached:
  assumes "(tunnel_step k)\<^sup>*\<^sup>* (tunnel_start (half_start a wa) (half_start b wb)) t"
  shows "tunnel_inv k a wa b wb t"
  using assms
  by (induction rule: rtranclp_induct)
    (simp_all add: tunnel_inv_step, simp add: tunnel_inv_def tunnel_start_def half_copies_start)

lemma tunnel_inv_wrote:
  "tunnel_inv k a wa b wb t \<Longrightarrow> half_wrote a wa (outward t) \<and> half_wrote b wb (inward t)"
  by (auto simp: tunnel_inv_def half_copies_wrote split: option.splits prod.splits side.splits)

lemma half_wrote_takes:
  assumes "half_wrote rs w h"
  shows "\<exists>i. taken_bytes (h_writer h) = taken_bytes w @ take i (input_bytes rs)"
proof -
  obtain x where x: "taken_bytes (h_writer h) = taken_bytes w @ x" "prefix x (input_bytes rs)"
    using assms by (auto simp: half_wrote_def prefix_def)
  then show ?thesis by (metis append_eq_conv_conj prefix_def)
qed

subsection \<open>More arrives\<close>

definition feed :: "side \<Rightarrow> read_result \<Rightarrow> tunnel \<Rightarrow> tunnel" where
  "feed d x t =
     (case d of
        Outward \<Rightarrow> t\<lparr>outward := (outward t)\<lparr>h_queue := h_queue (outward t) @ [x]\<rparr>\<rparr>
      | Inward \<Rightarrow> t\<lparr>inward := (inward t)\<lparr>h_queue := h_queue (inward t) @ [x]\<rparr>\<rparr>)"

lemma copy_turn_more:
  assumes "q \<noteq> []"
  shows "copy_turn (q @ [x]) w tot =
    (case copy_turn q w tot of Blocked \<Rightarrow> Blocked | Again rs w' tot' \<Rightarrow> Again (rs @ [x]) w' tot' | Ended oc w' \<Rightarrow> Ended oc w')"
proof (cases q)
  case (Cons r q')
  show ?thesis
  proof (cases r)
    case (Chunk bs)
    obtain ok w1 where "write_all w (take (min COPY_BUF (length bs)) bs) = (ok, w1)" by fastforce
    then show ?thesis using Cons Chunk by (cases ok) (simp_all add: copy_turn_def Let_def)
  qed (simp add: Cons copy_turn_def)
qed (use assms in simp)

lemma half_turn_more:
  "half_turn h = Again rs w tot \<Longrightarrow> half_turn (h\<lparr>h_queue := h_queue h @ [x]\<rparr>) = Again (rs @ [x]) w tot"
  "half_turn h = Ended oc w \<Longrightarrow> half_turn (h\<lparr>h_queue := h_queue h @ [x]\<rparr>) = Ended oc w"
  using copy_turn_more [of "h_queue h" x "h_writer h" "h_total h"] copy_turn_Blocked [of "h_queue h" "h_writer h" "h_total h"] by auto

lemma queue_first: "h\<lparr>h_writer := w, h_queue := q\<rparr> = h\<lparr>h_queue := q, h_writer := w\<rparr>" for h :: half
  by simp

lemma feed_step:
  assumes "tunnel_step k t t'"
  shows "tunnel_step k (feed d x t) (feed d x t')"
  using assms
proof cases
  case (out_again rs w tot)
  then show ?thesis
    using tunnel_step.out_again [of "feed d x t" "rs @ [x]" w tot k] tunnel_step.out_again [of "feed d x t" rs w tot k] half_turn_more(1)
    by (cases d; cases t) (simp_all add: feed_def queue_first)
next
  case (out_ends oc w)
  then show ?thesis
    using tunnel_step.out_ends [of "feed d x t" oc w k] half_turn_more(2) by (cases d; cases t) (simp_all add: feed_def queue_first)
next
  case (in_again rs w tot)
  then show ?thesis
    using tunnel_step.in_again [of "feed d x t" "rs @ [x]" w tot k] tunnel_step.in_again [of "feed d x t" rs w tot k] half_turn_more(1)
    by (cases d; cases t) (simp_all add: feed_def queue_first)
next
  case (in_ends oc w)
  then show ?thesis
    using tunnel_step.in_ends [of "feed d x t" oc w k] half_turn_more(2) by (cases d; cases t) (simp_all add: feed_def queue_first)
qed

lemma feed_steps: "(tunnel_step k)\<^sup>*\<^sup>* t t' \<Longrightarrow> (tunnel_step k)\<^sup>*\<^sup>* (feed d x t) (feed d x t')"
  by (induction rule: rtranclp_induct) (auto intro: rtranclp.rtrancl_into_rtrancl feed_step)

text \<open>A tunnel that waits has written all that has arrived.\<close>

lemma waiting_wrote_all:
  assumes "(tunnel_step k)\<^sup>*\<^sup>* (tunnel_start (half_start a wa) (half_start b wb)) t"
    and "ended t = None" "h_queue (outward t) = []" "h_queue (inward t) = []"
  shows "taken_bytes (h_writer (outward t)) = taken_bytes wa @ input_bytes a \<and>
    taken_bytes (h_writer (inward t)) = taken_bytes wb @ input_bytes b"
  using tunnel_inv_reached [OF assms(1)] assms(2-4) by (simp add: tunnel_inv_def half_copies_def)

subsection \<open>A tunnel ends\<close>

definition half_left :: "half \<Rightarrow> nat" where
  "half_left h = sum_list (map chunk_size (h_queue h))"

definition tunnel_left :: "tunnel \<Rightarrow> nat" where
  "tunnel_left t = half_left (outward t) + half_left (inward t) + (if ended t = None then 1 else 0)"

lemma half_left_again:
  assumes "half_turn h = Again q' w' tot'"
  shows "half_left \<lparr>h_queue = q', h_writer = w', h_total = tot'\<rparr> < half_left h"
proof -
  obtain bs r where "h_queue h = Chunk bs # r" "bs \<noteq> []" "q' = (if COPY_BUF < length bs then Chunk (drop COPY_BUF bs) # r else r)"
    using turn_again_cases [OF assms] by blast
  then show ?thesis by (simp add: half_left_def COPY_BUF_def)
qed

lemma tunnel_left_step: "tunnel_step k t t' \<Longrightarrow> tunnel_left t' < tunnel_left t"
  by (cases rule: tunnel_step.cases) (auto simp: tunnel_left_def dest: half_left_again simp: half_left_def)

lemma tunnel_no_step:
  assumes "\<nexists>t'. tunnel_step k t t'" "ended t = None"
  shows "h_queue (outward t) = [] \<and> h_queue (inward t) = []"
proof -
  have "half_turn h = Blocked" if h: "h = outward t \<or> h = inward t" for h
  proof (cases "half_turn h")
    case (Again rs w tot)
    then show ?thesis using h assms tunnel_step.out_again [of t rs w tot k] tunnel_step.in_again [of t rs w tot k] by auto
  next
    case (Ended oc w)
    then show ?thesis using h assms tunnel_step.out_ends [of t oc w k] tunnel_step.in_ends [of t oc w k] by auto
  qed
  then show ?thesis unfolding copy_turn_Blocked by blast
qed

subsection \<open>Properties\<close>

text \<open>A tunnel forwards both ways at once without losing, inventing or reordering a byte. In every
  interleaving of the two directions, what each has written is what it started with and a prefix of
  its input, and as long as the tunnel runs neither end has been told that it is over; the tunnel is
  ended by one direction, and where that direction ended well, it has written its whole input.\<close>

theorem tunnel_forwards:
  assumes "(tunnel_step k)\<^sup>*\<^sup>* (tunnel_start (half_start a wa) (half_start b wb)) t"
  shows "(\<exists>i. taken_bytes (h_writer (outward t)) = taken_bytes wa @ take i (input_bytes a)) \<and>
    (\<exists>j. taken_bytes (h_writer (inward t)) = taken_bytes wb @ take j (input_bytes b)) \<and>
    (ended t = None \<longrightarrow> \<not> quic_finished t \<and> \<not> client_shut t) \<and>
    (\<forall>n. ended t = Some (Outward, Copied n) \<longrightarrow> input_ends a \<and> n = of_nat (length (input_bytes a)) \<and>
       taken_bytes (h_writer (outward t)) = taken_bytes wa @ input_bytes a \<and> quic_finished t) \<and>
    (\<forall>n. ended t = Some (Inward, Copied n) \<longrightarrow> input_ends b \<and> n = of_nat (length (input_bytes b)) \<and>
       taken_bytes (h_writer (inward t)) = taken_bytes wb @ input_bytes b \<and> (client_shut t \<longleftrightarrow> k = Bridge))"
proof -
  have inv: "tunnel_inv k a wa b wb t" by (rule tunnel_inv_reached [OF assms])
  have "half_wrote a wa (outward t)" "half_wrote b wb (inward t)" using tunnel_inv_wrote [OF inv] by blast+
  then have "(\<exists>i. taken_bytes (h_writer (outward t)) = taken_bytes wa @ take i (input_bytes a)) \<and>
    (\<exists>j. taken_bytes (h_writer (inward t)) = taken_bytes wb @ take j (input_bytes b))"
    by (simp add: half_wrote_takes)
  moreover have "ended t = None \<longrightarrow> \<not> quic_finished t \<and> \<not> client_shut t" using inv by (auto simp: tunnel_inv_def)
  ultimately show ?thesis using inv by (auto simp: tunnel_inv_def half_ended_def)
qed

theorem tunnel_forwards_witness:
  "\<exists>t. (tunnel_step Bridge)\<^sup>*\<^sup>* (tunnel_start (half_start [Chunk [1, 2], Chunk []] \<lparr>taken_bytes = [0, 80], fails_after = None\<rparr>)
       (half_start [Chunk [7]] \<lparr>taken_bytes = [], fails_after = None\<rparr>)) t \<and>
     ended t = Some (Outward, Copied 2) \<and> taken_bytes (h_writer (outward t)) = [0, 80, 1, 2] \<and> quic_finished t"
proof -
  let ?a = "[Chunk [1, 2], Chunk []]" and ?wa = "\<lparr>taken_bytes = [0, 80], fails_after = None\<rparr>"
  let ?b = "[Chunk [7]]" and ?wb = "\<lparr>taken_bytes = [], fails_after = None\<rparr>"
  let ?t0 = "tunnel_start (half_start ?a ?wa) (half_start ?b ?wb)"
  let ?t1 = "?t0\<lparr>outward := \<lparr>h_queue = [Chunk []], h_writer = \<lparr>taken_bytes = [0, 80, 1, 2], fails_after = None\<rparr>, h_total = 2\<rparr>\<rparr>"
  let ?t2 = "?t1\<lparr>outward := (outward ?t1)\<lparr>h_writer := h_writer (outward ?t1)\<rparr>, quic_finished := True, ended := Some (Outward, Copied 2)\<rparr>"
  have "tunnel_step Bridge ?t0 ?t1"
    by (rule tunnel_step.out_again) (simp_all add: tunnel_start_def half_start_def copy_turn_def COPY_BUF_def write_all_def)
  moreover have "tunnel_step Bridge ?t1 ?t2"
    by (rule tunnel_step.out_ends) (simp_all add: tunnel_start_def copy_turn_def)
  ultimately have r: "(tunnel_step Bridge)\<^sup>*\<^sup>* ?t0 ?t2" by (meson r_into_rtranclp rtranclp_trans)
  show ?thesis using tunnel_forwards [OF r] r by (intro exI [of _ ?t2]) simp
qed

text \<open>A tunnel ends. It never runs forever, and where either input ends it cannot stop short of
  ending: in whatever order the two directions take their turns, both are left waiting only if
  neither input has come to its end.\<close>

theorem tunnel_ends:
  "\<not> (\<forall>i. tunnel_step k (f i) (f (Suc i))) \<and>
   ((tunnel_step k)\<^sup>*\<^sup>* (tunnel_start (half_start a wa) (half_start b wb)) t \<longrightarrow> input_ends a \<or> input_ends b \<longrightarrow>
      (\<nexists>t'. tunnel_step k t t') \<longrightarrow> ended t \<noteq> None)"
proof (intro conjI impI notI)
  assume "\<forall>i. tunnel_step k (f i) (f (Suc i))"
  then have "\<forall>i. (f (Suc i), f i) \<in> measure tunnel_left" using tunnel_left_step by auto
  then show False using wf_measure [of tunnel_left] unfolding wf_iff_no_infinite_down_chain by blast
next
  assume r: "(tunnel_step k)\<^sup>*\<^sup>* (tunnel_start (half_start a wa) (half_start b wb)) t"
    and e: "input_ends a \<or> input_ends b" and n: "\<nexists>t'. tunnel_step k t t'" and no: "ended t = None"
  have "half_copies a wa (outward t)" "half_copies b wb (inward t)"
    using tunnel_inv_reached [OF r] no by (simp_all add: tunnel_inv_def)
  then show False using tunnel_no_step [OF n no] e by (auto simp: half_copies_def)
qed

theorem tunnel_ends_witness:
  "let w = \<lparr>taken_bytes = [], fails_after = None\<rparr>; t0 = tunnel_start (half_start [Chunk []] w) (half_start [] w)
   in (\<exists>t'. tunnel_step Bidirectional t0 t')"
proof -
  let ?w = "\<lparr>taken_bytes = [], fails_after = None\<rparr>"
  show ?thesis
    using tunnel_ends [of Bidirectional "\<lambda>_. undefined" "[Chunk []]" ?w "[]" ?w "tunnel_start (half_start [Chunk []] ?w) (half_start [] ?w)"]
    by (auto simp: Let_def) (simp add: tunnel_start_def)
qed

end
