(* ===== verification/Serve.thy ===== *)
theory Serve
  imports Forward Requests
begin

text \<open>
  A bound port at work: the accept loops that take its clients (\<open>serve_listener\<close> in \<open>src/tunnel.rs\<close>,
  \<open>listen\<close> in \<open>src/netstack.rs\<close> with \<open>run_netstack_accepts\<close> in \<open>src/peer.rs\<close> on the TUN backend) and
  the task of each client, which opens a tunnel and forwards into it. The tasks run in any order,
  beside the loop and after it.
\<close>

subsection \<open>One client\<close>

text \<open>What a client and the peer have sent so far, what the client takes, and when the stream to the peer breaks.\<close>

record client =
  cl_sends :: "read_result list"
  cl_takes :: writer
  cl_peer_sends :: "read_result list"
  cl_stream_fails :: "nat option"

text \<open>\<open>Queued\<close>: accepted by the TUN stack and not yet routed to the peer that has the address.\<close>

datatype client_task = Queued | Unowned | Opening nat | NotOpened error | Carrying nat tunnel

definition carry_start :: "bytes \<Rightarrow> client \<Rightarrow> tunnel" where
  "carry_start pre c =
     tunnel_start (half_start (cl_sends c) \<lparr>taken_bytes = pre, fails_after = cl_stream_fails c\<rparr>)
       (half_start (cl_peer_sends c) (cl_takes c))"

text \<open>The manager is in whatever state \<open>m\<close> it is in when the client is routed and when its tunnel is
  opened.\<close>

inductive client_step :: "splice \<Rightarrow> ipv4 \<Rightarrow> u16 \<Rightarrow> client \<Rightarrow> client_task \<Rightarrow> client_task \<Rightarrow> bool" for k ip port c where
  routed: "pm_netstack m \<noteq> None \<Longrightarrow> peer_for_ip m (V4 ip) = Some a \<Longrightarrow> client_step k ip port c Queued (Opening a)"
| unowned: "pm_netstack m \<noteq> None \<Longrightarrow> peer_for_ip m (V4 ip) = None \<Longrightarrow> client_step k ip port c Queued Unowned"
| opened: "open_tunnel m a port = Inr pre \<Longrightarrow> client_step k ip port c (Opening a) (Carrying a (carry_start pre c))"
| not_opened: "open_tunnel m a port = Inl e \<Longrightarrow> client_step k ip port c (Opening a) (NotOpened e)"
| carries: "tunnel_step k t t' \<Longrightarrow> client_step k ip port c (Carrying a t) (Carrying a t')"

inductive_cases client_stepE: "client_step k ip port c t t'"

text \<open>One more read result for the copy that reads from the client, or from the peer. Both may send as long as they like.\<close>

fun send_more :: "side \<Rightarrow> read_result \<Rightarrow> client \<Rightarrow> client" where
  "send_more Outward x c = c\<lparr>cl_sends := cl_sends c @ [x]\<rparr>"
| "send_more Inward x c = c\<lparr>cl_peer_sends := cl_peer_sends c @ [x]\<rparr>"

fun feed_task :: "side \<Rightarrow> read_result \<Rightarrow> client_task \<Rightarrow> client_task" where
  "feed_task d x (Carrying a t) = Carrying a (feed d x t)"
| "feed_task d x t = t"

subsection \<open>The accept loop\<close>

record server =
  sv_listening :: bool
  sv_clients :: "(client \<times> client_task) list"

fun first_task :: "splice \<Rightarrow> nat \<Rightarrow> client_task" where
  "first_task Bidirectional a = Opening a"
| "first_task Bridge a = Queued"

definition serve_listener :: server where
  "serve_listener = \<lparr>sv_listening = True, sv_clients = []\<rparr>"

text \<open>\<open>stops\<close>: the accept failed and the loop returned, or the binding was released and its task aborted.\<close>

inductive serve_step :: "splice \<Rightarrow> nat \<Rightarrow> ipv4 \<Rightarrow> u16 \<Rightarrow> server \<Rightarrow> server \<Rightarrow> bool" for k a ip port where
  accepts: "sv_listening s \<Longrightarrow> serve_step k a ip port s (s\<lparr>sv_clients := sv_clients s @ [(c, first_task k a)]\<rparr>)"
| stops: "sv_listening s \<Longrightarrow> serve_step k a ip port s (s\<lparr>sv_listening := False\<rparr>)"
| runs: "i < length (sv_clients s) \<Longrightarrow> sv_clients s ! i = (c, t) \<Longrightarrow> client_step k ip port c t t' \<Longrightarrow>
    serve_step k a ip port s (s\<lparr>sv_clients := (sv_clients s)[i := (c, t')]\<rparr>)"
| arrives: "i < length (sv_clients s) \<Longrightarrow> sv_clients s ! i = (c, t) \<Longrightarrow>
    serve_step k a ip port s (s\<lparr>sv_clients := (sv_clients s)[i := (send_more d x c, feed_task d x t)]\<rparr>)"

inductive_cases serve_stepE: "serve_step k a ip port s s'"

subsection \<open>What a client's tunnel carries\<close>

fun task_ok :: "splice \<Rightarrow> nat \<Rightarrow> u16 \<Rightarrow> client \<Rightarrow> client_task \<Rightarrow> bool" where
  "task_ok k a port c Queued = (k = Bridge)"
| "task_ok k a port c Unowned = (k = Bridge)"
| "task_ok k a port c (Opening b) = (k = Bidirectional \<longrightarrow> b = a)"
| "task_ok k a port c (NotOpened e) = True"
| "task_ok k a port c (Carrying b t) =
     ((k = Bidirectional \<longrightarrow> b = a) \<and> (tunnel_step k)\<^sup>*\<^sup>* (carry_start (tunnel_preamble port) c) t)"

lemma task_ok_step: "client_step k ip port c t t' \<Longrightarrow> task_ok k a port c t \<Longrightarrow> task_ok k a port c t'"
  by (cases rule: client_step.cases)
    (auto simp: open_tunnel_def split: option.splits if_splits intro: rtranclp.rtrancl_into_rtrancl)

lemma carry_start_more: "carry_start pre (send_more d x c) = feed d x (carry_start pre c)"
  by (cases d) (simp_all add: carry_start_def feed_def tunnel_start_def half_start_def)

lemma task_ok_more: "task_ok k a port c t \<Longrightarrow> task_ok k a port (send_more d x c) (feed_task d x t)"
  by (cases t) (simp_all add: carry_start_more feed_steps)

lemma serve_ok_step:
  assumes "serve_step k a ip port s s'" "\<forall>(c, t) \<in> set (sv_clients s). task_ok k a port c t"
  shows "\<forall>(c, t) \<in> set (sv_clients s'). task_ok k a port c t"
  using assms(1)
proof cases
  case (accepts c)
  then show ?thesis using assms(2) by (cases k) auto
next
  case (runs i c t t')
  have "task_ok k a port c t" using assms(2) runs(2,3) nth_mem by fastforce
  then have "task_ok k a port c t'" by (rule task_ok_step [OF runs(4)])
  then show ?thesis using assms(2) runs(1) set_update_subset_insert by fastforce
next
  case (arrives i c t d x)
  have "task_ok k a port c t" using assms(2) arrives(2,3) nth_mem by fastforce
  then have "task_ok k a port (send_more d x c) (feed_task d x t)" by (rule task_ok_more)
  then show ?thesis using assms(2) arrives(1) set_update_subset_insert by fastforce
qed (use assms(2) in auto)

lemma serve_ok:
  assumes "(serve_step k a ip port)\<^sup>*\<^sup>* serve_listener s"
  shows "\<forall>(c, t) \<in> set (sv_clients s). task_ok k a port c t"
  using assms by (induction rule: rtranclp_induct) (auto simp: serve_listener_def dest: serve_ok_step)

subsection \<open>A released port drains\<close>

fun task_left :: "client \<Rightarrow> client_task \<Rightarrow> nat" where
  "task_left c Queued = tunnel_left (carry_start [] c) + 2"
| "task_left c (Opening a) = tunnel_left (carry_start [] c) + 1"
| "task_left c (Carrying a t) = tunnel_left t"
| "task_left c _ = 0"

definition server_left :: "server \<Rightarrow> nat" where
  "server_left s = sum_list (map (\<lambda>(c, t). task_left c t) (sv_clients s))"

lemma carry_start_left: "tunnel_left (carry_start pre c) =
    sum_list (map chunk_size (cl_sends c)) + sum_list (map chunk_size (cl_peer_sends c)) + 1"
  by (simp add: tunnel_left_def carry_start_def tunnel_start_def half_left_def half_start_def)

lemma task_left_step:
  assumes "client_step k ip port c t t'"
  shows "task_left c t' < task_left c t"
  using assms by cases (simp_all add: carry_start_left tunnel_left_step)

text \<open>What has been sent to a client's two copies so far.\<close>

definition sent_to :: "client \<Rightarrow> nat" where
  "sent_to c = sum_list (map chunk_size (cl_sends c)) + sum_list (map chunk_size (cl_peer_sends c))"

definition server_sent :: "server \<Rightarrow> nat" where
  "server_sent s = sum_list (map (\<lambda>(c, t). sent_to c) (sv_clients s))"

lemma sent_more: "sent_to (send_more d x c) = sent_to c + chunk_size x"
  by (cases d) (simp_all add: sent_to_def)

lemma tunnel_left_feed: "tunnel_left (feed d x t) = tunnel_left t + chunk_size x"
  by (cases d) (simp_all add: tunnel_left_def feed_def half_left_def)

lemma left_more: "task_left (send_more d x c) (feed_task d x t) \<le> task_left c t + chunk_size x"
  by (cases t) (simp_all add: carry_start_more tunnel_left_feed)

lemma chunk_size_pos: "0 < chunk_size x"
  by (cases x) simp_all

lemma sum_list_replace:
  fixes xs :: "nat list"
  shows "i < length xs \<Longrightarrow> sum_list (xs[i := y]) + xs ! i = sum_list xs + y"
  using sum_list_update [of i xs y] elem_le_sum_list [of i xs] by simp

text \<open>The potential: every step of a task takes from what is left, and what arrives adds no more than its size.\<close>

lemma server_left_step:
  assumes "serve_step k a ip port s s'" "\<not> sv_listening s"
  shows "\<not> sv_listening s' \<and> length (sv_clients s') = length (sv_clients s) \<and>
    Suc (server_left s') + 2 * server_sent s \<le> server_left s + 2 * server_sent s'"
  using assms(1)
proof cases
  case (runs i c t t')
  have "server_left s' + task_left c t = server_left s + task_left c t'" "server_sent s' + sent_to c = server_sent s + sent_to c"
    using sum_list_replace [of i "map (\<lambda>(c, t). task_left c t) (sv_clients s)" "task_left c t'"]
      sum_list_replace [of i "map (\<lambda>(c, t). sent_to c) (sv_clients s)" "sent_to c"] runs(1-3)
    by (simp_all add: server_left_def server_sent_def map_update)
  then show ?thesis using task_left_step [OF runs(4)] runs(1) assms(2) by simp
next
  case (arrives i c t d x)
  let ?t = "task_left (send_more d x c) (feed_task d x t)"
  have "server_left s' + task_left c t = server_left s + ?t" "server_sent s' + sent_to c = server_sent s + sent_to (send_more d x c)"
    using sum_list_replace [of i "map (\<lambda>(c, t). task_left c t) (sv_clients s)" ?t]
      sum_list_replace [of i "map (\<lambda>(c, t). sent_to c) (sv_clients s)" "sent_to (send_more d x c)"] arrives(1-3)
    by (simp_all add: server_left_def server_sent_def map_update)
  then show ?thesis using left_more [of d x c t] sent_more [of d x c] chunk_size_pos [of x] arrives(1) assms(2) by simp
qed (use assms(2) in simp_all)

lemma server_left_steps:
  assumes "(serve_step k a ip port ^^ n) s s'" "\<not> sv_listening s"
  shows "\<not> sv_listening s' \<and> length (sv_clients s') = length (sv_clients s) \<and>
    n + server_left s' + 2 * server_sent s \<le> server_left s + 2 * server_sent s'"
  using assms(1)
proof (induction n arbitrary: s')
  case (Suc n)
  then obtain s1 where "(serve_step k a ip port ^^ n) s s1" "serve_step k a ip port s1 s'" by auto
  then show ?case using Suc.IH [of s1] server_left_step [of k a ip port s1 s'] by linarith
qed (use assms(2) in simp)

text \<open>A client that nothing more happens to: refused, or its tunnel ended or has nothing left to read.\<close>

fun settled :: "client_task \<Rightarrow> bool" where
  "settled Unowned = True"
| "settled (NotOpened e) = True"
| "settled (Carrying a t) = (ended t \<noteq> None \<or> (h_queue (outward t) = [] \<and> h_queue (inward t) = []))"
| "settled _ = False"

lemma client_goes_on:
  assumes "\<not> settled t"
  shows "\<exists>t'. client_step k ip port c t t'"
proof (cases t)
  case Queued
  let ?m = "pm_new me h s f f' (Some netstack_new) None"
  have "client_step k ip port c Queued Unowned"
    by (rule unowned [of ?m]) (simp_all add: pm_new_def peer_for_ip_def)
  then show ?thesis using Queued by blast
next
  case (Opening a)
  then show ?thesis
    using opened [of _ a port _ k ip c] not_opened [of _ a port _ k ip c] by (cases "open_tunnel undefined a port") blast+
next
  case (Carrying a t')
  then have "\<exists>t''. tunnel_step k t' t''" using assms tunnel_no_step [of k t'] by (cases "ended t'") auto
  then show ?thesis using Carrying carries by blast
qed (use assms in simp_all)

subsection \<open>Properties\<close>

text \<open>C8: the clients of a bound port never mix. However many there are and in whatever order their tasks
  run, what has been written to the stream of one is the number of the port followed by a prefix of
  what that client sent, what it got back is a prefix of what the peer sent on that stream, where the client's side ended
  well all it sent has been written, and on the loopback backend the stream leads to the peer the port is bound for.\<close>

theorem clients_do_not_mix:
  assumes "(serve_step k a ip port)\<^sup>*\<^sup>* serve_listener s" "(c, Carrying b t) \<in> set (sv_clients s)"
  shows "(\<exists>i. taken_bytes (h_writer (outward t)) = tunnel_preamble port @ take i (input_bytes (cl_sends c))) \<and>
    (\<exists>j. taken_bytes (h_writer (inward t)) = taken_bytes (cl_takes c) @ take j (input_bytes (cl_peer_sends c))) \<and>
    (\<forall>n. ended t = Some (Outward, Copied n) \<longrightarrow>
       taken_bytes (h_writer (outward t)) = tunnel_preamble port @ input_bytes (cl_sends c) \<and> quic_finished t) \<and>
    (k = Bidirectional \<longrightarrow> b = a)"
proof -
  have "task_ok k a port c (Carrying b t)" using serve_ok [OF assms(1)] assms(2) by blast
  then have t: "k = Bidirectional \<longrightarrow> b = a" "(tunnel_step k)\<^sup>*\<^sup>* (carry_start (tunnel_preamble port) c) t" by simp_all
  show ?thesis using tunnel_forwards [OF t(2) [unfolded carry_start_def]] t(1) by simp
qed

theorem clients_do_not_mix_witness:
  "let w = \<lparr>taken_bytes = [], fails_after = None\<rparr>;
       c = \<lparr>cl_sends = [Chunk [1, 2]], cl_takes = w, cl_peer_sends = [], cl_stream_fails = None\<rparr>;
       d = \<lparr>cl_sends = [Chunk [3]], cl_takes = w, cl_peer_sends = [], cl_stream_fails = None\<rparr>
   in \<exists>s. (serve_step Bidirectional 0 (Ipv4 127 0 1 2) 80)\<^sup>*\<^sup>* serve_listener s \<and>
        sv_clients s = [(c, Carrying 0 (carry_start (tunnel_preamble 80) c)), (d, Opening 0)] \<and>
        (\<exists>i. taken_bytes (h_writer (outward (carry_start (tunnel_preamble 80) c))) = tunnel_preamble 80 @ take i [1, 2])"
proof -
  let ?w = "\<lparr>taken_bytes = [], fails_after = None\<rparr>"
  let ?c = "\<lparr>cl_sends = [Chunk [1, 2]], cl_takes = ?w, cl_peer_sends = [], cl_stream_fails = None\<rparr>"
  let ?d = "\<lparr>cl_sends = [Chunk [3]], cl_takes = ?w, cl_peer_sends = [], cl_stream_fails = None\<rparr>"
  let ?t = "carry_start (tunnel_preamble 80) ?c"
  let ?s = "\<lambda>cs. \<lparr>sv_listening = True, sv_clients = cs\<rparr>" and ?step = "serve_step Bidirectional 0 (Ipv4 127 0 1 2) 80"
  have 1: "?step serve_listener (?s [(?c, Opening 0)])"
    using accepts [of serve_listener Bidirectional 0 "Ipv4 127 0 1 2" 80 ?c] by (simp add: serve_listener_def)
  have 2: "?step (?s [(?c, Opening 0)]) (?s [(?c, Opening 0), (?d, Opening 0)])"
    using accepts [of "?s [(?c, Opening 0)]" Bidirectional 0 "Ipv4 127 0 1 2" 80 ?d] by simp
  let ?m = "plain_pm\<lparr>heap := [peer_new (EndpointId [7]) None True None (Some 0)],
    conns := [\<lparr>c_remote = EndpointId [7], c_close_reason = None, c_opens_streams = True, c_sent = []\<rparr>]\<rparr>"
  have "open_tunnel ?m 0 80 = Inr (tunnel_preamble 80)" by (simp add: open_tunnel_def peer_new_def)
  then have "client_step Bidirectional (Ipv4 127 0 1 2) 80 ?c (Opening 0) (Carrying 0 ?t)" by (rule opened)
  then have "?step (?s [(?c, Opening 0), (?d, Opening 0)]) (?s [(?c, Carrying 0 ?t), (?d, Opening 0)])"
    using runs [of 0 "?s [(?c, Opening 0), (?d, Opening 0)]" ?c "Opening 0" Bidirectional "Ipv4 127 0 1 2" 80 "Carrying 0 ?t" 0] by simp
  then have r: "?step\<^sup>*\<^sup>* serve_listener (?s [(?c, Carrying 0 ?t), (?d, Opening 0)])"
    using 1 2 by (meson converse_rtranclp_into_rtranclp rtranclp.rtrancl_refl)
  then have "\<exists>i. taken_bytes (h_writer (outward ?t)) = tunnel_preamble 80 @ take i [1, 2]"
    using clients_do_not_mix [OF r, of ?c 0 ?t] by simp
  then show ?thesis using r unfolding Let_def by (intro exI [of _ "?s [(?c, Carrying 0 ?t), (?d, Opening 0)]"]) simp
qed

text \<open>C27: a released port drains, and cuts nothing off. Once a port is released, or its loop has failed, the clients it
  has accepted are carried on, for as long as they and the peer send: any \<open>n\<close> steps from there are paid for by what was
  left to do at the release and by what arrived since, at most twice its size, so nothing is taken up or repeated without end. And wherever no
  task can move, every client was turned away, or one end has closed its tunnel, or all that it and the peer have sent has
  been written to the other end.\<close>

theorem released_port_drains:
  assumes "(serve_step k a ip port)\<^sup>*\<^sup>* serve_listener s" "\<not> sv_listening s" "(serve_step k a ip port ^^ n) s s'"
  shows "n + server_left s' \<le> server_left s + 2 * (server_sent s' - server_sent s) \<and>
    length (sv_clients s') = length (sv_clients s) \<and>
    ((\<forall>(c, t) \<in> set (sv_clients s'). \<nexists>t'. client_step k ip port c t t') \<longrightarrow>
       (\<forall>(c, t) \<in> set (sv_clients s'). t = Unowned \<or> (\<exists>e. t = NotOpened e) \<or>
          (\<exists>b u. t = Carrying b u \<and>
             (ended u \<noteq> None \<or>
              taken_bytes (h_writer (outward u)) = tunnel_preamble port @ input_bytes (cl_sends c) \<and>
              taken_bytes (h_writer (inward u)) = taken_bytes (cl_takes c) @ input_bytes (cl_peer_sends c)))))"
proof (intro conjI impI)
  note left = server_left_steps [OF assms(3,2)]
  then show "n + server_left s' \<le> server_left s + 2 * (server_sent s' - server_sent s)" "length (sv_clients s') = length (sv_clients s)"
    by auto
  assume stuck: "\<forall>(c, t) \<in> set (sv_clients s'). \<nexists>t'. client_step k ip port c t t'"
  have "(serve_step k a ip port)\<^sup>*\<^sup>* serve_listener s'"
    using assms(1) relpowp_imp_rtranclp [OF assms(3)] by (rule rtranclp_trans)
  then have ok: "\<forall>(c, t) \<in> set (sv_clients s'). task_ok k a port c t" by (rule serve_ok)
  show "\<forall>(c, t) \<in> set (sv_clients s'). t = Unowned \<or> (\<exists>e. t = NotOpened e) \<or> (\<exists>b u. t = Carrying b u \<and> (ended u \<noteq> None \<or>
      taken_bytes (h_writer (outward u)) = tunnel_preamble port @ input_bytes (cl_sends c) \<and>
      taken_bytes (h_writer (inward u)) = taken_bytes (cl_takes c) @ input_bytes (cl_peer_sends c)))"
  proof
    fix x
    assume m: "x \<in> set (sv_clients s')"
    obtain c t where x: "x = (c, t)" by fastforce
    have t: "settled t" "task_ok k a port c t" using stuck ok m x client_goes_on by blast+
    have "ended u \<noteq> None \<or> taken_bytes (h_writer (outward u)) = tunnel_preamble port @ input_bytes (cl_sends c) \<and>
        taken_bytes (h_writer (inward u)) = taken_bytes (cl_takes c) @ input_bytes (cl_peer_sends c)" if "t = Carrying b u" for b u
      using t that waiting_wrote_all [of k "cl_sends c" "\<lparr>taken_bytes = tunnel_preamble port, fails_after = cl_stream_fails c\<rparr>"
          "cl_peer_sends c" "cl_takes c" u] by (cases "ended u") (simp_all add: carry_start_def)
    then show "case x of (c, t) \<Rightarrow> t = Unowned \<or> (\<exists>e. t = NotOpened e) \<or> (\<exists>b u. t = Carrying b u \<and> (ended u \<noteq> None \<or>
        taken_bytes (h_writer (outward u)) = tunnel_preamble port @ input_bytes (cl_sends c) \<and>
        taken_bytes (h_writer (inward u)) = taken_bytes (cl_takes c) @ input_bytes (cl_peer_sends c)))"
      using t(1) x by (cases t) simp_all
  qed
qed

text \<open>A client whose tunnel was open at the release, and who sends after it.\<close>

definition late_client :: "read_result list \<Rightarrow> client" where
  "late_client rs = \<lparr>cl_sends = rs, cl_takes = \<lparr>taken_bytes = [], fails_after = None\<rparr>, cl_peer_sends = [], cl_stream_fails = None\<rparr>"

definition late_tunnel :: "read_result list \<Rightarrow> bytes \<Rightarrow> u64 \<Rightarrow> tunnel" where
  "late_tunnel rs bs n = tunnel_start \<lparr>h_queue = rs, h_writer = \<lparr>taken_bytes = tunnel_preamble 80 @ bs, fails_after = None\<rparr>, h_total = n\<rparr>
     (half_start [] \<lparr>taken_bytes = [], fails_after = None\<rparr>)"

abbreviation late_server :: "bool \<Rightarrow> client \<Rightarrow> client_task \<Rightarrow> server" where
  "late_server l c t \<equiv> \<lparr>sv_listening = l, sv_clients = [(c, t)]\<rparr>"

lemma late_run:
  "(serve_step Bidirectional 0 (Ipv4 127 0 1 2) 80)\<^sup>*\<^sup>* serve_listener (late_server False (late_client []) (Carrying 0 (late_tunnel [] [] 0)))"
  "(serve_step Bidirectional 0 (Ipv4 127 0 1 2) 80 ^^ 2) (late_server False (late_client []) (Carrying 0 (late_tunnel [] [] 0)))
     (late_server False (late_client [Chunk [1, 2]]) (Carrying 0 (late_tunnel [] [1, 2] 2)))"
proof -
  let ?step = "serve_step Bidirectional 0 (Ipv4 127 0 1 2) 80" and ?c = "late_client []" and ?d = "late_client [Chunk [1, 2]]"
  let ?m = "plain_pm\<lparr>heap := [peer_new (EndpointId [7]) None True None (Some 0)],
    conns := [\<lparr>c_remote = EndpointId [7], c_close_reason = None, c_opens_streams = True, c_sent = []\<rparr>]\<rparr>"
  have "open_tunnel ?m 0 80 = Inr (tunnel_preamble 80)" by (simp add: open_tunnel_def peer_new_def)
  then have o: "client_step Bidirectional (Ipv4 127 0 1 2) 80 ?c (Opening 0) (Carrying 0 (late_tunnel [] [] 0))"
    using opened [of ?m 0 80 _ Bidirectional "Ipv4 127 0 1 2" ?c]
    by (simp add: late_tunnel_def carry_start_def half_start_def late_client_def)
  have "tunnel_step Bidirectional (late_tunnel [Chunk [1, 2]] [] 0) (late_tunnel [] [1, 2] 2)"
    using tunnel_step.out_again [of "late_tunnel [Chunk [1, 2]] [] 0" "[]" "\<lparr>taken_bytes = tunnel_preamble 80 @ [1, 2], fails_after = None\<rparr>" 2 Bidirectional]
    by (simp add: late_tunnel_def tunnel_start_def copy_turn_def COPY_BUF_def write_all_def)
  then have t: "client_step Bidirectional (Ipv4 127 0 1 2) 80 ?d (Carrying 0 (late_tunnel [Chunk [1, 2]] [] 0)) (Carrying 0 (late_tunnel [] [1, 2] 2))"
    by (rule carries)
  have "?step serve_listener (late_server True ?c (Opening 0))"
    using accepts [of serve_listener Bidirectional 0 "Ipv4 127 0 1 2" 80 ?c] by (simp add: serve_listener_def)
  moreover have "?step (late_server True ?c (Opening 0)) (late_server True ?c (Carrying 0 (late_tunnel [] [] 0)))"
    using runs [OF _ _ o, of 0 "late_server True ?c (Opening 0)"] by simp
  moreover have "?step (late_server True ?c (Carrying 0 (late_tunnel [] [] 0))) (late_server False ?c (Carrying 0 (late_tunnel [] [] 0)))"
    using stops [of "late_server True ?c (Carrying 0 (late_tunnel [] [] 0))"] by simp
  ultimately show "?step\<^sup>*\<^sup>* serve_listener (late_server False ?c (Carrying 0 (late_tunnel [] [] 0)))"
    by (meson converse_rtranclp_into_rtranclp rtranclp.rtrancl_refl)
  have "?step (late_server False ?c (Carrying 0 (late_tunnel [] [] 0))) (late_server False ?d (Carrying 0 (late_tunnel [Chunk [1, 2]] [] 0)))"
    using arrives [of 0 "late_server False ?c (Carrying 0 (late_tunnel [] [] 0))" ?c _ Bidirectional 0 "Ipv4 127 0 1 2" 80 Outward "Chunk [1, 2]"]
    by (simp add: late_client_def late_tunnel_def feed_def tunnel_start_def)
  moreover have "?step (late_server False ?d (Carrying 0 (late_tunnel [Chunk [1, 2]] [] 0))) (late_server False ?d (Carrying 0 (late_tunnel [] [1, 2] 2)))"
    using runs [OF _ _ t, of 0 "late_server False ?d (Carrying 0 (late_tunnel [Chunk [1, 2]] [] 0))"] by simp
  ultimately show "(?step ^^ 2) (late_server False ?c (Carrying 0 (late_tunnel [] [] 0))) (late_server False ?d (Carrying 0 (late_tunnel [] [1, 2] 2)))"
    by (auto simp: numeral_2_eq_2)
qed

theorem released_port_drains_witness:
  "\<exists>s s'. (serve_step Bidirectional 0 (Ipv4 127 0 1 2) 80)\<^sup>*\<^sup>* serve_listener s \<and> \<not> sv_listening s \<and>
     (serve_step Bidirectional 0 (Ipv4 127 0 1 2) 80 ^^ 2) s s' \<and>
     sv_clients s' = [(late_client [Chunk [1, 2]], Carrying 0 (late_tunnel [] [1, 2] 2))] \<and>
     2 + server_left s' \<le> server_left s + 2 * (server_sent s' - server_sent s) \<and>
     taken_bytes (h_writer (outward (late_tunnel [] [1, 2] 2))) = tunnel_preamble 80 @ [1, 2]"
proof -
  let ?s = "late_server False (late_client []) (Carrying 0 (late_tunnel [] [] 0))"
  let ?s' = "late_server False (late_client [Chunk [1, 2]]) (Carrying 0 (late_tunnel [] [1, 2] 2))"
  have stuck: "\<nexists>t'. client_step Bidirectional (Ipv4 127 0 1 2) 80 (late_client [Chunk [1, 2]]) (Carrying 0 (late_tunnel [] [1, 2] 2)) t'"
    by (auto elim!: client_stepE tunnel_stepE simp: late_tunnel_def tunnel_start_def half_start_def copy_turn_def)
  have n: "\<not> sv_listening ?s" by simp
  note drains = released_port_drains [OF late_run(1) n late_run(2)]
  have "ended (late_tunnel [] [1, 2] 2) = None" by (simp add: late_tunnel_def tunnel_start_def)
  then have "taken_bytes (h_writer (outward (late_tunnel [] [1, 2] 2))) = tunnel_preamble 80 @ [1, 2]"
    using drains stuck by (simp add: late_client_def)
  then show ?thesis using drains late_run n by (intro exI [of _ ?s] exI [of _ ?s']) simp
qed

end
