(* ===== verification/Launchd_Props.thy ===== *)
theory Launchd_Props
  imports Launchd
begin

text \<open>
  What the service commands guarantee: which state of launchd and which files they leave, that the
  files launchd runs as root are replaced whole or not at all, that the commands succeed when the
  system does, and that waiting for the daemon ends. The witnesses run on \<open>plain_mac_env\<close>, a machine
  with a launchd of two bits.
\<close>

subsection \<open>What launchctl promises\<close>

definition ctl_did :: "(string list \<Rightarrow> 'l \<Rightarrow> ctl_output option \<times> 'l) \<Rightarrow> string list \<Rightarrow> 'l \<Rightarrow> 'l \<Rightarrow> bool" where
  "ctl_did run args l l' \<longleftrightarrow> (\<exists>r. run args l = (Some r, l') \<and> ctl_success r)"

definition launchctl_ok ::
  "(string list \<Rightarrow> 'l \<Rightarrow> ctl_output option \<times> 'l) \<Rightarrow> ('l \<Rightarrow> bool) \<Rightarrow> ('l \<Rightarrow> bool) \<Rightarrow> bool" where
  "launchctl_ok run loaded disabled \<longleftrightarrow>
     (\<forall>l. snd (run [''print'', domain] l) = l \<and> (loaded l \<longleftrightarrow> ctl_did run [''print'', domain] l l)) \<and>
     (\<forall>l l'. ctl_did run [''enable'', domain] l l' \<longrightarrow> \<not> disabled l' \<and> loaded l' = loaded l) \<and>
     (\<forall>l. loaded (snd (run [''enable'', domain] l)) = loaded l) \<and>
     (\<forall>l l'. ctl_did run [''disable'', domain] l l' \<longrightarrow> disabled l' \<and> loaded l' = loaded l) \<and>
     (\<forall>l l'. ctl_did run [''bootout'', domain] l l' \<longrightarrow> \<not> loaded l' \<and> disabled l' = disabled l) \<and>
     (\<forall>l l'. ctl_did run [''bootstrap'', ''system'', PLIST] l l' \<longrightarrow> loaded l' \<and> disabled l' = disabled l) \<and>
     (\<forall>l l'. ctl_did run [''kickstart'', ''-k'', domain] l l' \<longrightarrow> loaded l' = loaded l \<and> disabled l' = disabled l)"

lemma launchctl_okD:
  assumes "launchctl_ok run loaded disabled"
  shows "snd (run [''print'', domain] l) = l" "loaded l \<longleftrightarrow> ctl_did run [''print'', domain] l l"
    "ctl_did run [''enable'', domain] l l' \<Longrightarrow> \<not> disabled l' \<and> loaded l' = loaded l"
    "ctl_did run [''disable'', domain] l l' \<Longrightarrow> disabled l' \<and> loaded l' = loaded l"
    "ctl_did run [''bootout'', domain] l l' \<Longrightarrow> \<not> loaded l' \<and> disabled l' = disabled l"
    "ctl_did run [''bootstrap'', ''system'', PLIST] l l' \<Longrightarrow> loaded l' \<and> disabled l' = disabled l"
    "ctl_did run [''kickstart'', ''-k'', domain] l l' \<Longrightarrow> loaded l' = loaded l \<and> disabled l' = disabled l"
    "loaded (snd (run [''enable'', domain] l)) = loaded l"
  using assms unfolding launchctl_ok_def by blast+

lemma followed_by_ok:
  "followed_by p q m = (Inr x, m') \<longleftrightarrow> (\<exists>m1. p m = (Inr (), m1) \<and> q m1 = (Inr x, m'))"
  by (auto simp: followed_by_def and_then_def split: prod.splits sum.splits)

lemma launchctl_Inr:
  "launchctl env args m = (Inr (), m') \<longleftrightarrow>
     (\<exists>l'. ctl_did (launchctl_run env) args (jobs m) l' \<and> m' = m\<lparr>jobs := l'\<rparr>)"
  by (auto simp: launchctl_def and_then_def launchctl_output_def ctl_did_def split: prod.splits option.splits sum.splits)

lemma service_loaded_ok:
  assumes "launchctl_ok (launchctl_run env) loaded disabled"
  shows "service_loaded env m = (loaded (jobs m), m)"
proof -
  obtain r l where r: "launchctl_run env [''print'', domain] (jobs m) = (r, l)" by fastforce
  moreover have "l = jobs m" using launchctl_okD(1) [OF assms, of "jobs m"] r by simp
  ultimately show ?thesis
    using launchctl_okD(2) [OF assms, of "jobs m"]
    by (auto simp: service_loaded_def launchctl_output_def ctl_did_def split: option.splits)
qed

lemma start_leaves:
  assumes ok: "launchctl_ok (launchctl_run env) loaded disabled" and s: "start env reload m = (Inr (), m')"
  shows "loaded (jobs m') \<and> \<not> disabled (jobs m') \<and> nodes m' = nodes m"
proof -
  obtain l1 where e: "ctl_did (launchctl_run env) [''enable'', domain] (jobs m) l1"
    using s by (auto simp: start_def followed_by_ok launchctl_Inr)
  note e' = launchctl_okD(3) [OF ok e]
  show ?thesis
    using s e' launchctl_okD(3,5-7) [OF ok]
    by (fastforce simp: start_def followed_by_ok launchctl_Inr service_loaded_ok [OF ok] return_ok_def split: if_splits)
qed

subsection \<open>Files\<close>

lemma node_at_simps [simp]:
  "node_at (m\<lparr>jobs := l\<rparr>) p = node_at m p" "node_at (m\<lparr>fs_calls := n\<rparr>) p = node_at m p"
  "node_at (m\<lparr>printed := ps\<rparr>) p = node_at m p" "node_at (m\<lparr>nodes := ns\<rparr>) p = map_of ns p"
  by (simp_all add: node_at_def)

lemma map_of_set_node: "map_of (set_node p n ns) q = (if q = p then n else map_of ns q)"
  by (simp add: set_node_def update_conv' delete_conv' split: option.splits)

lemma map_of_map_node: "map_of (map_node p f ns) q = (if q = p then map_option f (map_of ns p) else map_of ns q)"
  by (auto simp: map_node_def update_conv' split: option.splits)

text \<open>What a step does to the files: those outside \<open>ps\<close> it leaves alone.\<close>

definition leaves_alone :: "string set \<Rightarrow> ('l, 'a) step \<Rightarrow> bool" where
  "leaves_alone ps f \<longleftrightarrow> (\<forall>m q. q \<notin> ps \<longrightarrow> node_at (snd (f m)) q = node_at m q)"

lemma leaves_aloneD: "leaves_alone ps f \<Longrightarrow> f m = (r, m') \<Longrightarrow> q \<notin> ps \<Longrightarrow> node_at m' q = node_at m q"
  unfolding leaves_alone_def by (metis snd_conv)

lemma leaves_alone_mono: "leaves_alone ps f \<Longrightarrow> ps \<subseteq> qs \<Longrightarrow> leaves_alone qs f"
  unfolding leaves_alone_def by blast

lemma leaves_alone_and_then:
  assumes "leaves_alone ps p" "\<And>x. leaves_alone ps (q x)"
  shows "leaves_alone ps (and_then p q)"
proof -
  have "node_at (snd (q x m')) r = node_at m r" if "p m = (Inr x, m')" "r \<notin> ps" for x m m' r
    using assms(2) [of x] that leaves_aloneD [OF assms(1) that] by (simp add: leaves_alone_def)
  then show ?thesis
    using leaves_aloneD [OF assms(1)] by (auto simp: leaves_alone_def and_then_def split: prod.splits sum.splits)
qed

lemma leaves_alone_followed_by:
  "leaves_alone ps p \<Longrightarrow> leaves_alone ps q \<Longrightarrow> leaves_alone ps (followed_by p q)"
  unfolding followed_by_def by (rule leaves_alone_and_then)

lemma leaves_alone_calls:
  "leaves_alone ps (create_dir_all env d)" "leaves_alone {p} (fs_write env p t)" "leaves_alone {p} (fs_copy env n src p)"
  "leaves_alone {p} (set_permissions env p mode)" "leaves_alone {p} (chown_root env p)"
  "leaves_alone {p, q} (rename env p q)" "leaves_alone {p} (remove_file env p)" "leaves_alone ps (say t)"
  "leaves_alone ps return_ok"
  by (auto simp: leaves_alone_def create_dir_all_def fs_write_def fs_copy_def set_permissions_def chown_root_def
      rename_def remove_file_def fs_on_def fs_call_def torn_node_def say_def return_ok_def map_of_set_node
      map_of_map_node) (auto simp: node_at_def)

lemma leaves_alone_launchctl: "leaves_alone ps (launchctl env args)"
  by (auto simp: leaves_alone_def launchctl_def and_then_def launchctl_output_def split: prod.splits option.splits sum.splits if_splits)

lemma service_loaded_nodes: "node_at (snd (service_loaded env m)) p = node_at m p"
  by (auto simp: service_loaded_def launchctl_output_def split: prod.splits option.splits sum.splits)

lemma leaves_alone_start: "leaves_alone ps (start env reload)"
proof -
  have "node_at (snd ((case service_loaded env m of (loaded, m1) \<Rightarrow>
            if loaded \<and> \<not> reload then launchctl env [''kickstart'', ''-k'', domain] m1
            else followed_by (if loaded then launchctl env [''bootout'', domain] else return_ok)
                   (launchctl env [''bootstrap'', ''system'', PLIST]) m1))) q = node_at m q" if "q \<notin> ps" for m q
  proof -
    obtain b m1 where sl: "service_loaded env m = (b, m1)" by fastforce
    have "node_at m1 q = node_at m q" using service_loaded_nodes [of env m q] sl by simp
    moreover have "leaves_alone ps (followed_by (if b then launchctl env [''bootout'', domain] else return_ok)
        (launchctl env [''bootstrap'', ''system'', PLIST]))"
      by (intro leaves_alone_followed_by leaves_alone_launchctl) (simp add: leaves_alone_launchctl leaves_alone_calls)
    ultimately show ?thesis
      using that leaves_alone_launchctl [of ps env "[''kickstart'', ''-k'', domain]"]
      by (simp add: sl leaves_alone_def)
  qed
  then show ?thesis
    unfolding start_def by (intro leaves_alone_followed_by leaves_alone_launchctl) (simp add: leaves_alone_def)
qed

subsection \<open>Replacing a file\<close>

text \<open>The last three calls of a replacement: the file appears whole and owned by root, or not.\<close>

lemma finish_replacing:
  assumes "tmp \<noteq> p" "node_at m tmp = Some n"
    and "followed_by (set_permissions env tmp mode) (followed_by (chown_root env tmp) (rename env tmp p)) m = (r, m')"
  shows "node_at m' p = (if r = Inr () then Some (n\<lparr>node_mode := mode, node_root := True\<rparr>) else node_at m p)"
  using assms
  by (auto simp: followed_by_def and_then_def set_permissions_def chown_root_def rename_def fs_on_def fs_call_def
      map_of_set_node map_of_map_node node_at_def split: if_splits)

lemma finish_leaves_alone:
  "leaves_alone {tmp, p} (followed_by (set_permissions env tmp mode) (followed_by (chown_root env tmp) (rename env tmp p)))"
  by (intro leaves_alone_followed_by leaves_alone_calls leaves_alone_calls [THEN leaves_alone_mono]) simp_all

lemma write_root_file_result:
  assumes "with_extension p ''tmp'' \<noteq> p" "write_root_file env p text mode m = (r, m')"
  shows "node_at m' p = (if r = Inr () then Some \<lparr>node_text = text, node_mode = mode, node_root = True\<rparr> else node_at m p)"
proof -
  let ?tmp = "with_extension p ''tmp''"
  let ?fin = "followed_by (set_permissions env ?tmp mode) (followed_by (chown_root env ?tmp) (rename env ?tmp p))"
  obtain r1 m1 where d: "create_dir_all env (parent_dir p) m = (r1, m1)" by fastforce
  obtain r2 m2 where w: "fs_write env ?tmp text m1 = (r2, m2)" by fastforce
  have same: "node_at m1 p = node_at m p" "node_at m2 p = node_at m1 p"
    using leaves_aloneD [OF leaves_alone_calls(1) d, of p "{}"] leaves_aloneD [OF leaves_alone_calls(2) w] assms(1) by auto
  show ?thesis
  proof (cases "r1 = Inr () \<and> r2 = Inr ()")
    case True
    have "\<exists>n. node_at m2 ?tmp = Some n \<and> node_text n = text"
      using w True by (auto simp: fs_write_def fs_call_def map_of_set_node split: if_splits option.splits)
    then obtain n where n: "node_at m2 ?tmp = Some n" "node_text n = text" by blast
    have "?fin m2 = (r, m')" using assms(2) d w True by (simp add: write_root_file_def Let_def followed_by_def and_then_def)
    from finish_replacing [OF assms(1) n(1) this] show ?thesis using n(2) same by (cases n) simp
  next
    case False
    then have "r \<noteq> Inr () \<and> (m' = m1 \<or> m' = m2)"
      using assms(2) d w by (auto simp: write_root_file_def Let_def followed_by_def and_then_def split: sum.splits)
    then show ?thesis using same by auto
  qed
qed

lemma write_root_file_alone: "leaves_alone {with_extension p ''tmp'', p} (write_root_file env p text mode)"
  unfolding write_root_file_def Let_def
  by (intro leaves_alone_followed_by finish_leaves_alone leaves_alone_calls leaves_alone_calls [THEN leaves_alone_mono]) simp_all

abbreviation bin_tmp :: string where
  "bin_tmp \<equiv> ''/usr/local/libexec/.pai-sho.installing''"

abbreviation operator_tmp :: string where
  "operator_tmp \<equiv> ''/usr/local/libexec/pai-sho-operator.tmp''"

abbreviation plist_tmp :: string where
  "plist_tmp \<equiv> ''/Library/LaunchDaemons/pai-sho.tmp''"

lemma tmp_paths [simp]:
  "with_file_name BIN ''.pai-sho.installing'' = bin_tmp"
  "with_extension OPERATOR ''tmp'' = operator_tmp" "with_extension PLIST ''tmp'' = plist_tmp"
  by (simp_all add: path_defs with_extension_def with_file_name_def file_name_def file_stem_def)

lemma paths_differ [simp]:
  "BIN \<noteq> OPERATOR" "BIN \<noteq> PLIST" "BIN \<noteq> KEY" "BIN \<noteq> LOG" "BIN \<noteq> RESOLVER"
  "OPERATOR \<noteq> BIN" "OPERATOR \<noteq> PLIST" "OPERATOR \<noteq> KEY" "OPERATOR \<noteq> LOG" "OPERATOR \<noteq> RESOLVER"
  "PLIST \<noteq> BIN" "PLIST \<noteq> OPERATOR" "PLIST \<noteq> KEY" "PLIST \<noteq> LOG" "PLIST \<noteq> RESOLVER"
  "KEY \<noteq> BIN" "KEY \<noteq> OPERATOR" "KEY \<noteq> PLIST" "KEY \<noteq> LOG" "KEY \<noteq> RESOLVER"
  "LOG \<noteq> BIN" "LOG \<noteq> OPERATOR" "LOG \<noteq> PLIST" "LOG \<noteq> KEY" "LOG \<noteq> RESOLVER"
  "RESOLVER \<noteq> BIN" "RESOLVER \<noteq> OPERATOR" "RESOLVER \<noteq> PLIST" "RESOLVER \<noteq> KEY" "RESOLVER \<noteq> LOG"
  "BIN \<noteq> bin_tmp" "BIN \<noteq> operator_tmp" "BIN \<noteq> plist_tmp" "OPERATOR \<noteq> bin_tmp" "OPERATOR \<noteq> operator_tmp"
  "OPERATOR \<noteq> plist_tmp" "PLIST \<noteq> bin_tmp" "PLIST \<noteq> operator_tmp" "PLIST \<noteq> plist_tmp" "KEY \<noteq> bin_tmp"
  "KEY \<noteq> operator_tmp" "KEY \<noteq> plist_tmp" "LOG \<noteq> bin_tmp" "LOG \<noteq> operator_tmp" "LOG \<noteq> plist_tmp"
  "RESOLVER \<noteq> bin_tmp" "RESOLVER \<noteq> operator_tmp" "RESOLVER \<noteq> plist_tmp" "bin_tmp \<noteq> BIN" "operator_tmp \<noteq> BIN"
  "plist_tmp \<noteq> BIN" "bin_tmp \<noteq> OPERATOR" "operator_tmp \<noteq> OPERATOR" "plist_tmp \<noteq> OPERATOR" "bin_tmp \<noteq> PLIST"
  "operator_tmp \<noteq> PLIST" "plist_tmp \<noteq> PLIST" "bin_tmp \<noteq> KEY" "operator_tmp \<noteq> KEY" "plist_tmp \<noteq> KEY"
  "bin_tmp \<noteq> LOG" "operator_tmp \<noteq> LOG" "plist_tmp \<noteq> LOG" "bin_tmp \<noteq> RESOLVER" "operator_tmp \<noteq> RESOLVER"
  "plist_tmp \<noteq> RESOLVER"
  by (simp_all add: path_defs)

lemma install_binary_result:
  assumes "install_binary env m = (r, m')"
  shows "node_at m' BIN = (if r = Inr () then Some \<lparr>node_text = node_text (snd (the (current_exe env))), node_mode = 493,
      node_root = True\<rparr> else node_at m BIN) \<and> (r = Inr () \<longrightarrow> current_exe env \<noteq> None)"
proof (cases "current_exe env")
  case None
  then show ?thesis using assms by (auto simp: install_binary_def)
next
  case (Some e)
  obtain src x where e: "e = (src, x)" by fastforce
  obtain r1 m1 where d: "create_dir_all env (parent_dir BIN) m = (r1, m1)" by fastforce
  obtain r2 m2 where w: "fs_copy env x src bin_tmp m1 = (r2, m2)" by fastforce
  have ne: "bin_tmp \<noteq> BIN" by (simp add: BIN_def)
  have same: "node_at m1 BIN = node_at m BIN" "node_at m2 BIN = node_at m1 BIN"
    using leaves_aloneD [OF leaves_alone_calls(1) d, of BIN "{}"] leaves_aloneD [OF leaves_alone_calls(3) w] ne by auto
  show ?thesis
  proof (cases "r1 = Inr () \<and> r2 = Inr ()")
    case True
    obtain r3 m3 where p: "place_binary env bin_tmp BIN m2 = (r3, m3)" by fastforce
    have "\<exists>n. node_at m2 bin_tmp = Some n \<and> node_text n = node_text x"
      using w True by (auto simp: fs_copy_def fs_call_def map_of_set_node split: if_splits option.splits)
    then obtain n where n: "node_at m2 bin_tmp = Some n" "node_text n = node_text x" by blast
    have "node_at m3 BIN = (if r3 = Inr () then Some (n\<lparr>node_mode := 493, node_root := True\<rparr>) else node_at m2 BIN)"
      using p unfolding place_binary_def by (rule finish_replacing [OF ne n(1)])
    moreover have "node_at (snd (remove_file env bin_tmp m3)) BIN = node_at m3 BIN"
      using leaves_alone_calls(7) [of bin_tmp env] ne unfolding leaves_alone_def by simp
    moreover have "(r, m') = (case r3 of Inr _ \<Rightarrow> (Inr (), m3) | Inl e \<Rightarrow> (Inl e, snd (remove_file env bin_tmp m3)))"
      using assms d w p True Some e by (simp add: install_binary_def Let_def followed_by_def and_then_def)
    ultimately show ?thesis using Some e n(2) same by (cases n) (auto split: sum.splits)
  next
    case False
    then have "r \<noteq> Inr () \<and> (m' = m1 \<or> m' = m2)"
      using assms d w Some e by (auto simp: install_binary_def Let_def followed_by_def and_then_def split: sum.splits)
    then show ?thesis using same by auto
  qed
qed

lemma install_binary_alone: "leaves_alone {bin_tmp, BIN} (install_binary env)"
proof -
  have "leaves_alone {bin_tmp, BIN} (\<lambda>m. case place_binary env bin_tmp BIN m of
      (Inr _, m') \<Rightarrow> (Inr (), m') | (Inl e, m') \<Rightarrow> (Inl e, snd (remove_file env bin_tmp m')))"
    using finish_leaves_alone [of bin_tmp BIN env 493, folded place_binary_def] leaves_alone_calls(7) [of bin_tmp env]
    by (auto simp: leaves_alone_def split: prod.splits sum.splits) (metis snd_conv)+
  then have "leaves_alone {bin_tmp, BIN} (followed_by (create_dir_all env (parent_dir BIN))
      (followed_by (fs_copy env x src bin_tmp) (\<lambda>m. case place_binary env bin_tmp BIN m of
      (Inr _, m') \<Rightarrow> (Inr (), m') | (Inl e, m') \<Rightarrow> (Inl e, snd (remove_file env bin_tmp m')))))" for x src
    by (intro leaves_alone_followed_by leaves_alone_calls leaves_alone_calls [THEN leaves_alone_mono]) simp_all
  then show ?thesis
    by (cases "current_exe env") (auto simp: leaves_alone_def install_binary_def Let_def split: prod.splits)
qed

subsection \<open>Properties: the files of the service\<close>

text \<open>The file that belongs at a path of the service, once it is installed.\<close>

definition service_file :: "'l mac_env \<Rightarrow> string \<Rightarrow> file_node option" where
  "service_file env p =
     (if p = BIN then
        map_option (\<lambda>e. \<lparr>node_text = node_text (snd e), node_mode = 493, node_root = True\<rparr>) (current_exe env)
      else if p = OPERATOR then Some \<lparr>node_text = operator_script, node_mode = 493, node_root = True\<rparr>
      else if p = PLIST then Some \<lparr>node_text = plist, node_mode = 420, node_root = True\<rparr>
      else None)"

abbreviation service_paths :: "string set" where
  "service_paths \<equiv> {BIN, OPERATOR, PLIST}"

definition replaces_whole :: "'l mac_env \<Rightarrow> ('l, 'a) step \<Rightarrow> bool" where
  "replaces_whole env f \<longleftrightarrow>
     (\<forall>m p. p \<in> service_paths \<longrightarrow> node_at (snd (f m)) p = node_at m p \<or> node_at (snd (f m)) p = service_file env p)"

lemma replaces_whole_followed_by:
  assumes "replaces_whole env f" "replaces_whole env g"
  shows "replaces_whole env (followed_by f g)"
  unfolding replaces_whole_def
proof (intro allI impI)
  fix m p assume p: "p \<in> service_paths"
  obtain r m1 where f: "f m = (r, m1)" by fastforce
  have "node_at m1 p = node_at m p \<or> node_at m1 p = service_file env p"
    using assms(1) p f unfolding replaces_whole_def by (metis snd_conv)
  moreover have "node_at (snd (g m1)) p = node_at m1 p \<or> node_at (snd (g m1)) p = service_file env p"
    using assms(2) p unfolding replaces_whole_def by blast
  ultimately show "node_at (snd (followed_by f g m)) p = node_at m p \<or> node_at (snd (followed_by f g m)) p = service_file env p"
    using f by (auto simp: followed_by_def and_then_def split: sum.splits)
qed

lemma replaces_wholeI:
  assumes "leaves_alone ps f" "ps \<inter> service_paths \<subseteq> {p}"
    and "\<And>m. node_at (snd (f m)) p = node_at m p \<or> node_at (snd (f m)) p = service_file env p"
  shows "replaces_whole env f"
proof -
  have "node_at (snd (f m)) q = node_at m q" if "q \<in> service_paths" "q \<noteq> p" for m q
    using assms(1,2) that unfolding leaves_alone_def by blast
  then show ?thesis using assms(3) unfolding replaces_whole_def by metis
qed

lemma write_root_file_whole:
  assumes "with_extension p ''tmp'' \<noteq> p" "with_extension p ''tmp'' \<notin> service_paths"
    and "service_file env p = Some \<lparr>node_text = body, node_mode = mode, node_root = True\<rparr>"
  shows "replaces_whole env (write_root_file env p body mode)"
proof (rule replaces_wholeI [OF write_root_file_alone, of _ p])
  show "node_at (snd (write_root_file env p body mode m)) p = node_at m p \<or>
      node_at (snd (write_root_file env p body mode m)) p = service_file env p" for m
    using write_root_file_result [OF assms(1) prod.collapse [symmetric], of env body mode m] assms(3) by (auto split: if_splits)
qed (use assms(2) in auto)

lemma install_steps_whole: "replaces_whole env (install_steps env)"
proof -
  have other: "bin_tmp \<notin> service_paths" "operator_tmp \<notin> service_paths" "plist_tmp \<notin> service_paths"
    by (simp_all add: path_defs)
  have f: "service_file env OPERATOR = Some \<lparr>node_text = operator_script, node_mode = 493, node_root = True\<rparr>"
    "service_file env PLIST = Some \<lparr>node_text = plist, node_mode = 420, node_root = True\<rparr>"
    by (simp_all add: service_file_def)
  have "node_at (snd (install_binary env m)) BIN = node_at m BIN \<or> node_at (snd (install_binary env m)) BIN = service_file env BIN" for m
    using install_binary_result [OF prod.collapse [symmetric], of env m] by (auto simp: service_file_def split: if_splits)
  then have bin: "replaces_whole env (install_binary env)"
    using other by (intro replaces_wholeI [OF install_binary_alone, of BIN]) auto
  have "leaves_alone {} (ensure_dirs env)"
    unfolding ensure_dirs_def by (intro leaves_alone_followed_by leaves_alone_calls)
  then have "replaces_whole env (ensure_dirs env)" "replaces_whole env (start env True)"
    using leaves_alone_start [of "{}" env True] by (simp_all add: leaves_alone_def replaces_whole_def)
  then show ?thesis
    unfolding install_steps_def
    by (intro replaces_whole_followed_by bin write_root_file_whole f) (use other in simp_all)
qed

lemma install_steps_alone:
  "leaves_alone (service_paths \<union> {bin_tmp, operator_tmp, plist_tmp}) (install_steps env)"
proof -
  have "leaves_alone {} (ensure_dirs env)"
    unfolding ensure_dirs_def by (intro leaves_alone_followed_by leaves_alone_calls)
  then have "leaves_alone (service_paths \<union> {bin_tmp, operator_tmp, plist_tmp}) (ensure_dirs env)"
    by (rule leaves_alone_mono) simp
  then show ?thesis
    unfolding install_steps_def
    by (intro leaves_alone_followed_by leaves_alone_start install_binary_alone [THEN leaves_alone_mono]
        write_root_file_alone [THEN leaves_alone_mono]) simp_all
qed

text \<open>C19: the files launchd runs as root are replaced whole or not at all. However an \<open>install\<close>
  goes, whatever call fails and whatever a failed write leaves: the binary, the operator script and
  the plist are each what they were before, or the complete new file with its mode, owned by root;
  apart from its three temporary files no other file is touched, the key among them. If it
  succeeds all three are the new ones.\<close>

theorem install_replaces_whole:
  assumes "install_steps env m = (r, m')"
  shows "(\<forall>p \<in> {BIN, OPERATOR, PLIST}. node_at m' p = node_at m p \<or> node_at m' p = service_file env p) \<and>
    (\<forall>p. p \<notin> {BIN, OPERATOR, PLIST, bin_tmp, operator_tmp, plist_tmp} \<longrightarrow> node_at m' p = node_at m p) \<and>
    (r = Inr () \<longrightarrow> (\<forall>p \<in> {BIN, OPERATOR, PLIST}. node_at m' p = service_file env p \<and> service_file env p \<noteq> None))"
proof -
  have "\<forall>p \<in> service_paths. node_at m' p = service_file env p \<and> service_file env p \<noteq> None" if fin: "r = Inr ()"
  proof -
    obtain m1 m2 m3 m4 where s: "install_binary env m1 = (Inr (), m2)" "write_root_file env OPERATOR operator_script 493 m2 = (Inr (), m3)"
      "write_root_file env PLIST plist 420 m3 = (Inr (), m4)" "start env True m4 = (Inr (), m')"
      using assms fin unfolding install_steps_def by (auto simp: followed_by_ok)
    have "node_at m2 BIN = service_file env BIN" "service_file env BIN \<noteq> None"
      using install_binary_result [OF s(1)] by (auto simp: service_file_def)
    moreover have "node_at m3 OPERATOR = service_file env OPERATOR" "node_at m4 PLIST = service_file env PLIST"
      using write_root_file_result [OF _ s(2)] write_root_file_result [OF _ s(3)] by (simp_all add: service_file_def)
    moreover have "node_at m3 BIN = node_at m2 BIN" "node_at m4 BIN = node_at m3 BIN" "node_at m4 OPERATOR = node_at m3 OPERATOR"
      using leaves_aloneD [OF write_root_file_alone s(2)] leaves_aloneD [OF write_root_file_alone s(3)] by simp_all
    moreover have "node_at m' p = node_at m4 p" for p using leaves_aloneD [OF leaves_alone_start s(4), of p "{}"] by simp
    moreover have "service_file env OPERATOR \<noteq> None" "service_file env PLIST \<noteq> None"
      by (simp_all add: service_file_def)
    ultimately show ?thesis by simp
  qed
  moreover have "\<forall>p \<in> service_paths. node_at m' p = node_at m p \<or> node_at m' p = service_file env p"
    using install_steps_whole [of env] assms unfolding replaces_whole_def by (metis snd_conv)
  moreover have "node_at m' p = node_at m p" if "p \<notin> {BIN, OPERATOR, PLIST, bin_tmp, operator_tmp, plist_tmp}" for p
    using leaves_aloneD [OF install_steps_alone assms, of p] that by auto
  ultimately show ?thesis by blast
qed

subsection \<open>Properties: the state of the service\<close>

lemma as_root_ok:
  "as_root env body m = (Returned (Inr ()), m') \<Longrightarrow> body m = (Inr (), m')"
  by (auto simp: as_root_def split: privilege.splits prod.splits)

lemma install_ok:
  assumes "install env now m = Some (Returned (Inr ()), m')"
  shows "\<exists>m1. install_steps env m = (Inr (), m1) \<and> jobs m' = jobs m1 \<and> nodes m' = nodes m1"
proof -
  obtain r m1 where r: "as_root env (install_steps env) m = (r, m1)" by fastforce
  have "r = Returned (Inr ()) \<and> jobs m' = jobs m1 \<and> nodes m' = nodes m1"
    using assms r by (cases r) (auto simp: install_def say_def split: sum.splits)
  then show ?thesis using as_root_ok r by blast
qed

lemma bootout_if_loaded:
  assumes ok: "launchctl_ok (launchctl_run env) loaded disabled"
    and "if_loaded env (launchctl env [''bootout'', domain]) m = (Inr (), m')"
  shows "\<not> loaded (jobs m') \<and> disabled (jobs m') = disabled (jobs m) \<and> nodes m' = nodes m"
  using assms(2) launchctl_okD(5) [OF ok]
  by (auto simp: if_loaded_def service_loaded_ok [OF ok] launchctl_Inr split: if_splits)

lemma remove_files_all:
  "remove_files env ps m = (Inr (), m') \<Longrightarrow>
     jobs m' = jobs m \<and> node_at m' p = (if p \<in> set ps then None else node_at m p)"
proof (induction ps arbitrary: m)
  case (Cons q ps)
  then obtain m1 where r: "remove_file env q m = (Inr (), m1)" "remove_files env ps m1 = (Inr (), m')"
    by (auto simp: followed_by_ok)
  have "jobs m1 = jobs m \<and> node_at m1 p = (if p = q then None else node_at m p)"
    using r(1) by (auto simp: remove_file_def fs_call_def map_of_set_node split: if_splits) (simp_all add: node_at_def)
  then show ?case using Cons.IH [OF r(2)] by auto
qed (simp add: return_ok_def)

lemma down_leaves:
  assumes ok: "launchctl_ok (launchctl_run env) loaded disabled" and d: "down_steps env m = (Inr (), m')"
  shows "\<not> loaded (jobs m') \<and> disabled (jobs m') \<and> nodes m' = nodes m"
proof -
  obtain m1 m2 m3 where s: "nodes m1 = nodes m" "if_loaded env (launchctl env [''bootout'', domain]) m1 = (Inr (), m2)"
    "launchctl env [''disable'', domain] m2 = (Inr (), m3)" "jobs m' = jobs m3" "nodes m' = nodes m3"
    using d by (auto simp: down_steps_def followed_by_ok say_def service_loaded_ok [OF ok] split: if_splits)
  show ?thesis
    using bootout_if_loaded [OF ok s(2)] launchctl_okD(4) [OF ok] s by (auto simp: launchctl_Inr)
qed

lemma remove_leaves:
  assumes ok: "launchctl_ok (launchctl_run env) loaded disabled" and d: "remove_steps env m = (Inr (), m')"
  shows "\<not> loaded (jobs m') \<and>
    node_at m' p = (if p \<in> {PLIST, OPERATOR, BIN, RESOLVER, LOG} then None else node_at m p)"
proof -
  obtain m1 m2 m3 where s: "if_loaded env (launchctl env [''bootout'', domain]) m = (Inr (), m1)"
    "m2 = snd (launchctl env [''enable'', domain] m1)" "remove_files env [PLIST, OPERATOR, BIN, RESOLVER, LOG] m2 = (Inr (), m3)"
    "jobs m' = jobs m3" "nodes m' = nodes m3"
    using d by (auto simp: remove_steps_def followed_by_ok say_def ignoring_def)
  have "m2 = m1\<lparr>jobs := snd (launchctl_run env [''enable'', domain] (jobs m1))\<rparr>"
    using s(2) by (auto simp: launchctl_def and_then_def launchctl_output_def split: prod.splits option.splits)
  then have "loaded (jobs m2) = loaded (jobs m1)" "node_at m2 p = node_at m1 p" using launchctl_okD(8) [OF ok] by simp_all
  moreover have "\<not> loaded (jobs m1)" "node_at m1 p = node_at m p"
    using bootout_if_loaded [OF ok s(1)] by (simp_all add: node_at_def)
  moreover have "jobs m3 = jobs m2" "node_at m3 p = (if p \<in> {PLIST, OPERATOR, BIN, RESOLVER, LOG} then None else node_at m2 p)"
    using remove_files_all [OF s(3), of p] by simp_all
  moreover have "node_at m' p = node_at m3 p" using s(5) by (simp add: node_at_def)
  ultimately show ?thesis using s(4) by simp
qed

text \<open>C20: what the service commands leave. If launchctl does what its manual says, then after a
  successful \<open>down\<close> the job is not loaded and is disabled, so a reboot does not load it, and no file
  changed; after a successful \<open>up\<close> or \<open>install\<close> it is loaded and not disabled; after a successful
  \<open>remove\<close> it is not loaded, the plist, the script, the binary, the resolver file and the log
  are gone, and every other file is as it was, the key among them.\<close>

theorem service_commands_do:
  assumes ok: "launchctl_ok (launchctl_run env) loaded disabled"
  shows "(down env m = (Returned (Inr ()), m1) \<longrightarrow> \<not> loaded (jobs m1) \<and> disabled (jobs m1) \<and> nodes m1 = nodes m) \<and>
    (up env m = (Returned (Inr ()), m2) \<longrightarrow> loaded (jobs m2) \<and> \<not> disabled (jobs m2) \<and> nodes m2 = nodes m) \<and>
    (install env now m = Some (Returned (Inr ()), m3) \<longrightarrow> loaded (jobs m3) \<and> \<not> disabled (jobs m3)) \<and>
    (remove env m = (Returned (Inr ()), m4) \<longrightarrow> \<not> loaded (jobs m4) \<and>
       (\<forall>p. node_at m4 p = (if p \<in> {PLIST, OPERATOR, BIN, RESOLVER, LOG} then None else node_at m p)))"
proof (intro conjI impI)
  show "\<not> loaded (jobs m1)" "disabled (jobs m1)" "nodes m1 = nodes m" if "down env m = (Returned (Inr ()), m1)"
    using down_leaves [OF ok] that unfolding down_def by (blast dest: as_root_ok)+
  have u: "loaded (jobs m2) \<and> \<not> disabled (jobs m2) \<and> nodes m2 = nodes m" if "up_steps env m = (Inr (), m2)"
    using that start_leaves [OF ok]
    by (auto simp: up_steps_def followed_by_ok say_def service_loaded_ok [OF ok] split: if_splits)
  show "loaded (jobs m2)" "\<not> disabled (jobs m2)" "nodes m2 = nodes m" if "up env m = (Returned (Inr ()), m2)"
    using u that unfolding up_def by (blast dest: as_root_ok)+
  show "loaded (jobs m3)" "\<not> disabled (jobs m3)" if "install env now m = Some (Returned (Inr ()), m3)"
    using install_ok [OF that] start_leaves [OF ok] by (auto simp: install_steps_def followed_by_ok)
  show "\<not> loaded (jobs m4)"
    "\<forall>p. node_at m4 p = (if p \<in> {PLIST, OPERATOR, BIN, RESOLVER, LOG} then None else node_at m p)"
    if "remove env m = (Returned (Inr ()), m4)"
    using remove_leaves [OF ok, of m m4] that unfolding remove_def by (blast dest: as_root_ok)+
qed

subsection \<open>Properties: the commands succeed\<close>

text \<open>When launchctl does what it is asked: it needs a job to stop or restart it, and loads one that
  is neither loaded nor disabled.\<close>

definition launchctl_works ::
  "(string list \<Rightarrow> 'l \<Rightarrow> ctl_output option \<times> 'l) \<Rightarrow> ('l \<Rightarrow> bool) \<Rightarrow> ('l \<Rightarrow> bool) \<Rightarrow> bool" where
  "launchctl_works run loaded disabled \<longleftrightarrow>
     (\<forall>l. \<exists>l'. ctl_did run [''enable'', domain] l l') \<and> (\<forall>l. \<exists>l'. ctl_did run [''disable'', domain] l l') \<and>
     (\<forall>l. loaded l \<longrightarrow> (\<exists>l'. ctl_did run [''bootout'', domain] l l')) \<and>
     (\<forall>l. loaded l \<longrightarrow> (\<exists>l'. ctl_did run [''kickstart'', ''-k'', domain] l l')) \<and>
     (\<forall>l. \<not> loaded l \<and> \<not> disabled l \<longrightarrow> (\<exists>l'. ctl_did run [''bootstrap'', ''system'', PLIST] l l'))"

lemma launchctl_worksD:
  assumes "launchctl_works (launchctl_run env) loaded disabled"
  shows "\<exists>l'. ctl_did (launchctl_run env) [''enable'', domain] (jobs m) l' \<and> launchctl env [''enable'', domain] m = (Inr (), m\<lparr>jobs := l'\<rparr>)"
    "\<exists>l'. launchctl env [''disable'', domain] m = (Inr (), m\<lparr>jobs := l'\<rparr>)"
    "loaded (jobs m) \<Longrightarrow> \<exists>l'. ctl_did (launchctl_run env) [''bootout'', domain] (jobs m) l' \<and> launchctl env [''bootout'', domain] m = (Inr (), m\<lparr>jobs := l'\<rparr>)"
    "loaded (jobs m) \<Longrightarrow> \<exists>l'. launchctl env [''kickstart'', ''-k'', domain] m = (Inr (), m\<lparr>jobs := l'\<rparr>)"
    "\<not> loaded (jobs m) \<Longrightarrow> \<not> disabled (jobs m) \<Longrightarrow> \<exists>l'. launchctl env [''bootstrap'', ''system'', PLIST] m = (Inr (), m\<lparr>jobs := l'\<rparr>)"
  using assms unfolding launchctl_works_def launchctl_Inr by blast+

lemma start_succeeds:
  assumes ok: "launchctl_ok (launchctl_run env) loaded disabled" and w: "launchctl_works (launchctl_run env) loaded disabled"
  shows "\<exists>m'. start env reload m = (Inr (), m')"
proof -
  obtain l where l: "ctl_did (launchctl_run env) [''enable'', domain] (jobs m) l"
    "launchctl env [''enable'', domain] m = (Inr (), m\<lparr>jobs := l\<rparr>)"
    using launchctl_worksD(1) [OF w] by blast
  let ?m = "m\<lparr>jobs := l\<rparr>"
  have en: "\<not> disabled l" using launchctl_okD(3) [OF ok l(1)] by blast
  show ?thesis
  proof (cases "loaded l")
    case False
    then show ?thesis
      using launchctl_worksD(5) [OF w, of ?m] en l(2)
      by (auto simp: start_def followed_by_def and_then_def service_loaded_ok [OF ok] return_ok_def)
  next
    case True
    obtain l' where b: "ctl_did (launchctl_run env) [''bootout'', domain] l l'" "launchctl env [''bootout'', domain] ?m = (Inr (), ?m\<lparr>jobs := l'\<rparr>)"
      using launchctl_worksD(3) [OF w, of ?m] True by auto
    have "\<not> loaded l'" "\<not> disabled l'" using launchctl_okD(5) [OF ok b(1)] en by auto
    then show ?thesis
      using launchctl_worksD(4) [OF w, of ?m] launchctl_worksD(5) [OF w, of "?m\<lparr>jobs := l'\<rparr>"] True l(2) b(2)
      by (cases reload) (auto simp: start_def followed_by_def and_then_def service_loaded_ok [OF ok])
  qed
qed

lemma if_loaded_succeeds:
  assumes ok: "launchctl_ok (launchctl_run env) loaded disabled" and w: "launchctl_works (launchctl_run env) loaded disabled"
  shows "\<exists>m'. if_loaded env (launchctl env [''bootout'', domain]) m = (Inr (), m')"
  using launchctl_worksD(3) [OF w, of m] by (auto simp: if_loaded_def service_loaded_ok [OF ok])

lemma write_root_file_succeeds:
  assumes "\<forall>n. fs_works env n"
  shows "\<exists>m'. write_root_file env p body mode m = (Inr (), m')"
  using assms
  by (auto simp: write_root_file_def Let_def followed_by_def and_then_def create_dir_all_def fs_write_def set_permissions_def
      chown_root_def rename_def fs_on_def fs_call_def map_of_set_node map_of_map_node)

lemma install_steps_succeeds:
  assumes ok: "launchctl_ok (launchctl_run env) loaded disabled" and w: "launchctl_works (launchctl_run env) loaded disabled"
    and f: "\<forall>n. fs_works env n" and e: "current_exe env \<noteq> None"
  shows "\<exists>m'. install_steps env m = (Inr (), m')"
proof -
  obtain m1 where m1: "ensure_dirs env m = (Inr (), m1)"
    using f by (simp add: ensure_dirs_def followed_by_def and_then_def create_dir_all_def fs_call_def)
  obtain m2 where m2: "install_binary env m1 = (Inr (), m2)"
    using f e by (auto simp: install_binary_def place_binary_def Let_def followed_by_def and_then_def create_dir_all_def
        fs_copy_def set_permissions_def chown_root_def rename_def fs_on_def fs_call_def map_of_set_node map_of_map_node)
  obtain m3 where m3: "write_root_file env OPERATOR operator_script 493 m2 = (Inr (), m3)"
    using write_root_file_succeeds [OF f] by blast
  obtain m4 where m4: "write_root_file env PLIST plist 420 m3 = (Inr (), m4)"
    using write_root_file_succeeds [OF f] by blast
  obtain m5 where "start env True m4 = (Inr (), m5)" using start_succeeds [OF ok w] by blast
  with m1 m2 m3 m4 show ?thesis by (auto simp: install_steps_def followed_by_ok)
qed

lemma remove_files_succeeds: "\<forall>n. fs_works env n \<Longrightarrow> \<exists>m'. remove_files env ps m = (Inr (), m')"
proof (induction ps arbitrary: m)
  case (Cons p ps)
  obtain m1 where "remove_file env p m = (Inr (), m1)"
    using Cons.prems by (cases "node_at m p = None") (auto simp: remove_file_def fs_call_def)
  with Cons.IH [OF Cons.prems, of m1] show ?case by (auto simp: followed_by_ok)
qed (simp add: return_ok_def)

lemma down_steps_succeeds:
  assumes ok: "launchctl_ok (launchctl_run env) loaded disabled" and w: "launchctl_works (launchctl_run env) loaded disabled"
    and "node_at m PLIST \<noteq> None"
  shows "\<exists>m'. down_steps env m = (Inr (), m')"
proof -
  obtain m1 where m1: "if_loaded env (launchctl env [''bootout'', domain]) m = (Inr (), m1)"
    using if_loaded_succeeds [OF ok w] by blast
  obtain m2 where "launchctl env [''disable'', domain] m1 = (Inr (), m2)" using launchctl_worksD(2) [OF w] by blast
  with m1 assms(3) show ?thesis by (auto simp: down_steps_def followed_by_ok say_def)
qed

lemma remove_steps_succeeds:
  assumes ok: "launchctl_ok (launchctl_run env) loaded disabled" and w: "launchctl_works (launchctl_run env) loaded disabled"
    and "\<forall>n. fs_works env n"
  shows "\<exists>m'. remove_steps env m = (Inr (), m')"
proof -
  obtain m1 where m1: "if_loaded env (launchctl env [''bootout'', domain]) m = (Inr (), m1)"
    using if_loaded_succeeds [OF ok w] by blast
  let ?m2 = "snd (launchctl env [''enable'', domain] m1)"
  obtain m3 where "remove_files env [PLIST, OPERATOR, BIN, RESOLVER, LOG] ?m2 = (Inr (), m3)"
    using remove_files_succeeds [OF assms(3)] by blast
  with m1 show ?thesis
    unfolding remove_steps_def followed_by_ok by (auto simp: ignoring_def say_def)
qed

lemma up_steps_succeeds:
  assumes ok: "launchctl_ok (launchctl_run env) loaded disabled" and w: "launchctl_works (launchctl_run env) loaded disabled"
    and "node_at m PLIST \<noteq> None"
  shows "\<exists>m'. up_steps env m = (Inr (), m')"
  using start_succeeds [OF ok w, of False m] assms(3)
  by (auto simp: up_steps_def followed_by_ok say_def service_loaded_ok [OF ok])

text \<open>C21: the service commands succeed when the system does. For root on macOS, with file-system
  calls that work and a launchctl that does what it can, an install succeeds, and on an installed
  service \<open>up\<close>, \<open>down\<close> and \<open>remove\<close> do, in whatever state launchd is, disabled or loaded or
  neither: no command asks launchctl for something it refuses.\<close>

theorem service_commands_succeed:
  assumes ok: "launchctl_ok (launchctl_run env) loaded disabled" and w: "launchctl_works (launchctl_run env) loaded disabled"
    and root: "on_macos env" "is_root env" and fs: "\<forall>n. fs_works env n" and exe: "current_exe env \<noteq> None"
  shows "(\<exists>m'. as_root env (install_steps env) m = (Returned (Inr ()), m')) \<and>
    (node_at m PLIST \<noteq> None \<longrightarrow> (\<exists>m'. up env m = (Returned (Inr ()), m')) \<and> (\<exists>m'. down env m = (Returned (Inr ()), m'))) \<and>
    (\<exists>m'. remove env m = (Returned (Inr ()), m'))"
proof -
  have "prepare env = Go" using root by (simp add: prepare_def require_macos_def ensure_root_def)
  then have go: "(\<exists>m'. as_root env body m = (Returned (Inr ()), m')) \<longleftrightarrow> (\<exists>m'. body m = (Inr (), m'))" for body
    by (auto simp: as_root_def split: prod.splits)
  show ?thesis
    unfolding up_def down_def remove_def go
    by (intro conjI impI install_steps_succeeds [OF ok w fs exe] up_steps_succeeds [OF ok w]
        down_steps_succeeds [OF ok w] remove_steps_succeeds [OF ok w fs])
qed

subsection \<open>Properties: waiting\<close>

lemma clock_advances:
  assumes "\<forall>i. clock env i + 100000000 \<le> clock env (Suc i)"
  shows "clock env 0 + n * 100000000 \<le> clock env n"
proof (induction n)
  case (Suc n)
  then show ?case using assms [rule_format, of n] by simp
qed simp

lemma wait_loop_returns:
  assumes "deadline \<le> clock env (i + k)"
  shows "\<exists>n \<ge> i. n \<le> i + k \<and>
    wait_loop env deadline i = Some (case fetch_view (fetches env n) of Inr v \<Rightarrow> Some v | Inl _ \<Rightarrow> None) \<and>
    (\<forall>j. i \<le> j \<and> j < n \<longrightarrow> (\<exists>e. fetch_view (fetches env j) = Inl e) \<and> clock env j < deadline) \<and>
    (\<forall>e. fetch_view (fetches env n) = Inl e \<longrightarrow> deadline \<le> clock env n)"
  using assms
proof (induction k arbitrary: i)
  case 0
  then show ?case
    by (intro exI [of _ i]) (auto simp: wait_loop.simps [of env deadline i] split: sum.splits)
next
  case (Suc k)
  show ?case
  proof (cases "(\<exists>e. fetch_view (fetches env i) = Inl e) \<and> clock env i < deadline")
    case True
    then have step: "wait_loop env deadline i = wait_loop env deadline (Suc i)"
      by (auto simp: wait_loop.simps [of env deadline i])
    obtain n where n: "n \<ge> Suc i" "n \<le> Suc i + k"
      "wait_loop env deadline (Suc i) = Some (case fetch_view (fetches env n) of Inr v \<Rightarrow> Some v | Inl _ \<Rightarrow> None)"
      "\<forall>j. Suc i \<le> j \<and> j < n \<longrightarrow> (\<exists>e. fetch_view (fetches env j) = Inl e) \<and> clock env j < deadline"
      "\<forall>e. fetch_view (fetches env n) = Inl e \<longrightarrow> deadline \<le> clock env n"
      using Suc.IH [of "Suc i"] Suc.prems by auto
    have "(\<exists>e. fetch_view (fetches env j) = Inl e) \<and> clock env j < deadline" if "i \<le> j" "j < n" for j
      using n(4) True that by (cases "j = i") auto
    with n step show ?thesis by (intro exI [of _ n]) auto
  next
    case False
    then show ?thesis
      by (intro exI [of _ i]) (auto simp: wait_loop.simps [of env deadline i] split: sum.splits)
  qed
qed

text \<open>C29: waiting for the daemon ends. Since every failed attempt is followed by a sleep of a tenth of a
  second, the wait returns after at most 51 attempts: with the answer of the first attempt that
  got one, or with none once five seconds have passed without.\<close>

theorem wait_for_daemon_ends:
  assumes "\<forall>i. clock env i + 100000000 \<le> clock env (Suc i)" and "now \<le> clock env 0"
  shows "\<exists>n \<le> 50. wait_for_daemon env now =
      Some (case fetch_view (fetches env n) of Inr v \<Rightarrow> Some v | Inl _ \<Rightarrow> None) \<and>
    (\<forall>j < n. \<exists>e. fetch_view (fetches env j) = Inl e) \<and>
    (\<forall>e. fetch_view (fetches env n) = Inl e \<longrightarrow> now + secs 5 \<le> clock env n)"
proof -
  have "now + secs 5 \<le> clock env (0 + 50)" using clock_advances [OF assms(1), of 50] assms(2) by (simp add: secs_def)
  from wait_loop_returns [OF this] show ?thesis unfolding wait_for_daemon_def by auto
qed

subsection \<open>A machine on which the commands run\<close>

text \<open>A launchd whose state is whether the job is loaded and whether it is disabled.\<close>

definition plain_launchctl :: "(string list \<Rightarrow> string) \<Rightarrow> string list \<Rightarrow> bool \<times> bool \<Rightarrow> ctl_output option \<times> (bool \<times> bool)" where
  "plain_launchctl out args l =
     (let answer = (\<lambda>good l'. (Some \<lparr>ctl_success = good, ctl_status = (if good then ''0'' else ''113''),
              ctl_stdout = as_str_bytes (out args),
              ctl_stderr = (if good then [] else as_str_bytes ''Could not find service'')\<rparr>, if good then l' else l))
      in if args = [''print'', domain] then answer (fst l) l
         else if args = [''enable'', domain] then answer True (fst l, False)
         else if args = [''disable'', domain] then answer True (fst l, True)
         else if args = [''bootout'', domain] then answer (fst l) (False, snd l)
         else if args = [''bootstrap'', ''system'', PLIST] then answer (\<not> fst l \<and> \<not> snd l) (True, snd l)
         else if args = [''kickstart'', ''-k'', domain] then answer (fst l) l
         else answer True l)"

definition plain_mac_env :: "(string list \<Rightarrow> string) \<Rightarrow> (nat \<Rightarrow> bool) \<Rightarrow> (bool \<times> bool) mac_env" where
  "plain_mac_env out fs =
     \<lparr>on_macos = True, is_root = True, elevating = False,
      current_exe = Some (''/bin/pai-sho'', \<lparr>node_text = ''code'', node_mode = 493, node_root = False\<rparr>),
      sudo_status = None, fs_works = fs, fs_torn = (\<lambda>n. None),
      new_node = (\<lambda>p. \<lparr>node_text = [], node_mode = 420, node_root = True\<rparr>),
      launchctl_run = plain_launchctl out, metadata_uid = (\<lambda>p. Some 0), getpwuid = (\<lambda>uid. Some (as_str_bytes ''root'')),
      fetches = (\<lambda>n. if n = 2 then Some (RespList \<lparr>li_me = ''key'', li_cli = [], li_daemon = [], li_peers = [], li_i_expose = [], li_grants = []\<rparr>) else None),
      clock = (\<lambda>i. i * 100000000)\<rparr>"

definition plain_mac :: "(bool \<times> bool) mac" where
  "plain_mac = \<lparr>nodes = [], jobs = (False, True), fs_calls = 0, printed = []\<rparr>"

lemma plain_launchctl_ok: "launchctl_ok (plain_launchctl out) fst snd"
  unfolding launchctl_ok_def ctl_did_def plain_launchctl_def Let_def by simp

lemma plain_launchctl_works: "launchctl_works (plain_launchctl out) fst snd"
  unfolding launchctl_works_def ctl_did_def plain_launchctl_def Let_def by (simp add: domain_def) blast

lemma plain_mac_env_simps [simp]:
  "launchctl_run (plain_mac_env out fs) = plain_launchctl out" "fs_works (plain_mac_env out fs) = fs"
  "on_macos (plain_mac_env out fs)" "is_root (plain_mac_env out fs)" "current_exe (plain_mac_env out fs) \<noteq> None"
  "clock (plain_mac_env out fs) = (\<lambda>i. i * 100000000)"
  by (simp_all add: plain_mac_env_def)

definition plain_installed :: "(bool \<times> bool) mac" where
  "plain_installed = plain_mac\<lparr>nodes := [(PLIST, \<lparr>node_text = plist, node_mode = 420, node_root = True\<rparr>)], jobs := (True, False)\<rparr>"

lemma plain_down:
  "\<exists>m1. down (plain_mac_env (\<lambda>_. []) (\<lambda>_. True)) plain_installed = (Returned (Inr ()), m1)"
  by (simp add: down_def as_root_def prepare_def require_macos_def ensure_root_def down_steps_def followed_by_def and_then_def
      plain_installed_def plain_mac_def node_at_def if_loaded_def service_loaded_def launchctl_def launchctl_output_def
      plain_launchctl_def say_def domain_def)

theorem install_replaces_whole_witness:
  "\<exists>r m'. install_steps (plain_mac_env (\<lambda>_. []) (\<lambda>n. n \<noteq> 7)) plain_mac = (r, m') \<and>
     (\<forall>p \<in> {BIN, OPERATOR, PLIST}. node_at m' p = node_at plain_mac p \<or>
        node_at m' p = service_file (plain_mac_env (\<lambda>_. []) (\<lambda>n. n \<noteq> 7)) p)"
proof -
  obtain r m' where m: "install_steps (plain_mac_env (\<lambda>_. []) (\<lambda>n. n \<noteq> 7)) plain_mac = (r, m')" by fastforce
  with install_replaces_whole [OF m] show ?thesis by blast
qed

theorem service_commands_do_witness:
  "\<exists>m1. down (plain_mac_env (\<lambda>_. []) (\<lambda>_. True)) plain_installed = (Returned (Inr ()), m1) \<and>
     \<not> fst (jobs m1) \<and> snd (jobs m1) \<and> nodes m1 = nodes plain_installed"
proof -
  obtain m1 where m1: "down (plain_mac_env (\<lambda>_. []) (\<lambda>_. True)) plain_installed = (Returned (Inr ()), m1)"
    using plain_down ..
  have "launchctl_ok (launchctl_run (plain_mac_env (\<lambda>_. []) (\<lambda>_. True))) fst snd" by (simp add: plain_launchctl_ok)
  from service_commands_do [OF this, of plain_installed m1] m1 show ?thesis by blast
qed

theorem service_commands_succeed_witness:
  "(\<exists>m'. as_root (plain_mac_env (\<lambda>_. []) (\<lambda>_. True)) (install_steps (plain_mac_env (\<lambda>_. []) (\<lambda>_. True))) plain_mac = (Returned (Inr ()), m')) \<and>
   (\<exists>m'. remove (plain_mac_env (\<lambda>_. []) (\<lambda>_. True)) plain_mac = (Returned (Inr ()), m'))"
  using service_commands_succeed [of "plain_mac_env (\<lambda>_. []) (\<lambda>_. True)" fst snd plain_mac]
    plain_launchctl_ok plain_launchctl_works by simp

theorem wait_for_daemon_ends_witness:
  "\<exists>n \<le> 50. wait_for_daemon (plain_mac_env (\<lambda>_. []) (\<lambda>_. True)) 0 =
     Some (case fetch_view (fetches (plain_mac_env (\<lambda>_. []) (\<lambda>_. True)) n) of Inr v \<Rightarrow> Some v | Inl _ \<Rightarrow> None)"
  using wait_for_daemon_ends [of "plain_mac_env (\<lambda>_. []) (\<lambda>_. True)" 0] by auto

end
