(* ===== verification/Launchd_Status.thy ===== *)
theory Launchd_Status
  imports Launchd_Props
begin

text \<open>
  The status command reads launchctl's text: for the text of the documented shape, the disabled
  mark, the fields of a job and the process id it finds are the ones launchd wrote.
\<close>

subsection \<open>Reading launchctl's text\<close>

text \<open>Text without line ends, white space at its ends or quotes.\<close>

definition plain_word :: "string \<Rightarrow> bool" where
  "plain_word s \<longleftrightarrow> s \<noteq> [] \<and> (\<forall>c \<in> set s. graphic c \<and> c \<noteq> dquote)"

lemma not_graphic: "\<not> graphic (CHR '' '')" "\<not> graphic newline"
  by (simp_all add: graphic_def)

lemma plain_wordD:
  assumes "plain_word s"
  shows "s \<noteq> []" "graphic (hd s)" "graphic (last s)" "dquote \<notin> set s" "newline \<notin> set s"
proof -
  have s: "s \<noteq> []" "\<forall>c \<in> set s. graphic c \<and> c \<noteq> dquote" using assms by (simp_all add: plain_word_def)
  show "s \<noteq> []" "dquote \<notin> set s" using s by auto
  show "graphic (hd s)" "graphic (last s)" using s by simp_all
  show "newline \<notin> set s"
  proof
    assume "newline \<in> set s"
    with s(2) have "graphic newline" by blast
    then show False by (simp add: graphic_def)
  qed
qed

lemma pieces_line: "newline \<notin> set l \<Longrightarrow> pieces (l @ newline # s) = l # pieces s"
  by (induction l) auto

lemma pieces_not_Nil [simp]: "pieces s \<noteq> []"
  by (induction s) (auto split: list.splits)

lemma text_lines_of_lines:
  assumes "\<forall>l \<in> set ls. newline \<notin> set l \<and> strip_cr l = l"
  shows "text_lines (of_lines ls) = ls"
proof -
  have "pieces (of_lines ls) = ls @ [[]]" using assms
    by (induction ls) (simp_all add: of_lines_def pieces_line)
  then show ?thesis using assms by (simp add: text_lines_def Let_def map_idI)
qed

lemma strip_cr_id: "l \<noteq> [] \<Longrightarrow> last l \<noteq> CHR 0x0D \<Longrightarrow> strip_cr l = l"
  by (cases "strip_suffix [CHR 0x0D] l") (auto simp: strip_cr_def strip_suffix_iff)

lemma strip_white_space:
  assumes "x = CHR 0x09 \<or> x = CHR '' ''"
  shows "strip_ws white_space (x # s) = strip_ws white_space s"
proof (rule strip_ws_spaces)
  have "char_of (9 :: nat) = CHR 0x09" "char_of (32 :: nat) = CHR '' ''" by (simp_all add: char_of_eq_iff)
  then show "[x] \<in> set white_space" using assms by (auto simp: white_space_def)
  have "char_of n \<noteq> x" if "n \<in> {194, 225, 226, 227 :: nat}" for n
    using assms that by (auto simp: char_of_eq_iff)
  then show "\<forall>w \<in> set white_space. w \<noteq> [] \<longrightarrow> hd w = x \<longrightarrow> w = [x]"
    by (auto simp: white_space_def)
qed

lemma trim_tab:
  assumes "s \<noteq> []" "graphic (hd s)" "graphic (last s)"
  shows "trim (CHR 0x09 # s) = s"
proof -
  have "strip_ws white_space (CHR 0x09 # s) = strip_ws white_space s"
    by (rule strip_white_space) simp
  then have "trim (CHR 0x09 # s) = trim s" by (simp add: trim_def)
  then show ?thesis using trim_id assms by simp
qed

lemma first_word_spaced:
  assumes "s \<noteq> []" "\<forall>c \<in> set s. graphic c"
  shows "first_word (CHR '' '' # s) = Some s"
proof -
  have none: "starts_with_any white_space t = None" if "t \<noteq> []" "graphic (hd t)" for t
    using that white_space_not_graphic by (intro starts_with_none) auto
  have "strip_ws white_space (CHR '' '' # s) = strip_ws white_space s"
    by (rule strip_white_space) simp
  moreover have "strip_ws white_space s = s" using none [of s] assms by (subst strip_ws.simps) simp
  moreover have "until_space s = s" using assms(2)
  proof (induction s)
    case (Cons c s)
    then show ?case using none [of "c # s"] by simp
  qed simp
  ultimately show ?thesis using assms(1) by (simp add: first_word_def)
qed

definition disabled_line :: "string \<times> bool \<Rightarrow> string" where
  "disabled_line e =
     CHR 0x09 # [dquote] @ fst e @ [dquote] @ '' => '' @ (if snd e then ''disabled'' else ''enabled'')"

definition disabled_text :: "(string \<times> bool) list \<Rightarrow> string" where
  "disabled_text es = of_lines ([''disabled services = {''] @ map disabled_line es @ [''}''])"

lemma marked_prefix:
  assumes "x \<notin> set a" "x \<notin> set b"
  shows "a @ x # s = b @ x # t \<longleftrightarrow> a = b \<and> s = t"
  using assms
proof (induction a arbitrary: b)
  case Nil
  then show ?case by (cases b) auto
next
  case (Cons y a)
  then show ?case by (cases b) auto
qed

lemma disabled_line_read:
  assumes "plain_word l" "plain_word lbl"
  shows "(case strip_prefix ([dquote] @ lbl @ [dquote] @ '' =>'') (trim (disabled_line (l, d))) of
      None \<Rightarrow> False | Some rest \<Rightarrow> first_word rest = Some ''disabled'') \<longleftrightarrow> l = lbl \<and> d"
proof -
  let ?w = "if d then ''disabled'' else ''enabled''"
  let ?s = "[dquote] @ l @ [dquote] @ '' => '' @ ?w"
  have "trim (disabled_line (l, d)) = ?s"
    using trim_tab [of ?s] by (simp add: disabled_line_def graphic_def)
  moreover have "strip_prefix ([dquote] @ lbl @ [dquote] @ '' =>'') ?s = (if l = lbl then Some ('' '' @ ?w) else None)"
  proof (cases "l = lbl")
    case True
    have "?s = ([dquote] @ lbl @ [dquote] @ '' =>'') @ '' '' @ ?w" using True by simp
    then show ?thesis using True strip_prefix_some by metis
  next
    case False
    have "strip_prefix ([dquote] @ lbl @ [dquote] @ '' =>'') ?s \<noteq> Some t" for t
      using False marked_prefix [of dquote l lbl] plain_wordD(4) assms unfolding strip_prefix_iff by auto
    then show ?thesis using False by (metis not_None_eq)
  qed
  moreover have "first_word ('' '' @ ?w) = Some ?w"
    using first_word_spaced [of ?w] by (simp add: graphic_def)
  ultimately show ?thesis by (auto split: if_splits)
qed

lemma label_disabled_read:
  assumes "\<forall>e \<in> set es. plain_word (fst e)" "plain_word lbl"
  shows "label_disabled (disabled_text es) lbl \<longleftrightarrow> (lbl, True) \<in> set es"
proof -
  let ?hit = "\<lambda>l. case strip_prefix ([dquote] @ lbl @ [dquote] @ '' =>'') (trim l) of
      None \<Rightarrow> False | Some rest \<Rightarrow> first_word rest = Some ''disabled''"
  have "newline \<notin> set (disabled_line e) \<and> strip_cr (disabled_line e) = disabled_line e" if "e \<in> set es" for e
    using assms(1) that plain_wordD(5) by (auto simp: disabled_line_def intro!: strip_cr_id)
  then have lines: "text_lines (disabled_text es) = [''disabled services = {''] @ map disabled_line es @ [''}'']"
    unfolding disabled_text_def by (intro text_lines_of_lines) (auto intro!: strip_cr_id)
  have ends: "trim ''disabled services = {'' = ''disabled services = {''" "trim ''}'' = ''}''"
    by (simp_all add: trim_id graphic_def)
  have "\<not> ?hit ''disabled services = {''" "\<not> ?hit ''}''" unfolding ends by (simp_all add: strip_prefix_def)
  moreover have "?hit (disabled_line e) \<longleftrightarrow> e = (lbl, True)" if "e \<in> set es" for e
    using disabled_line_read [of "fst e" lbl "snd e"] assms that by (cases e) auto
  ultimately show ?thesis unfolding label_disabled_def Let_def lines by (auto simp: list_ex_iff)
qed

subsection \<open>The fields of a job\<close>

definition plain_value :: "string \<Rightarrow> bool" where
  "plain_value v \<longleftrightarrow> v \<noteq> [] \<and> graphic (hd v) \<and> graphic (last v) \<and> newline \<notin> set v"

definition field_text :: "string \<times> string \<Rightarrow> string" where
  "field_text f = fst f @ '' = '' @ snd f"

definition print_text :: "(string \<times> string) list \<Rightarrow> string" where
  "print_text fs = of_lines ([field_text (domain, ''{'')] @ map (\<lambda>f. CHR 0x09 # field_text f) fs @ [''}''])"

lemma plain_word_no_space: "plain_word s \<Longrightarrow> CHR '' '' \<notin> set s"
  using not_graphic(1) by (auto simp: plain_word_def)

lemma strip_field:
  assumes "plain_word k" "plain_word key"
  shows "strip_prefix (key @ '' = '') (k @ '' = '' @ v) = (if k = key then Some v else None)"
proof (cases "k = key")
  case True
  then show ?thesis using strip_prefix_some [of "key @ '' = ''" v] by simp
next
  case False
  have "strip_prefix (key @ '' = '') (k @ '' = '' @ v) \<noteq> Some t" for t
    using False marked_prefix [OF plain_word_no_space [OF assms(1)] plain_word_no_space [OF assms(2)], of "''= '' @ v" "''= '' @ t"]
    by (simp add: strip_prefix_iff)
  then show ?thesis using False by (metis not_None_eq)
qed

lemma field_line_read:
  assumes "plain_word k" "plain_value v" "plain_word key" "l = field_text (k, v) \<or> l = CHR 0x09 # field_text (k, v)"
  shows "field_line key l = (if k = key then Some v else None)"
proof -
  have f: "field_text (k, v) \<noteq> []" "graphic (hd (field_text (k, v)))" "graphic (last (field_text (k, v)))"
    using assms(1,2) plain_wordD(1,2) [OF assms(1)] by (auto simp: field_text_def plain_value_def)
  have "trim l = field_text (k, v)" using assms(4) f trim_tab trim_id by auto
  moreover have "trim v = v" "v \<noteq> []" using assms(2) trim_id by (auto simp: plain_value_def)
  ultimately show ?thesis using strip_field [OF assms(1,3)] by (simp add: field_line_def field_text_def)
qed

lemma field_read:
  assumes "\<forall>f \<in> set fs. plain_word (fst f) \<and> plain_value (snd f)" "plain_word key" "key \<noteq> domain"
  shows "field (print_text fs) key = map_of fs key"
proof -
  have line: "newline \<notin> set (field_text f) \<and> last (field_text f) \<noteq> CHR 0x0D \<and> field_text f \<noteq> []"
    if "plain_word (fst f)" "plain_value (snd f)" for f
    using that plain_wordD(5) by (auto simp: field_text_def plain_value_def graphic_def)
  have dom: "plain_word domain" "plain_value ''{''"
    by (auto simp: plain_word_def plain_value_def domain_def LABEL_def graphic_def)
  have "text_lines (print_text fs) = [field_text (domain, ''{'')] @ map (\<lambda>f. CHR 0x09 # field_text f) fs @ [''}'']"
    unfolding print_text_def using assms(1) line line [of "(domain, ''{'')"] dom
    by (intro text_lines_of_lines) (auto intro!: strip_cr_id)
  moreover have "field_line key (field_text (domain, ''{'')) = None"
    using field_line_read [OF dom assms(2)] assms(3) by simp
  moreover have "field_line key ''}'' = None"
    using assms(2) plain_wordD(1) by (auto simp: field_line_def trim_id graphic_def strip_prefix_def)
  moreover have "List.map_filter (field_line key) (map (\<lambda>f. CHR 0x09 # field_text f) fs) =
      map snd (filter (\<lambda>f. fst f = key) fs)"
    using assms(1)
  proof (induction fs)
    case (Cons f fs)
    then show ?case using field_line_read [of "fst f" "snd f" key] assms(2) by (auto simp: map_filter_simps)
  qed (simp add: map_filter_simps)
  moreover have "(case map snd (filter (\<lambda>f. fst f = key) fs) of [] \<Rightarrow> None | v # _ \<Rightarrow> Some v) = map_of fs key"
    by (induction fs) auto
  ultimately show ?thesis by (simp add: field_def map_filter_simps List.map_filter_def)
qed

subsection \<open>The report\<close>

definition ascii :: "string \<Rightarrow> bool" where
  "ascii s \<longleftrightarrow> (\<forall>c \<in> set s. of_char c < (128 :: nat))"

lemma ascii_simps [simp]: "ascii []" "ascii (c # s) \<longleftrightarrow> of_char c < (128 :: nat) \<and> ascii s" "ascii (s @ t) \<longleftrightarrow> ascii s \<and> ascii t"
  by (auto simp: ascii_def)

lemma lossy_ascii: "ascii s \<Longrightarrow> from_utf8_lossy (as_str_bytes s) = s"
proof -
  assume a: "ascii s"
  have "u8_of_char c < 0x80" if "c \<in> set s" for c
    using a that by (auto simp: ascii_def u8_of_char_def word_less_nat_alt unat_of_nat)
  then have "from_utf8_lossy (as_str_bytes s) = map char_of_u8 (as_str_bytes s)"
    by (intro from_utf8_lossy_ascii) (auto simp: as_str_bytes_def)
  then show ?thesis by (simp add: as_str_bytes_def map_idI)
qed

lemma plain_word_ascii: "plain_word s \<Longrightarrow> ascii s"
  unfolding plain_word_def ascii_def
proof
  fix c assume "s \<noteq> [] \<and> (\<forall>c \<in> set s. graphic c \<and> c \<noteq> dquote)" "c \<in> set s"
  then have "graphic c" by blast
  then show "of_char c < (128 :: nat)" by (simp add: graphic_def)
qed

lemma ascii_of_lines: "ascii (of_lines ls) \<longleftrightarrow> (\<forall>l \<in> set ls. ascii l)"
  by (induction ls) (simp_all add: of_lines_def)

lemma parse_unsigned_digits:
  assumes "2 \<le> radix" "radix \<le> 16" "n < bound"
  shows "parse_unsigned radix bound (digits_of radix n) = Some n"
proof -
  obtain ds where dl: "digit_list radix n ds" using digits_of_list [OF assms(1,2)] ..
  then have ds: "digits_of radix n = map ((!) hex_digits) ds" "\<forall>d \<in> set ds. d < radix" "ds \<noteq> []"
    "fold (\<lambda>d a. a * radix + d) ds 0 = n"
    by (simp_all add: digit_list_def)
  have "hex_digits ! d \<noteq> CHR ''+''" if "d < 16" for d
    using that nth_mem [of d hex_digits] by (auto simp: hex_digits_def)
  then have plus: "hd (map ((!) hex_digits) ds) \<noteq> CHR ''+''" using ds(2,3) assms(2) by (cases ds) auto
  obtain c r where cr: "map ((!) hex_digits) ds = c # r" "c \<noteq> CHR ''+''" using ds(3) plus by (cases ds) auto
  have "read_digits radix (c # r) = (ds, [])" using read_digits_map [OF ds(2) assms(2), of "[]"] cr(1) by simp
  then show ?thesis unfolding parse_unsigned_def ds(1) cr(1) using cr(2) ds(4) assms(3) by (simp add: Let_def)
qed

text \<open>C33: for launchctl's text of the shape the repository's test has (fields of one word, no nested blocks), whatever the order of its lines and whatever
  other jobs and fields it lists, the status command reports the job as loaded, disabled exactly where
  launchd marks this service disabled, in launchd's first state and with its first process id; and it shows the socket exactly where there is
  one, under the name of its owner, or under the number of an owner that has no name.\<close>

theorem status_reads_launchd:
  assumes "on_macos env"
    "launchctl_run env [''print-disabled'', ''system''] (jobs m) = (Some d, l1)"
    "ctl_success d" "ctl_stdout d = as_str_bytes (disabled_text es)" "\<forall>e \<in> set es. plain_word (fst e)"
    "launchctl_run env [''print'', domain] l1 = (Some p, l2)"
    "ctl_success p" "ctl_stdout p = as_str_bytes (print_text fs)"
    "\<forall>f \<in> set fs. plain_word (fst f) \<and> plain_value (snd f) \<and> ascii (snd f)"
  shows "\<exists>r. status env m = (Inr r, m\<lparr>jobs := l2\<rparr>) \<and> rp_loaded r \<and>
      (rp_disabled r \<longleftrightarrow> (LABEL, True) \<in> set es) \<and>
      rp_state r = (case map_of fs ''state'' of None \<Rightarrow> ''loaded'' | Some w \<Rightarrow> w) \<and>
      (map_of fs ''pid'' = None \<longrightarrow> rp_pid r = None) \<and>
      (\<forall>n < 2 ^ 32. map_of fs ''pid'' = Some (digits_of 10 n) \<longrightarrow> rp_pid r = Some n) \<and>
      (rp_socket r = None \<longleftrightarrow> metadata_uid env SOCKET = None) \<and> (rp_socket r \<noteq> None \<longrightarrow> rp_socket r = Some SOCKET) \<and>
      (\<forall>uid. metadata_uid env SOCKET = Some uid \<longrightarrow>
         (getpwuid env uid = None \<longrightarrow> rp_socket_owner r = Some (digits_of 10 uid)) \<and>
         (\<forall>name. ascii name \<and> getpwuid env uid = Some (as_str_bytes name) \<longrightarrow> rp_socket_owner r = Some name))"
proof -
  have words: "plain_word LABEL" "plain_word ''state''" "plain_word ''pid''" "''state'' \<noteq> domain" "''pid'' \<noteq> domain"
    by (simp_all add: plain_word_def graphic_def LABEL_def domain_def)
  have "ascii (disabled_text es)" "ascii (print_text fs)"
    using assms(5,9) plain_word_ascii
    by (auto simp: disabled_text_def print_text_def ascii_of_lines disabled_line_def field_text_def domain_def LABEL_def)
  note texts = this [THEN lossy_ascii]
  have label: "label_disabled (disabled_text es) LABEL \<longleftrightarrow> (LABEL, True) \<in> set es"
    by (rule label_disabled_read [OF assms(5) words(1)])
  have fields: "field (print_text fs) ''state'' = map_of fs ''state''" "field (print_text fs) ''pid'' = map_of fs ''pid''"
    using assms(9) words by (auto intro!: field_read)
  show ?thesis
    using assms(1-4,6-8) parse_unsigned_digits [of 10 _ "2 ^ 32"]
    by (simp add: status_def require_macos_def and_then_def gather_def launchctl_stdout_def launchctl_output_def
        texts label fields report_def state_word_def socket_owner_def lossy_ascii split: option.splits)
qed

definition plain_answers :: "string list \<Rightarrow> string" where
  "plain_answers args =
     (if args = [''print'', domain] then print_text [(''path'', PLIST), (''state'', ''running''), (''pid'', digits_of 10 4242), (''state'', ''active'')]
      else disabled_text [(''other'', True), (LABEL, False)])"

theorem status_reads_launchd_witness:
  "\<exists>r. status (plain_mac_env plain_answers (\<lambda>_. True)) plain_installed = (Inr r, plain_installed) \<and>
     \<not> rp_disabled r \<and> rp_state r = ''running'' \<and> rp_pid r = Some 4242 \<and> rp_socket_owner r = Some ''root''"
proof -
  let ?env = "plain_mac_env plain_answers (\<lambda>_. True)"
  let ?fs = "[(''path'', PLIST), (''state'', ''running''), (''pid'', digits_of 10 4242), (''state'', ''active'')]"
  let ?r = "\<lambda>out. \<lparr>ctl_success = True, ctl_status = ''0'', ctl_stdout = as_str_bytes out, ctl_stderr = []\<rparr>"
  have j: "jobs plain_installed = (True, False)" by (simp add: plain_installed_def)
  have d: "launchctl_run ?env [''print-disabled'', ''system''] (jobs plain_installed) =
      (Some (?r (disabled_text [(''other'', True), (LABEL, False)])), (True, False))"
    by (simp add: plain_launchctl_def plain_answers_def j)
  have p: "launchctl_run ?env [''print'', domain] (True, False) = (Some (?r (print_text ?fs)), (True, False))"
    by (simp add: plain_launchctl_def plain_answers_def)
  have f: "\<forall>f \<in> set ?fs. plain_word (fst f) \<and> plain_value (snd f) \<and> ascii (snd f)"
    by (simp add: plain_word_def plain_value_def graphic_def PLIST_def digits_of.simps hex_digits_def)
  have e: "\<forall>e \<in> set [(''other'', True), (LABEL, False)]. plain_word (fst e)"
    by (simp add: plain_word_def graphic_def LABEL_def)
  have o: "ascii ''root''" "metadata_uid ?env SOCKET = Some 0" "getpwuid ?env 0 = Some (as_str_bytes ''root'')"
    by (simp_all add: plain_mac_env_def)
  show ?thesis
    using status_reads_launchd [OF _ d _ _ e p _ _ f] o by (auto simp: j LABEL_def plain_installed_def)
qed

end
