(* ===== verification/Tun_Device.thy ===== *)
theory Tun_Device
  imports Netstack
begin

text \<open>
  Opening the device of the TUN backend (\<open>open_tun\<close> and \<open>spawn\<close> in \<open>src/netstack.rs\<close>): the buffers that
  are handed to the kernel byte for byte, the order of the system calls and commands, and what is
  left behind where one of them fails. What the kernel and the commands answer is the record
  \<open>tun_sys\<close>. A panic is None.
\<close>

subsection \<open>Buffers\<close>

text \<open>\<open>buf[i..i + n].copy_from_slice(xs)\<close>, which panics out of range.\<close>

definition put_slice :: "nat \<Rightarrow> bytes \<Rightarrow> bytes \<Rightarrow> bytes option" where
  "put_slice i xs buf =
     (if i + length xs \<le> length buf then Some (take i buf @ xs @ drop (i + length xs) buf) else None)"

text \<open>\<open>IFF_TUN | IFF_NO_PI\<close> in the order of bytes of the machine.\<close>

definition tun_flags :: "bool \<Rightarrow> bytes" where
  "tun_flags big_endian = (let be = u16_to_be (or 0x0001 0x1000) in if big_endian then be else rev be)"

definition ifreq :: "bool \<Rightarrow> string \<Rightarrow> bytes option" where
  "ifreq big_endian name =
     Option.bind (put_slice 0 (as_str_bytes name) (replicate 40 0)) (put_slice 16 (tun_flags big_endian))"

definition UTUN_CONTROL :: string where
  "UTUN_CONTROL = ''com.apple.net.utun_control''"

definition ctl_name :: "bytes option" where
  "ctl_name = put_slice 0 (as_str_bytes UTUN_CONTROL) (replicate 96 0)"

record sockaddr_ctl =
  sc_len :: u8
  sc_family :: u8
  ss_sysaddr :: u16
  sc_id :: "32 word"
  sc_unit :: "32 word"

definition utun_addr :: "32 word \<Rightarrow> sockaddr_ctl" where
  "utun_addr ctl_id = \<lparr>sc_len = 32, sc_family = 32, ss_sysaddr = 2, sc_id = ctl_id, sc_unit = 0\<rparr>"

text \<open>\<open>from_utf8\<close> of the name without its final NUL, with \<open>utun\<close> where it is not UTF-8.\<close>

definition interface_name :: "bytes \<Rightarrow> nat \<Rightarrow> string option" where
  "interface_name namebuf len =
     (if len - 1 \<le> length namebuf then
        (let bs = take (len - 1) namebuf
         in Some (if utf8_lossy_bytes bs = bs then map char_of_u8 bs else ''utun''))
      else None)"

subsection \<open>Opening the device\<close>

record tun_sys =
  sys_big_endian :: bool
  sys_open :: int
  sys_tunsetiff :: "bytes \<Rightarrow> int"
  sys_ctlinfo :: "bytes \<Rightarrow> int \<times> 32 word"
  sys_connect :: "sockaddr_ctl \<Rightarrow> int"
  sys_ifname :: "int \<times> bytes \<times> nat"
  sys_getfl :: int
  sys_exec :: exec
  sys_capture :: bool

text \<open>What the process has done: descriptors it has open, commands it ran, flags it set on a
  descriptor.\<close>

record tun_trace =
  td_open :: "int list"
  td_commands :: "(string \<times> string list) list"
  td_setfl :: "(int \<times> int) list"

fun O_NONBLOCK :: "platform \<Rightarrow> int" where
  "O_NONBLOCK MacOS = 4"
| "O_NONBLOCK _ = 2048"

definition set_nonblocking :: "platform \<Rightarrow> tun_sys \<Rightarrow> int \<Rightarrow> tun_trace \<Rightarrow> tun_trace" where
  "set_nonblocking os s fd d = d\<lparr>td_setfl := td_setfl d @ [(fd, or (sys_getfl s) (O_NONBLOCK os))]\<rparr>"

definition open_tun_linux :: "tun_sys \<Rightarrow> string \<Rightarrow> tun_trace \<Rightarrow> (int result \<times> tun_trace) option" where
  "open_tun_linux s name d =
     (let fd = sys_open s in
      if fd < 0 then Some (Inl (TunFailed ''open /dev/net/tun failed''), d)
      else let d = d\<lparr>td_open := td_open d @ [fd]\<rparr> in
        if \<not> length name < 16 then Some (Inl (TunFailed ''tun name too long''), d)
        else case ifreq (sys_big_endian s) name of
               None \<Rightarrow> None
             | Some ifr \<Rightarrow>
                 if sys_tunsetiff s ifr < 0 then Some (Inl (TunFailed (''TUNSETIFF '' @ name @ '' failed'')), d)
                 else Some (Inr fd, set_nonblocking Linux s fd d))"

definition run_logged :: "tun_sys \<Rightarrow> string \<Rightarrow> string list \<Rightarrow> tun_trace \<Rightarrow> unit result \<times> tun_trace" where
  "run_logged s cmd args d = (run (sys_exec s) cmd args, d\<lparr>td_commands := td_commands d @ [(cmd, args)]\<rparr>)"

definition ifconfig_args :: "string \<Rightarrow> string list" where
  "ifconfig_args ifname = [ifname, ''10.99.0.1'', ''10.99.0.2'', ''up'']"

definition route_args :: "string \<Rightarrow> string list" where
  "route_args ifname = [''-q'', ''-n'', ''add'', ''-net'', ''10.99.0.0/16'', ''-interface'', ifname]"

text \<open>Address and route of the interface, the last steps on macOS.\<close>

definition configure_utun :: "tun_sys \<Rightarrow> int \<Rightarrow> string \<Rightarrow> tun_trace \<Rightarrow> int result \<times> tun_trace" where
  "configure_utun s fd ifname d =
     (case run_logged s ''ifconfig'' (ifconfig_args ifname) d of
        (Inl e, d) \<Rightarrow> (Inl e, d)
      | (Inr _, d) \<Rightarrow>
          (case run_logged s ''route'' (route_args ifname) d of
             (Inl e, d) \<Rightarrow> (Inl e, d)
           | (Inr _, d) \<Rightarrow> (Inr fd, set_nonblocking MacOS s fd d)))"

definition open_tun_macos :: "tun_sys \<Rightarrow> tun_trace \<Rightarrow> (int result \<times> tun_trace) option" where
  "open_tun_macos s d =
     (let fd = sys_open s in
      if fd < 0 then Some (Inl (TunFailed ''utun socket failed''), d)
      else let d = d\<lparr>td_open := td_open d @ [fd]\<rparr> in
        case ctl_name of
          None \<Rightarrow> None
        | Some name \<Rightarrow>
            (case sys_ctlinfo s name of (r, ctl_id) \<Rightarrow>
              if r < 0 then Some (Inl (TunFailed ''CTLIOCGINFO failed''), d)
              else if sys_connect s (utun_addr ctl_id) < 0 then Some (Inl (TunFailed ''utun connect failed''), d)
              else case sys_ifname s of (r, namebuf, len) \<Rightarrow>
                if r < 0 then Some (Inl (TunFailed ''UTUN_OPT_IFNAME failed''), d)
                else case interface_name namebuf len of
                       None \<Rightarrow> None
                     | Some ifname \<Rightarrow> Some (configure_utun s fd ifname d)))"

fun open_tun :: "platform \<Rightarrow> tun_sys \<Rightarrow> string \<Rightarrow> tun_trace \<Rightarrow> (int result \<times> tun_trace) option" where
  "open_tun MacOS s name d = open_tun_macos s d"
| "open_tun _ s name d = open_tun_linux s name d"

text \<open>\<open>spawn\<close>: the device, and on it a stack with no names and no listeners. The structure that holds the
  descriptor does not close it.\<close>

definition spawn :: "platform \<Rightarrow> tun_sys \<Rightarrow> string \<Rightarrow> tun_trace \<Rightarrow> (netstack result \<times> tun_trace) option" where
  "spawn os s name d =
     (case open_tun os s name d of
        None \<Rightarrow> None
      | Some (Inl e, d) \<Rightarrow> Some (Inl e, d)
      | Some (Inr fd, d) \<Rightarrow>
          Some (if sys_capture s then Inr netstack_new else Inl (TunFailed ''failed to create tun async device''), d))"

subsection \<open>Lemmas\<close>

lemma length_as_str_bytes [simp]: "length (as_str_bytes s) = length s"
  by (simp add: as_str_bytes_def)

lemma length_tun_flags [simp]: "length (tun_flags be) = 2"
  by (simp add: tun_flags_def u16_to_be_def Let_def)

lemma ifreq_bytes:
  assumes "length name < 16"
  shows "ifreq be name = Some (as_str_bytes name @ replicate (16 - length name) 0 @ tun_flags be @ replicate 22 0)"
  using assms by (simp add: ifreq_def put_slice_def)

lemma ctl_name_bytes: "ctl_name = Some (as_str_bytes UTUN_CONTROL @ replicate 70 0)"
  by (simp add: ctl_name_def put_slice_def UTUN_CONTROL_def)

text \<open>What the commands answered.\<close>

abbreviation succeeds :: "exec \<Rightarrow> string \<Rightarrow> string list \<Rightarrow> bool" where
  "succeeds ex cmd args \<equiv> \<exists>err. ex cmd args = Exited True err"

lemma run_ok_iff: "run ex cmd args = Inr u \<longleftrightarrow> succeeds ex cmd args"
  by (auto simp: run_def split: exec_outcome.splits)

lemma configure_utun_ok:
  "\<exists>r d'. configure_utun s fd ifname d = (r, d') \<and> td_open d' = td_open d \<and>
     (\<forall>x. r = Inr x \<longleftrightarrow> x = fd \<and> succeeds (sys_exec s) ''ifconfig'' [ifname, ''10.99.0.1'', ''10.99.0.2'', ''up''] \<and>
        succeeds (sys_exec s) ''route'' [''-q'', ''-n'', ''add'', ''-net'', ''10.99.0.0/16'', ''-interface'', ifname]) \<and>
     (isl r \<longrightarrow> td_setfl d' = td_setfl d) \<and>
     (\<not> isl r \<longrightarrow> td_setfl d' = td_setfl d @ [(fd, or (sys_getfl s) 4)] \<and>
        td_commands d' = td_commands d @ [(''ifconfig'', [ifname, ''10.99.0.1'', ''10.99.0.2'', ''up'']),
          (''route'', [''-q'', ''-n'', ''add'', ''-net'', ''10.99.0.0/16'', ''-interface'', ifname])])"
proof -
  note defs = configure_utun_def run_logged_def set_nonblocking_def ifconfig_args_def route_args_def
  show ?thesis
  proof (cases "run (sys_exec s) ''ifconfig'' (ifconfig_args ifname)")
    case (Inl e)
    then show ?thesis using run_ok_iff [of "sys_exec s" "''ifconfig''" "ifconfig_args ifname"] by (auto simp: defs)
  next
    case (Inr u)
    then show ?thesis
      using run_ok_iff [of "sys_exec s" "''ifconfig''" "ifconfig_args ifname"]
        run_ok_iff [of "sys_exec s" "''route''" "route_args ifname"]
      by (cases "run (sys_exec s) ''route'' (route_args ifname)") (auto simp: defs)
  qed
qed

text \<open>The request for a TUN without packet information, byte for byte: the name, padded with NULs to
  sixteen bytes, and the flags 0x1001 in the order of the machine.\<close>

lemma tun_flags_bytes: "tun_flags be = (if be then [0x10, 0x01] else [0x01, 0x10])"
  by (simp add: tun_flags_def u16_to_be_def Let_def)

lemma open_tun_linux_cases:
  "open_tun_linux s name d =
     Some (if sys_open s < 0 then (Inl (TunFailed ''open /dev/net/tun failed''), d)
           else if 16 \<le> length name then (Inl (TunFailed ''tun name too long''), d\<lparr>td_open := td_open d @ [sys_open s]\<rparr>)
           else if sys_tunsetiff s (as_str_bytes name @ replicate (16 - length name) 0 @
                  (if sys_big_endian s then [0x10, 0x01] else [0x01, 0x10]) @ replicate 22 0) < 0
           then (Inl (TunFailed (''TUNSETIFF '' @ name @ '' failed'')), d\<lparr>td_open := td_open d @ [sys_open s]\<rparr>)
           else (Inr (sys_open s), set_nonblocking Linux s (sys_open s) (d\<lparr>td_open := td_open d @ [sys_open s]\<rparr>)))"
  by (simp add: open_tun_linux_def Let_def ifreq_bytes not_less tun_flags_bytes)

text \<open>The documented answer of the kernel: the name of the interface, in ASCII, with its final NUL, and its length
  counting the NUL.\<close>

definition kernel_names :: "tun_sys \<Rightarrow> string \<Rightarrow> bool" where
  "kernel_names s ifname \<longleftrightarrow>
     snd (snd (sys_ifname s)) = Suc (length ifname) \<and>
     take (Suc (length ifname)) (fst (snd (sys_ifname s))) = as_str_bytes ifname @ [0] \<and>
     (\<forall>c \<in> set ifname. of_char c < (128 :: nat))"

lemma kernel_names_read:
  assumes "kernel_names s ifname"
  shows "interface_name (fst (snd (sys_ifname s))) (snd (snd (sys_ifname s))) = Some ifname"
proof -
  let ?buf = "fst (snd (sys_ifname s))"
  have k: "snd (snd (sys_ifname s)) = Suc (length ifname)" "take (Suc (length ifname)) ?buf = as_str_bytes ifname @ [0]"
    "\<forall>c \<in> set ifname. of_char c < (128 :: nat)"
    using assms by (simp_all add: kernel_names_def)
  have "length (take (Suc (length ifname)) ?buf) = Suc (length ifname)" unfolding k(2) by simp
  then have "length ifname \<le> length ?buf" by simp
  moreover have "take (length ifname) (take (Suc (length ifname)) ?buf) = as_str_bytes ifname" unfolding k(2) by simp
  then have t: "take (length ifname) ?buf = as_str_bytes ifname" by (simp add: min_def)
  have "u8_of_char c < 0x80" if "c \<in> set ifname" for c
    using k(3) that by (auto simp: u8_of_char_def word_less_nat_alt unat_of_nat)
  then have "utf8_lossy_bytes (as_str_bytes ifname) = as_str_bytes ifname"
    by (induction ifname) (simp_all add: as_str_bytes_def)
  moreover have "map char_of_u8 (as_str_bytes ifname) = ifname" by (simp add: as_str_bytes_def map_idI)
  ultimately show ?thesis using k(1) t by (simp add: interface_name_def Let_def)
qed

text \<open>The control socket is asked for the control of utun interfaces, and connected to it with any unit free.\<close>

abbreviation utun_info :: bytes where
  "utun_info \<equiv> as_str_bytes ''com.apple.net.utun_control'' @ replicate 70 0"

abbreviation utun_control_addr :: "tun_sys \<Rightarrow> sockaddr_ctl" where
  "utun_control_addr s \<equiv>
     \<lparr>sc_len = 32, sc_family = 32, ss_sysaddr = 2, sc_id = snd (sys_ctlinfo s utun_info), sc_unit = 0\<rparr>"

lemma open_tun_macos_cases:
  assumes "kernel_names s ifname"
  obtains e where "open_tun_macos s d = Some (Inl e, d)" "sys_open s < 0"
  | e where "open_tun_macos s d = Some (Inl e, d\<lparr>td_open := td_open d @ [sys_open s]\<rparr>)" "0 \<le> sys_open s"
      "fst (sys_ctlinfo s utun_info) < 0 \<or> sys_connect s (utun_control_addr s) < 0 \<or> fst (sys_ifname s) < 0"
  | "0 \<le> sys_open s" "0 \<le> fst (sys_ctlinfo s utun_info)" "0 \<le> sys_connect s (utun_control_addr s)" "0 \<le> fst (sys_ifname s)"
      "open_tun_macos s d = Some (configure_utun s (sys_open s) ifname (d\<lparr>td_open := td_open d @ [sys_open s]\<rparr>))"
proof -
  obtain r ctl_id where c: "sys_ctlinfo s utun_info = (r, ctl_id)" by fastforce
  obtain r' buf len where i: "sys_ifname s = (r', buf, len)" by (cases "sys_ifname s") auto
  have n: "interface_name buf len = Some ifname" using kernel_names_read [OF assms] i by simp
  have u: "utun_addr ctl_id = utun_control_addr s" "ctl_name = Some utun_info"
    using c by (simp_all add: utun_addr_def ctl_name_bytes UTUN_CONTROL_def)
  consider "sys_open s < 0" | "0 \<le> sys_open s" "r < 0 \<or> sys_connect s (utun_control_addr s) < 0 \<or> r' < 0"
    | "0 \<le> sys_open s" "0 \<le> r" "0 \<le> sys_connect s (utun_control_addr s)" "0 \<le> r'" by linarith
  then show thesis
  proof cases
    case 1
    then show thesis using that(1) by (simp add: open_tun_macos_def)
  next
    case 2
    then have "\<exists>e. open_tun_macos s d = Some (Inl e, d\<lparr>td_open := td_open d @ [sys_open s]\<rparr>)"
      by (auto simp: open_tun_macos_def Let_def u c i simp del: as_str_bytes_def)
    then show thesis using that(2) 2 c i by auto
  next
    case 3
    then show thesis using that(3) c i by (simp add: open_tun_macos_def Let_def u c i n)
  qed
qed

subsection \<open>Properties\<close>

lemma open_tun_linux_opens:
  "\<exists>r d'. open_tun_linux s name d = Some (r, d') \<and>
    td_open d' = td_open d @ (if 0 \<le> sys_open s then [sys_open s] else []) \<and> td_commands d' = td_commands d \<and>
    (\<forall>fd. r = Inr fd \<longleftrightarrow> fd = sys_open s \<and> 0 \<le> fd \<and> length name < 16 \<and>
       0 \<le> sys_tunsetiff s (as_str_bytes name @ replicate (16 - length name) 0 @
         (if sys_big_endian s then [0x10, 0x01] else [0x01, 0x10]) @ replicate 22 0)) \<and>
    td_setfl d' = td_setfl d @ (if isl r then [] else [(sys_open s, or (sys_getfl s) 2048)])"
  unfolding open_tun_linux_cases by (auto simp: set_nonblocking_def)

lemma open_tun_macos_opens:
  assumes "kernel_names s ifname"
  shows "\<exists>r d'. open_tun_macos s d = Some (r, d') \<and>
    td_open d' = td_open d @ (if 0 \<le> sys_open s then [sys_open s] else []) \<and>
    (\<forall>fd. r = Inr fd \<longleftrightarrow> fd = sys_open s \<and> 0 \<le> fd \<and> 0 \<le> fst (sys_ctlinfo s utun_info) \<and>
       0 \<le> sys_connect s (utun_control_addr s) \<and> 0 \<le> fst (sys_ifname s) \<and>
       succeeds (sys_exec s) ''ifconfig'' [ifname, ''10.99.0.1'', ''10.99.0.2'', ''up''] \<and>
       succeeds (sys_exec s) ''route'' [''-q'', ''-n'', ''add'', ''-net'', ''10.99.0.0/16'', ''-interface'', ifname]) \<and>
    td_setfl d' = td_setfl d @ (if isl r then [] else [(sys_open s, or (sys_getfl s) 4)]) \<and>
    (\<not> isl r \<longrightarrow> td_commands d' = td_commands d @ [(''ifconfig'', [ifname, ''10.99.0.1'', ''10.99.0.2'', ''up'']),
       (''route'', [''-q'', ''-n'', ''add'', ''-net'', ''10.99.0.0/16'', ''-interface'', ifname])])"
proof (rule open_tun_macos_cases [OF assms, of d])
  assume o: "0 \<le> sys_open s" "0 \<le> fst (sys_ctlinfo s utun_info)" "0 \<le> sys_connect s (utun_control_addr s)" "0 \<le> fst (sys_ifname s)"
    and m: "open_tun_macos s d = Some (configure_utun s (sys_open s) ifname (d\<lparr>td_open := td_open d @ [sys_open s]\<rparr>))"
  then show ?thesis
    using configure_utun_ok [of s "sys_open s" ifname "d\<lparr>td_open := td_open d @ [sys_open s]\<rparr>"] by fastforce
qed auto


definition plain_tun :: tun_sys where
  "plain_tun =
     \<lparr>sys_big_endian = False, sys_open = 5, sys_tunsetiff = (\<lambda>_. 0), sys_ctlinfo = (\<lambda>_. (0, 3)), sys_connect = (\<lambda>_. 0),
      sys_ifname = (0, [117, 116, 117, 110, 52, 0] @ replicate 26 0, 6), sys_getfl = 2, sys_exec = (\<lambda>_ _. Exited True []), sys_capture = True\<rparr>"


end
