(* ===== verification/Boot.thy ===== *)
theory Boot
  imports Client Launchd_Status Tun_Device
begin

text \<open>
  The start of the daemon process: \<open>run\<close> in \<open>src/daemon.rs\<close>, from its arguments to the moment it
  serves the control socket. The tasks it spawns on the way are modelled where their code is.
\<close>

subsection \<open>The control socket\<close>

record control_socket =
  cs_owner :: "(nat \<times> nat) option"
  cs_mode :: "nat option"
  cs_serving :: bool

text \<open>What the system has: the devices, the users, and whether its calls work. \<open>b_files\<close> gives the key
  file of a path and \<open>b_state\<close> the file of any other; \<open>b_stale_socket\<close> says whether an earlier daemon left a file at the path
  of the control socket, and \<open>b_removes_socket\<close> whether it can be removed.\<close>

record boot_env =
  b_env :: env
  b_bind_endpoint :: "bytes \<Rightarrow> endpoint_id option"
  b_generated :: bytes
  b_tun :: tun_sys
  b_files :: "string \<Rightarrow> key_file"
  b_state :: "string \<Rightarrow> state_file"
  b_xdg_state_home :: "string option"
  b_home :: "string option"
  b_stale_socket :: bool
  b_removes_socket :: bool
  b_binds_socket :: bool
  b_getpwnam :: "string \<Rightarrow> (nat \<times> nat) option"
  b_chown_works :: bool
  b_chmod_works :: bool

definition set_socket_owner :: "boot_env \<Rightarrow> string \<Rightarrow> string \<Rightarrow> control_socket \<Rightarrow> control_socket result" where
  "set_socket_owner b path user cs =
     (if CHR 0x00 \<in> set user then Inl InvalidSocketOwner
      else case b_getpwnam b user of
        None \<Rightarrow> Inl (UnknownSocketOwner user)
      | Some owner \<Rightarrow>
          if CHR 0x00 \<in> set path then Inl BadSocketPath
          else if \<not> b_chown_works b then Inl (Chown path)
          else Inr (cs\<lparr>cs_owner := Some owner\<rparr>))"

definition set_socket_mode :: "boot_env \<Rightarrow> string \<Rightarrow> string \<Rightarrow> control_socket \<Rightarrow> control_socket result" where
  "set_socket_mode b path mode_text cs =
     (case parse_unsigned 8 (2 ^ 32) mode_text of
        None \<Rightarrow> Inl (InvalidSocketMode mode_text)
      | Some md \<Rightarrow> if \<not> b_chmod_works b then Inl (Chmod path) else Inr (cs\<lparr>cs_mode := Some md\<rparr>))"

definition if_given :: "'a option \<Rightarrow> ('a \<Rightarrow> 'b \<Rightarrow> 'b result) \<Rightarrow> 'b \<Rightarrow> 'b result" where
  "if_given x f y = (case x of None \<Rightarrow> Inr y | Some v \<Rightarrow> f v y)"

text \<open>What is left at the path of the control socket of an earlier daemon, once it was removed if it could be. Nothing binds to a
  path that is taken.\<close>

definition left_socket :: "boot_env \<Rightarrow> bool" where
  "left_socket b \<longleftrightarrow> b_stale_socket b \<and> \<not> b_removes_socket b"

text \<open>Bound, then handed over, and only then served.\<close>

definition open_control_socket :: "boot_env \<Rightarrow> string \<Rightarrow> daemon_args \<Rightarrow> control_socket result" where
  "open_control_socket b path d =
     (if left_socket b \<or> \<not> b_binds_socket b then Inl FailedToBindSocket
      else case if_given (arg_socket_owner d) (set_socket_owner b path) \<lparr>cs_owner = None, cs_mode = None, cs_serving = False\<rparr> of
        Inl e \<Rightarrow> Inl e
      | Inr cs \<Rightarrow>
          (case if_given (arg_socket_mode d) (set_socket_mode b path) cs of
             Inl e \<Rightarrow> Inl e
           | Inr cs' \<Rightarrow> Inr (cs'\<lparr>cs_serving := True\<rparr>)))"

subsection \<open>The start\<close>

text \<open>A TUN device that cannot be opened leaves the daemon on the loopback backend. A panic is None.\<close>

definition boot_netstack :: "boot_env \<Rightarrow> daemon_args \<Rightarrow> netstack option option" where
  "boot_netstack b d =
     map_option (\<lambda>ns. self_surface ns (arg_name d) (arg_host d))
       (case arg_tun d of
          None \<Rightarrow> Some None
        | Some dev \<Rightarrow>
            (case spawn (e_os (b_env b)) (b_tun b) dev \<lparr>td_open = [], td_commands = [], td_setfl = []\<rparr> of
               None \<Rightarrow> None
             | Some (Inl _, _) \<Rightarrow> Some None
             | Some (Inr ns, _) \<Rightarrow> Some (Some ns)))"

definition boot_key_path :: "boot_env \<Rightarrow> daemon_args \<Rightarrow> string" where
  "boot_key_path b d =
     (case arg_key_path d of Some p \<Rightarrow> p | None \<Rightarrow> default_key_path (b_xdg_state_home b) (b_home b))"

definition boot_daemon :: "boot_env \<Rightarrow> daemon_args \<Rightarrow> pm result option" where
  "boot_daemon b d =
     (let path = boot_key_path b d
      in map_option (\<lambda>ns.
           fst (daemon_new (b_env b) (b_bind_endpoint b) (b_files b path) (b_generated b) (arg_host d)
             (b_state b (path @ ''.peers.json'')) (b_state b (path @ ''.surfaces.json'')) ns (arg_name d)))
         (boot_netstack b d))"

definition daemon_main :: "boot_env \<Rightarrow> string \<Rightarrow> daemon_args \<Rightarrow> (pm \<times> control_socket) result option" where
  "daemon_main b path d =
     map_option (\<lambda>started.
       case started of
         Inl e \<Rightarrow> Inl e
       | Inr m0 \<Rightarrow>
           let m = run_startup (b_env b) m0 (arg_accept d) (arg_ports d)
           in (case open_control_socket b path d of
                 Inl e \<Rightarrow> Inl e
               | Inr cs \<Rightarrow> Inr (m, cs)))
       (boot_daemon b d)"

subsection \<open>Lemmas\<close>

lemma open_control_socket_ok:
  assumes "open_control_socket b path d = Inr cs"
  shows "cs_serving cs" "b_stale_socket b \<longrightarrow> b_removes_socket b" "cs_owner cs = Option.bind (arg_socket_owner d) (b_getpwnam b)"
    "arg_socket_owner d \<noteq> None \<longrightarrow> cs_owner cs \<noteq> None"
    "cs_mode cs = Option.bind (arg_socket_mode d) (parse_unsigned 8 (2 ^ 32))"
    "arg_socket_mode d \<noteq> None \<longrightarrow> cs_mode cs \<noteq> None"
  using assms
  by (auto simp: open_control_socket_def left_socket_def if_given_def set_socket_owner_def set_socket_mode_def
      split: if_splits option.splits sum.splits)

lemma boot_daemon_ok:
  assumes "boot_daemon b d = Some (Inr m0)"
  obtains me ns key where
    "with_endpoint (b_env b) me (arg_host d) (b_state b (boot_key_path b d @ ''.peers.json''))
       (b_state b (boot_key_path b d @ ''.surfaces.json'')) ns (arg_name d) = Inr m0"
    "fst (load_or_create_key (b_files b (boot_key_path b d)) (b_generated b)) = Inr key" "b_bind_endpoint b key = Some me"
proof -
  obtain key kf where key: "load_or_create_key (b_files b (boot_key_path b d)) (b_generated b) = (Inr key, kf)"
    using assms unfolding boot_daemon_def daemon_new_def Let_def
    by (cases "load_or_create_key (b_files b (boot_key_path b d)) (b_generated b)"; cases "fst (load_or_create_key (b_files b (boot_key_path b d)) (b_generated b))")
      auto
  with assms obtain me ns where "b_bind_endpoint b key = Some me" "boot_netstack b d = Some ns"
    unfolding boot_daemon_def daemon_new_def Let_def by (cases "b_bind_endpoint b key") auto
  with key assms show thesis using that [of me ns key] by (simp add: boot_daemon_def daemon_new_def Let_def)
qed

lemma daemon_main_ok:
  assumes "daemon_main b path d = Some (Inr (m, cs))"
  obtains m0 me ns where "m = run_startup (b_env b) m0 (arg_accept d) (arg_ports d)" "open_control_socket b path d = Inr cs"
    "with_endpoint (b_env b) me (arg_host d) (b_state b (boot_key_path b d @ ''.peers.json''))
       (b_state b (boot_key_path b d @ ''.surfaces.json'')) ns (arg_name d) = Inr m0"
proof -
  obtain m0 where m0: "boot_daemon b d = Some (Inr m0)" and cs: "open_control_socket b path d = Inr cs"
    and m: "m = run_startup (b_env b) m0 (arg_accept d) (arg_ports d)"
    using assms unfolding daemon_main_def Let_def
    by (cases "boot_daemon b d"; cases "the (boot_daemon b d)"; cases "open_control_socket b path d") auto
  show thesis by (rule boot_daemon_ok [OF m0]) (rule that [OF m cs])
qed

lemma admitted_add_peer:
  assumes "pm_wf m"
  shows "admission_of (pm_session (snd (add_peer m key name code))) k =
    (if k = key \<and> admission_of (pm_session m) k = None then Some Added else admission_of (pm_session m) k)"
  using member_iff_admitted [OF assms] pm_wfD(1) [OF assms]
  by (auto simp: add_peer_def core_install admit_known_def admission_of_def map_of_bput session_wf_def split: option.splits)

lemma admitted_accepts:
  "pm_wf m \<Longrightarrow> admission_of (pm_session (fold (\<lambda>h m. snd (add_peer m (handle_key h) None (handle_code h))) hs m)) k =
    (if k \<in> handle_key ` set hs \<and> admission_of (pm_session m) k = None then Some Added else admission_of (pm_session m) k)"
proof (induction hs arbitrary: m)
  case (Cons h hs)
  have "pm_wf (snd (add_peer m (handle_key h) None (handle_code h)))" by (rule pm_wf_add_peer [OF Cons.prems])
  then show ?case using Cons.IH admitted_add_peer [OF Cons.prems, of "handle_key h" None "handle_code h" k] by auto
qed simp

lemma admitted_exposes:
  "admission_of (pm_session (fold (\<lambda>port m. d_expose env m port ks) ps m)) k = admission_of (pm_session m) k"
proof (induction ps arbitrary: m)
  case (Cons p ps)
  have "admission_of (pm_session (d_expose env m p ks)) k = admission_of (pm_session m) k"
    by (simp add: d_expose_def session_broadcast expose_def Let_def admission_of_def)
  then show ?case using Cons by simp
qed simp

lemma admitted_startup:
  assumes "pm_wf m"
  shows "admission_of (pm_session (run_startup env m accept ports)) k =
    (if k \<in> handle_key ` set (parsed_handles env accept) \<and> admission_of (pm_session m) k = None then Some Added
     else admission_of (pm_session m) k)"
proof -
  let ?ks = "map handle_key (parsed_handles env accept)"
  have "pm_wf (fold (\<lambda>port m. d_expose env m port ?ks) ports m)"
    using assms by (induction ports arbitrary: m) (simp_all add: pm_wf_expose)
  from admitted_accepts [OF this, of "parsed_handles env accept" k]
  show ?thesis by (simp add: run_startup_def Let_def session_broadcast admitted_exposes)
qed

subsection \<open>Properties\<close>

text \<open>C17: a daemon that starts is what its files and its arguments say. By the time it serves the control socket
  the socket has the owner and the mode asked for, the mode read as octal, and no file of an earlier daemon was in the way.
  Its peers are exactly the keys pinned in the file beside its key, admitted by key, and the keys of the
  \<open>--accept\<close> handles, admitted as added unless they are pinned; and the \<open>-e\<close> ports are granted to the accepted keys and to
  no one else, nothing else being granted to anyone.\<close>

theorem daemon_starts_as_asked:
  assumes "daemon_main b path d = Some (Inr (m, cs))"
  shows "cs_serving cs \<and> (b_stale_socket b \<longrightarrow> b_removes_socket b) \<and>
    (\<forall>u. arg_socket_owner d = Some u \<longrightarrow> cs_owner cs = b_getpwnam b u \<and> cs_owner cs \<noteq> None) \<and>
    (\<forall>n < 2 ^ 32. arg_socket_mode d = Some (digits_of 8 n) \<longrightarrow> cs_mode cs = Some n) \<and>
    (\<forall>k p. on_tunnel (pm_session m) k p = ServeTunnel p \<longleftrightarrow>
       p \<in> set (arg_ports d) \<and> k \<in> handle_key ` set (parsed_handles (b_env b) (arg_accept d))) \<and>
    (\<exists>ps. pins_load (e_pins (b_env b)) (b_state b (boot_key_path b d @ ''.peers.json'')) = Inr ps \<and>
       (\<forall>k. admission_of (pm_session m) k =
          (if \<exists>p \<in> set ps. e_parse_key (b_env b) (pin_key p) = Some k then Some Key
           else if k \<in> handle_key ` set (parsed_handles (b_env b) (arg_accept d)) then Some Added else None)))"
proof -
  obtain m0 me ns where m: "m = run_startup (b_env b) m0 (arg_accept d) (arg_ports d)" and cs: "open_control_socket b path d = Inr cs"
    and start: "with_endpoint (b_env b) me (arg_host d) (b_state b (boot_key_path b d @ ''.peers.json''))
      (b_state b (boot_key_path b d @ ''.surfaces.json'')) ns (arg_name d) = Inr m0"
    by (rule daemon_main_ok [OF assms])
  then obtain ps where ps: "pins_load (e_pins (b_env b)) (b_state b (boot_key_path b d @ ''.peers.json'')) = Inr ps"
    by (auto simp: with_endpoint_def split: sum.splits)
  have wf: "pm_wf m0" using with_endpoint_start [OF start] by blast
  have "on_tunnel (pm_session m) k p = ServeTunnel p \<longleftrightarrow>
      p \<in> set (arg_ports d) \<and> k \<in> handle_key ` set (parsed_handles (b_env b) (arg_accept d))" for k p
    using may_startup [OF wf] started_without_grants [OF start] m by (auto simp: on_tunnel_def)
  moreover have "admission_of (pm_session m) k =
      (if \<exists>p \<in> set ps. e_parse_key (b_env b) (pin_key p) = Some k then Some Key
       else if k \<in> handle_key ` set (parsed_handles (b_env b) (arg_accept d)) then Some Added else None)" for k
    using admitted_startup [OF wf, of "b_env b" "arg_accept d" "arg_ports d" k] restart_admissions [OF start ps, of k] m by simp
  ultimately show ?thesis
    using open_control_socket_ok [OF cs] ps parse_unsigned_digits [of 8 _ "2 ^ 32"] by auto
qed

text \<open>A file that pins one key.\<close>

definition pinned_file :: "string \<Rightarrow> state_file" where
  "pinned_file path = snd (pins_add pin_codec (new_file path) (hex_show (EndpointId [9])) (Some ''box''))"

lemma pinned_file_load: "pins_load pin_codec (pinned_file path) = Inr [\<lparr>pin_key = hex_show (EndpointId [9]), pin_label = Some ''box''\<rparr>]"
proof -
  have "pins_load pin_codec (new_file path) = Inr []" by (simp add: pins.load_absent)
  from pins.add_loaded [OF pin_codec_ok new_file_usable this, of "\<lparr>pin_key = hex_show (EndpointId [9]), pin_label = Some ''box''\<rparr>"]
  show ?thesis by (simp add: pinned_file_def)
qed

definition plain_boot :: boot_env where
  "plain_boot =
     \<lparr>b_env = plain_env, b_bind_endpoint = (\<lambda>_. Some (EndpointId [1])), b_generated = replicate 32 7,
      b_tun = plain_tun, b_files = (\<lambda>_. fresh_key_file), b_state = (\<lambda>p. if p = ''/root/.local/state/pai-sho/key.peers.json'' then pinned_file p else new_file p),
      b_xdg_state_home = None, b_home = Some ''/root'', b_stale_socket = True, b_removes_socket = True, b_binds_socket = True,
      b_getpwnam = (\<lambda>u. if u = ''ann'' then Some (501, 20) else None), b_chown_works = True, b_chmod_works = True\<rparr>"

definition plain_args :: daemon_args where
  "plain_args = (default_args None)\<lparr>arg_accept := [hex_show (EndpointId [7])], arg_ports := [80],
     arg_socket_owner := Some ''ann'', arg_socket_mode := Some (digits_of 8 432)\<rparr>"

lemma plain_key_path: "boot_key_path plain_boot plain_args = ''/root/.local/state/pai-sho/key''"
  by (simp add: boot_key_path_def plain_boot_def plain_args_def default_args_def default_key_path_def path_join_def)

lemma plain_starts: "\<exists>m cs. daemon_main plain_boot SOCKET plain_args = Some (Inr (m, cs))"
proof -
  have "\<exists>m0. boot_daemon plain_boot plain_args = Some (Inr m0)"
    unfolding boot_daemon_def plain_key_path
    by (simp add: boot_netstack_def plain_boot_def plain_args_def default_args_def daemon_new_def load_or_create_key_def
        fresh_key_file_def new_file_def state_file.defs with_endpoint_def Let_def pinned_file_load)
  moreover have "\<exists>cs. open_control_socket plain_boot SOCKET plain_args = Inr cs"
    using parse_unsigned_digits [of 8 432 "2 ^ 32"]
    by (simp add: open_control_socket_def left_socket_def if_given_def plain_boot_def plain_args_def default_args_def set_socket_owner_def
        set_socket_mode_def SOCKET_def)
  ultimately show ?thesis by (auto simp: daemon_main_def Let_def)
qed

theorem daemon_starts_as_asked_witness:
  "\<exists>m cs. daemon_main plain_boot SOCKET plain_args = Some (Inr (m, cs)) \<and> cs_serving cs \<and>
     cs_owner cs = Some (501, 20) \<and> cs_mode cs = Some 432 \<and>
     on_tunnel (pm_session m) (EndpointId [7]) 80 = ServeTunnel 80 \<and>
     on_tunnel (pm_session m) (EndpointId [8]) 80 \<noteq> ServeTunnel 80 \<and>
     admission_of (pm_session m) (EndpointId [7]) = Some Added \<and> admission_of (pm_session m) (EndpointId [8]) = None \<and>
     admission_of (pm_session m) (EndpointId [9]) = Some Key"
proof -
  obtain m cs where m: "daemon_main plain_boot SOCKET plain_args = Some (Inr (m, cs))" using plain_starts by blast
  have a: "arg_socket_owner plain_args = Some ''ann''" "arg_socket_mode plain_args = Some (digits_of 8 432)"
    "arg_ports plain_args = [80]" "b_getpwnam plain_boot ''ann'' = Some (501, 20)" "b_env plain_boot = plain_env"
    by (simp_all add: plain_args_def plain_boot_def default_args_def)
  have k: "parsed_handles (b_env plain_boot) (arg_accept plain_args) = [HKey (EndpointId [7])]"
    using printed_key_parses [OF hex_codec, of "EndpointId [7]"]
    by (simp add: parsed_handles_def plain_boot_def plain_args_def default_args_def map_filter_simps)
  have p: "pins_load pin_codec (b_state plain_boot ''/root/.local/state/pai-sho/key.peers.json'') =
      Inr [\<lparr>pin_key = hex_show (EndpointId [9]), pin_label = Some ''box''\<rparr>]"
    by (simp add: plain_boot_def pinned_file_load)
  show ?thesis
    using daemon_starts_as_asked [OF m] m unfolding plain_key_path k by (auto simp: a p key_codecD(1) [OF hex_codec])
qed

end
