(* ===== verification/Lifetime.thy ===== *)
theory Lifetime
  imports Boot Reach
begin

text \<open>
  The life of a daemon that has started: the end of \<open>run\<close> in \<open>src/daemon.rs\<close>, where the loop of the
  control socket is raced against the shutdown signals, with the tasks it spawns and whatever comes in over the network; and
  the loops of the two resolvers, on a socket (\<open>run\<close> in \<open>src/resolver.rs\<close>) and in the TUN stack (in \<open>spawn\<close> of
  \<open>src/netstack.rs\<close>), each a function of the datagrams that reach it.
\<close>

subsection \<open>The control socket\<close>

text \<open>A signal ends the loop, not the process: while the router shuts down, the tasks of the clients that were
  accepted, and those of the peers, run on. A failed accept returns at once. \<open>lf_clients\<close> counts the tasks that have not
  finished; \<open>lf_heard\<close> is what was read from clients so far, and \<open>lf_answers\<close> what they were answered.\<close>

datatype life_phase = Serving | Draining | Ended "unit result"

record life =
  lf_pm :: pm
  lf_phase :: life_phase
  lf_clients :: nat
  lf_heard :: "string list"
  lf_answers :: "string option list"

definition life_start :: "pm \<Rightarrow> life" where
  "life_start m = \<lparr>lf_pm = m, lf_phase = Serving, lf_clients = 0, lf_heard = [], lf_answers = []\<rparr>"

fun running :: "life_phase \<Rightarrow> bool" where
  "running (Ended _) = False"
| "running _ = True"

text \<open>What happens to a daemon from outside its own machine, and in the tasks of its peers.\<close>

fun from_peers :: "daemon_event \<Rightarrow> bool" where
  "from_peers (Startup _ _) = False"
| "from_peers (Request _ _ _) = False"
| "from_peers _ = True"

inductive life_step :: "env \<Rightarrow> json \<Rightarrow> life \<Rightarrow> life \<Rightarrow> bool" for env j where
  client_accepted: "lf_phase s = Serving \<Longrightarrow> life_step env j s (s\<lparr>lf_clients := lf_clients s + 1\<rparr>)"
| accept_failed: "lf_phase s = Serving \<Longrightarrow> life_step env j s (s\<lparr>lf_phase := Ended (Inl FailedToAccept)\<rparr>)"
| signalled: "lf_phase s = Serving \<Longrightarrow> life_step env j s (s\<lparr>lf_phase := Draining\<rparr>)"
| client_handled: "running (lf_phase s) \<Longrightarrow> 0 < lf_clients s \<Longrightarrow> handle_client env j (lf_pm s) read rnd now = (answer, m') \<Longrightarrow>
    life_step env j s
      (s\<lparr>lf_pm := m', lf_clients := lf_clients s - 1,
         lf_heard := lf_heard s @ (case read of None \<Rightarrow> [] | Some line \<Rightarrow> [line]), lf_answers := lf_answers s @ [answer]\<rparr>)"
| peers_act: "running (lf_phase s) \<Longrightarrow> from_peers e \<Longrightarrow> life_step env j s (s\<lparr>lf_pm := daemon_step env (lf_pm s) e\<rparr>)"
| router_down: "lf_phase s = Draining \<Longrightarrow> life_step env j s (s\<lparr>lf_phase := Ended (Inr ())\<rparr>)"

inductive_cases life_stepE: "life_step env j s s'"

subsection \<open>The resolvers\<close>

datatype recv = Datagram bytes nat | RecvFailed

text \<open>The buffer of the resolver holds 512 bytes, that of the resolver in the stack 1500; what a datagram
  has beyond that is cut off. A reply that cannot be sent is dropped. The names are those of the moment.\<close>

definition TUN_RESOLVER_IP :: ipv4 where
  "TUN_RESOLVER_IP = Ipv4 10 99 0 53"

fun resolver_run :: "(pm \<times> recv) list \<Rightarrow> (bytes \<times> nat) list" where
  "resolver_run [] = []"
| "resolver_run ((m, RecvFailed) # rs) = resolver_run rs"
| "resolver_run ((m, Datagram pkt from) # rs) =
     (case handle_query (take 512 pkt) (resolve_name m) of
        NoReply \<Rightarrow> resolver_run rs
      | Reply r \<Rightarrow> (r, from) # resolver_run rs
      | Resolver.Panicked \<Rightarrow> [])"

fun stack_resolver_run :: "(netstack \<times> recv) list \<Rightarrow> (bytes \<times> nat) list" where
  "stack_resolver_run [] = []"
| "stack_resolver_run ((ns, RecvFailed) # rs) = []"
| "stack_resolver_run ((ns, Datagram pkt from) # rs) =
     (case stack_reply ns (take 1500 pkt) of
        NoReply \<Rightarrow> stack_resolver_run rs
      | Reply r \<Rightarrow> (r, from) # stack_resolver_run rs
      | Resolver.Panicked \<Rightarrow> [])"

text \<open>The tasks: each resolver binds its address first, and ends at once where that fails.\<close>

definition resolver_task :: "bool \<Rightarrow> (pm \<times> recv) list \<Rightarrow> (bytes \<times> nat) list result" where
  "resolver_task binds rs = (if binds then Inr (resolver_run rs) else Inl FailedToBindSocket)"

definition stack_resolver_task :: "(ipv4 \<Rightarrow> u16 \<Rightarrow> bool) \<Rightarrow> (netstack \<times> recv) list \<Rightarrow> (bytes \<times> nat) list" where
  "stack_resolver_task binds rs = (if binds TUN_RESOLVER_IP 53 then stack_resolver_run rs else [])"

subsection \<open>Where the daemon's requests come from\<close>

definition heard_requests :: "json \<Rightarrow> string list \<Rightarrow> request set" where
  "heard_requests j texts = {r. \<exists>line \<in> set texts. parse_req j (read_line line) = Some r}"

fun from_socket :: "json \<Rightarrow> string list \<Rightarrow> daemon_event \<Rightarrow> bool" where
  "from_socket j texts (Request r _ _) \<longleftrightarrow> r \<in> heard_requests j texts"
| "from_socket j texts e \<longleftrightarrow> from_peers e"

lemma from_socket_more: "from_socket j texts e \<Longrightarrow> from_socket j (texts @ others) e"
  by (cases e) (auto simp: heard_requests_def)

lemma handle_client_event:
  "\<exists>es. snd (handle_client env j m read rnd now) = daemon_run env m es \<and>
     (\<forall>e \<in> set es. from_socket j (case read of None \<Rightarrow> [] | Some line \<Rightarrow> [line]) e)"
proof -
  have none: "\<exists>es. m = daemon_run env m es \<and> (\<forall>e \<in> set es. from_socket j texts e)" for texts
    by (rule exI [of _ "[]"]) simp
  have one: "\<exists>es. m' = daemon_run env m es \<and> (\<forall>e \<in> set es. from_socket j [line] e)"
    if "parse_req j (read_line line) = Some r" "handle_request env m r rnd now = (resp, m')" for r line resp m'
    using that by (intro exI [of _ "[Request r rnd now]"]) (auto simp: heard_requests_def)
  show ?thesis using none one by (auto simp: handle_client_def split: option.splits prod.splits)
qed

lemma life_history:
  assumes "(life_step env j)\<^sup>*\<^sup>* (life_start m) s"
  shows "\<exists>es. lf_pm s = daemon_run env m es \<and> (\<forall>e \<in> set es. from_socket j (lf_heard s) e)"
  using assms
proof (induction rule: rtranclp_induct)
  case base
  show ?case by (rule exI [of _ "[]"]) (simp add: life_start_def)
next
  case (step s s')
  then obtain es where es: "lf_pm s = daemon_run env m es" "\<forall>e \<in> set es. from_socket j (lf_heard s) e" by blast
  have more: "\<exists>es. lf_pm s' = daemon_run env m es \<and> (\<forall>e \<in> set es. from_socket j (lf_heard s') e)"
    if "lf_pm s' = daemon_run env (lf_pm s) fs" "\<forall>e \<in> set fs. from_socket j (lf_heard s') e" "lf_heard s' = lf_heard s @ texts" for fs texts
    using that es from_socket_more by (intro exI [of _ "es @ fs"]) (auto simp: run_all_append)
  show ?case
    using step.hyps(2)
  proof cases
    case (client_handled read rnd now answer m')
    obtain fs where "m' = daemon_run env (lf_pm s) fs" "\<forall>e \<in> set fs. from_socket j (case read of None \<Rightarrow> [] | Some line \<Rightarrow> [line]) e"
      using handle_client_event [of env j "lf_pm s" read rnd now] client_handled(4) by auto
    moreover have "from_socket j (lf_heard s @ texts) e" if "from_socket j texts e" for texts e
      using that by (cases e) (auto simp: heard_requests_def)
    ultimately show ?thesis using more [of fs] client_handled(1) by simp
  next
    case (peers_act e)
    then show ?thesis using more [of "[e]" "[]"] by (cases e) simp_all
  qed (use more [of "[]" "[]"] in simp_all)
qed

subsection \<open>Where codes come from\<close>

lemma worth_enrollment:
  assumes "pm_wf m" "worth (s_tokens (pm_session (handle_enrollment env m i stream now))) t c = Some x"
  shows "worth (s_tokens (pm_session m)) t c = Some x"
proof -
  have ends: "s_tokens (pm_session (enrollment_ends env m i)) = s_tokens (pm_session m)"
    by (auto simp: enrollment_ends_def on_enroll_timeout_def split: option.splits prod.splits)
  have "worth (s_tokens (pm_session m)) t c = Some x" if "worth (s_tokens (pm_session (enrollment_stream env m i data now))) t c = Some x" for data
  proof (cases "map_of (enrolling m) i")
    case en: (Some en)
    show ?thesis
    proof (cases "e_decode env data")
      case msg: (Some msg)
      have "pm_session (enrollment_stream env m i data now) =
          next_session (pm_session m) (Unadmitted i (c_remote (conns m ! en_conn en)) msg now)"
        using en msg by (simp add: enrollment_stream_def Let_def split: prod.splits)
      then show ?thesis using that worth_step [OF core_wf [OF assms(1)], of "Unadmitted i (c_remote (conns m ! en_conn en)) msg now" t c x]
        by (auto simp: mints_def)
    qed (use that en in \<open>simp add: enrollment_stream_def\<close>)
  qed (use that in \<open>simp add: enrollment_stream_def\<close>)
  then show ?thesis using assms(2) by (auto simp: handle_enrollment_def ends split: option.splits if_splits)
qed

lemma tokens_add_peer: "s_tokens (pm_session (snd (add_peer m key name code))) = s_tokens (pm_session m)"
  by (simp add: add_peer_def core_install admit_known_def)

lemma tokens_expose: "s_tokens (pm_session (d_expose env m p ks)) = s_tokens (pm_session m)"
  by (simp add: d_expose_def session_broadcast expose_def Let_def)

lemma tokens_exposes: "s_tokens (pm_session (fold (\<lambda>p m. d_expose env m p ks) ps m)) = s_tokens (pm_session m)"
  by (induction ps arbitrary: m) (simp_all add: tokens_expose)

lemma tokens_startup: "s_tokens (pm_session (run_startup env m accept ports)) = s_tokens (pm_session m)"
proof -
  have "s_tokens (pm_session (fold (\<lambda>h m. snd (add_peer m (handle_key h) None (handle_code h))) hs m)) = s_tokens (pm_session m)" for hs m
    by (induction hs arbitrary: m) (simp_all add: tokens_add_peer)
  then show ?thesis by (simp add: run_startup_def Let_def session_broadcast tokens_exposes)
qed

lemma tokens_pin_peer: "s_tokens (pm_session (snd (pin_peer env m key name))) = s_tokens (pm_session m)"
  by (auto simp: pin_peer_def add_pinned_def core_install admit_known_def split: prod.splits sum.splits option.splits if_splits)

lemma tokens_request:
  assumes "\<And>name ports. r \<noteq> ReqInvite None name ports"
  shows "s_tokens (pm_session (snd (handle_request env m r rnd now))) = s_tokens (pm_session m)"
proof (cases r)
  case (ReqInvite key name ports)
  then obtain s where "key = Some s" using assms by (cases key) auto
  moreover obtain o1 m1 where "pin_peer env m s name = (o1, m1)" by fastforce
  ultimately show ?thesis
    using ReqInvite tokens_pin_peer [of env m s name] by (auto simp: d_invite_def tokens_exposes split: sum.splits option.splits)
next
  case (ReqUnexpose p t)
  have "s_tokens (pm_session (d_unexpose env m p t)) = s_tokens (pm_session m)" for p t
    by (simp add: d_unexpose_def session_broadcast unexpose_def Let_def)
  then show ?thesis using ReqUnexpose by (auto split: option.splits sum.splits)
next
  case (ReqForget q)
  then show ?thesis by (auto simp: remove_peer_def session_evict_peer evict_def Let_def split: option.splits)
qed (auto simp: d_accept_def tokens_add_peer tokens_expose core_project core_unproject split: sum.splits option.splits)

lemma tokens_incoming: "s_tokens (pm_session (handle_connection env m c)) = s_tokens (pm_session m)"
  by (auto simp: handle_connection_def Let_def on_inbound_def install_connection_def split: prod.splits option.splits)

text \<open>A code that is good was minted by a request for an invitation, and carries its ports.\<close>

lemma worth_event:
  assumes "pm_wf m" "worth (s_tokens (pm_session (daemon_step env m e))) t c = Some x"
  shows "worth (s_tokens (pm_session m)) t c = Some x \<or> (\<exists>name rnd now. e = Request (ReqInvite None name (claimed_ports x)) rnd now)"
proof (cases e)
  case (Request r rnd now)
  show ?thesis
  proof (cases "\<exists>name ports. r = ReqInvite None name ports")
    case True
    then obtain name ports where r: "r = ReqInvite None name ports" by blast
    have "pm_session (daemon_step env m e) = next_session (pm_session m) (Mint name ports rnd now)"
      using Request r by (simp add: d_invite_def split: prod.splits)
    then show ?thesis
      using assms(2) worth_step [OF core_wf [OF assms(1)], of "Mint name ports rnd now" t c x] Request r by (auto simp: mints_def)
  next
    case False
    then show ?thesis using assms(2) Request tokens_request [of r env m rnd now] by simp
  qed
next
  case (EnrollmentStream i stream now)
  then show ?thesis using worth_enrollment [OF assms(1)] assms(2) by auto
qed (use assms(2) in \<open>simp_all add: tokens_startup tokens_incoming core_dialed new_conn_last core_handle_uni start_running_def
    send_version_def clear_notify_def split: if_splits\<close>)

lemma worth_history:
  assumes "pm_wf m" "\<And>t c. worth (s_tokens (pm_session m)) t c = None"
    and "worth (s_tokens (pm_session (daemon_run env m es))) t c = Some x"
  shows "\<exists>name rnd now. Request (ReqInvite None name (claimed_ports x)) rnd now \<in> set es"
  using assms(3)
proof (induction es rule: rev_induct)
  case (snoc e es)
  have "pm_wf (daemon_run env m es)" by (rule dm.good_run_from [OF assms(1)])
  with snoc show ?case using worth_event [of "daemon_run env m es" env e t c x] by (auto simp: run_all_append)
qed (simp add: assms(2))

subsection \<open>The resolvers, datagram by datagram\<close>

lemma resolver_run_append: "resolver_run (xs @ ys) = resolver_run xs @ resolver_run ys"
  using reply_safe by (induction xs rule: resolver_run.induct) (auto simp: handle_query_reply split: dns_outcome.split)

lemma stack_resolver_run_append:
  "\<forall>r \<in> set xs. snd r \<noteq> RecvFailed \<Longrightarrow> stack_resolver_run (xs @ ys) = stack_resolver_run xs @ stack_resolver_run ys"
  using reply_safe by (induction xs rule: stack_resolver_run.induct) (auto simp: stack_reply_def split: dns_outcome.split)

lemma query_answered:
  assumes "label_ok l" "CHR ''.'' \<notin> set l" "label_ok sfx" "to_ascii_lowercase sfx = SUFFIX"
    and "names (to_ascii_lowercase l) = Some v4"
  shows "reply (dns_query ident flags flags2 [l, sfx] TYPE_A qclass extra) names =
    Reply (u16_to_be ident @ [or 0x84 (and flags 1), 0, 0, 1] @ u16_to_be 1 @ [0, 0, 0, 0] @
      question_bytes [l, sfx] TYPE_A qclass @ answer_record v4)"
  using assms(1,3,5) label_asked [OF assms(1,2,4)] by (simp add: reply_def parse_question_encoded build_reply_encoded)

text \<open>Where a name leads once a peer was projected under it.\<close>

lemma names_bind_missing:
  "map_option ns_names (pm_netstack (bind_missing env a ip ports m)) = map_option ns_names (pm_netstack m)"
proof -
  have "map_option ns_names (pm_netstack (bind_one env m a ip port)) = map_option ns_names (pm_netstack m)" for m port
  proof -
    obtain k where "snd (bind_loop BIND_ATTEMPTS env m ip port) = m\<lparr>calls := k\<rparr>" using bind_loop_calls by blast
    then show ?thesis
      by (cases "bind_loop BIND_ATTEMPTS env m ip port")
        (auto simp: bind_one_def record_binding_def set_peer_def listen_def split: option.splits ip_addr.splits bool.splits)
  qed
  then show ?thesis unfolding bind_missing_def by (induction ports arbitrary: m) simp_all
qed

lemma projected_surface:
  assumes "pm_wf m" "resolve_peer env m q = Some k" "map_of (peers m) k = Some a"
    and "project env m q (Some (V4 v4)) (Some n) = (Inr (), m')"
  shows "touches a m m'" "p_surface (heap m' ! a) = Some \<lparr>sf_ip = V4 v4, sf_name = Some n\<rparr>"
    "pm_netstack m' = Some ns \<Longrightarrow> map_of (ns_names ns) n = Some v4"
proof -
  let ?m = "teardown_surface env m a"
  have a: "a < length (heap m)" using pm_wfD(6) [OF assms(1,3)] .
  have t: "touches a m ?m" by (rule touches_teardown)
  have p: "heap ?m ! a = (heap m ! a)\<lparr>p_surface := None, p_bindings := []\<rparr>" by (rule teardown_peer [OF assms(1) a])
  have la: "a < length (heap ?m)" using touches_keeps(11) [OF t] a by simp
  have pl: "place_surface env ?m k a (V4 v4) (Some n) = (Inr (), m')" using assms(2-4) by (simp add: project_def Let_def)
  show "touches a m m'" using touches_trans [OF t] touches_place [of a ?m env k "V4 v4" "Some n"] pl by simp
  show "p_surface (heap m' ! a) = Some \<lparr>sf_ip = V4 v4, sf_name = Some n\<rparr>" using place_surface_peer [OF la _ pl] p by auto
  show "map_of (ns_names ns) n = Some v4" if "pm_netstack m' = Some ns"
  proof -
    obtain m1 where m1: "claim_addr env ?m (V4 v4) (Some n) = (Inr (), m1)"
      using pl by (auto simp: place_surface_def Let_def split: prod.splits sum.splits)
    then have "map_option ns_names (pm_netstack m') = map_option ns_names (pm_netstack m1)"
      using pl by (auto simp: place_surface_def Let_def names_bind_missing persist_surface_def set_peer_def)
    moreover have "map_of (ns_names x) n = Some v4" if "pm_netstack m1 = Some x" for x
      using m1 that by (auto simp: claim_addr_def add_surface_def update_conv' split: option.splits)
    ultimately show ?thesis using that by (cases "pm_netstack m1") auto
  qed
qed

lemma found_alone:
  assumes "distinct (map fst xs)" "(k, a) \<in> set xs" "P (k, a)" "\<And>e. e \<in> set xs \<Longrightarrow> P e \<Longrightarrow> fst e = k"
  shows "find P xs = Some (k, a)"
  using assms by (induction xs) (fastforce simp: image_iff)+

lemma projected_resolves:
  assumes wf: "pm_wf m" and k: "resolve_peer env m q = Some k"
    and p: "project env m q (Some (V4 v4)) (Some n) = (Inr (), m')"
    and alone: "self_name m \<noteq> Some n"
      "\<And>k' a'. map_of (peers m) k' = Some a' \<Longrightarrow> k' \<noteq> k \<Longrightarrow> Option.bind (p_surface (heap m ! a')) sf_name \<noteq> Some n"
  shows "resolve_name m' n = Some (V4 v4)"
proof -
  obtain a where a: "map_of (peers m) k = Some a" using resolve_peer_known [OF k] by blast
  note s = projected_surface [OF wf k a p]
  have d: "distinct (map fst (peers m))" using pm_wfD(2) [OF wf] by (simp add: hash_ok_def)
  have "find (\<lambda>e. Option.bind (p_surface (heap m' ! snd e)) sf_name = Some n) (peers m') = Some (k, a)"
    unfolding touches_keeps(1) [OF s(1)]
  proof (rule found_alone [OF d map_of_SomeD [OF a]])
    fix e assume e: "e \<in> set (peers m)" "Option.bind (p_surface (heap m' ! snd e)) sf_name = Some n"
    have e': "map_of (peers m) (fst e) = Some (snd e)" using e(1) d by simp
    show "fst e = k"
    proof (rule ccontr)
      assume ne: "fst e \<noteq> k"
      then have "snd e \<noteq> a" using pm_wfD(7) [OF wf a] pm_wfD(7) [OF wf e'] by auto
      then show False using alone(2) [OF e' ne] e(2) touches_keeps(13) [OF s(1)] by simp
    qed
  qed (simp add: s(2))
  then show ?thesis using alone(1) touches_keeps(8) [OF s(1)] by (simp add: resolve_name_def s(2))
qed

subsection \<open>Properties\<close>

text \<open>A request that lets the key have the port: it names the key for the port, by the key or by something
  that is not a key, or all peers, or asks for an invitation with the port.\<close>

fun asks_for :: "env \<Rightarrow> u16 \<Rightarrow> endpoint_id \<Rightarrow> request \<Rightarrow> bool" where
  "asks_for env p k (ReqExpose port to every) \<longleftrightarrow>
     port = p \<and> (every \<or> (\<exists>r \<in> set to. e_parse_key env r = Some k \<or> e_parse_key env r = None))"
| "asks_for env p k (ReqInvite (Some key) name ports) \<longleftrightarrow> p \<in> set ports \<and> e_parse_key env key = Some k"
| "asks_for env p k (ReqInvite None name ports) \<longleftrightarrow> p \<in> set ports"
| "asks_for env p k _ \<longleftrightarrow> False"

lemma collect_member: "collect rs = Inr ks \<Longrightarrow> k \<in> set ks \<Longrightarrow> Inr k \<in> set rs"
  by (induction rs arbitrary: ks rule: collect.induct) (auto split: sum.splits)

lemma operator_asks: "operator_grants env p k m (Request r rnd now) \<Longrightarrow> asks_for env p k r"
proof (cases r)
  case (ReqExpose port to every)
  assume "operator_grants env p k m (Request r rnd now)"
  then obtain ks where "port = p" "grantees_of env m to every = Inr ks" "k \<in> set ks"
    using ReqExpose by (auto split: sum.splits)
  moreover have "e_parse_key env x = Some k \<or> e_parse_key env x = None"
    if "resolve_grantee (e_parse_key env) (pm_session m) x = Inr k" for x
    using that by (auto simp: resolve_grantee_def split: option.splits)
  ultimately show ?thesis
    using ReqExpose collect_member [of "map (resolve_grantee (e_parse_key env) (pm_session m)) to" ks k]
    by (fastforce simp: grantees_of_def split: if_splits)
next
  case (ReqInvite key name ports)
  then show "operator_grants env p k m (Request r rnd now) \<Longrightarrow> asks_for env p k r" by (cases key) simp_all
qed simp_all

text \<open>C9: nothing but the operator opens a port. From the moment the control socket is served to the end of the process,
  while clients come in and their tasks run in any order, while peers and strangers connect, send, enroll and disconnect as they
  like, and while the daemon drains after a signal: a tunnel is forwarded to a port only if the port was given on the command line and
  the peer's key with \<open>--accept\<close>, or a line was read on the control socket that asks for it, by naming the
  key for the port or by asking for an invitation that carries the port.\<close>

theorem only_the_operator_opens:
  assumes started: "daemon_main b path d = Some (Inr (m, cs))"
    and life: "(life_step (b_env b) j)\<^sup>*\<^sup>* (life_start m) s"
    and served: "handle_bi_stream connects (lf_pm s) a (tunnel_preamble p @ data) = Inr (Tunneled t)"
  shows "p \<in> set (arg_ports d) \<and> p_endpoint_id (heap (lf_pm s) ! a) \<in> handle_key ` set (parsed_handles (b_env b) (arg_accept d)) \<or>
    (\<exists>line r. line \<in> set (lf_heard s) \<and> parse_req j (read_line line) = Some r \<and>
       asks_for (b_env b) p (p_endpoint_id (heap (lf_pm s) ! a)) r)"
proof -
  let ?env = "b_env b" and ?k = "p_endpoint_id (heap (lf_pm s) ! a)"
  obtain m0 me ns where m: "m = run_startup ?env m0 (arg_accept d) (arg_ports d)"
    and start: "with_endpoint ?env me (arg_host d) (b_state b (boot_key_path b d @ ''.peers.json''))
      (b_state b (boot_key_path b d @ ''.surfaces.json'')) ns (arg_name d) = Inr m0"
    by (rule daemon_main_ok [OF started])
  obtain es where es: "lf_pm s = daemon_run ?env m es" "\<forall>e \<in> set es. from_socket j (lf_heard s) e"
    using life_history [OF life] by blast
  have wf: "pm_wf m0" using with_endpoint_start [OF start] by blast
  have all: "lf_pm s = daemon_run ?env m0 (Startup (arg_accept d) (arg_ports d) # es)" using es(1) m by simp
  have "may (lf_pm s) p ?k" using served by (auto simp: served_port split: if_splits)
  then obtain xs e ys where e: "Startup (arg_accept d) (arg_ports d) # es = xs @ e # ys" "daemon_grants ?env p ?k (daemon_run ?env m0 xs) e"
    using port.holds_iff_from [OF wf started_without_grants [OF start], of ?env "Startup (arg_accept d) (arg_ports d) # es" p ?k]
    unfolding all [symmetric] by blast
  have asked: "\<exists>line r. line \<in> set (lf_heard s) \<and> parse_req j (read_line line) = Some r \<and> asks_for ?env p ?k r"
    if "Request r rnd now \<in> set es" "asks_for ?env p ?k r" for r rnd now
    using that es(2) by (fastforce simp: heard_requests_def)
  show ?thesis
  proof (cases "operator_grants ?env p ?k (daemon_run ?env m0 xs) e")
    case True
    show ?thesis
    proof (cases e)
      case (Request r rnd now)
      then have "Request r rnd now \<in> set es" using e(1) by (cases xs) auto
      then show ?thesis using asked operator_asks True Request by blast
    next
      case (Startup accept ports)
      then have "accept = arg_accept d \<and> ports = arg_ports d" using e(1) es(2) by (cases xs) fastforce+
      then show ?thesis using True Startup by simp
    qed (use True in simp_all)
  next
    case False
    then obtain t c x where w: "worth (s_tokens (pm_session (daemon_run ?env m0 xs))) t c = Some x" "p \<in> set (claimed_ports x)"
      using e(2) by (auto simp: daemon_grants_def elim!: code_grants.elims split: option.splits peer_message.splits)
    have "worth (s_tokens (pm_session m0)) t c = None" for t c using no_codes_at_start [OF start] by simp
    then obtain name rnd now where "Request (ReqInvite None name (claimed_ports x)) rnd now \<in> set xs"
      using worth_history [OF wf _ w(1)] by blast
    then have "Request (ReqInvite None name (claimed_ports x)) rnd now \<in> set es" using e(1) by (cases xs) auto
    then show ?thesis using asked w(2) by fastforce
  qed
qed

text \<open>A client that was accepted before the signal has its request handled after it.\<close>

definition late_request :: request where
  "late_request = ReqExpose 90 [hex_show (EndpointId [7])] False"

lemma plain_life:
  obtains m cs a where "daemon_main plain_boot SOCKET plain_args = Some (Inr (m, cs))" "pm_wf m"
    "map_of (peers m) (EndpointId [7]) = Some a"
proof -
  obtain m cs where m: "daemon_main plain_boot SOCKET plain_args = Some (Inr (m, cs))" using plain_starts by blast
  then obtain m0 where s: "pm_wf m0" "m = run_startup (b_env plain_boot) m0 (arg_accept plain_args) (arg_ports plain_args)"
    by (rule daemon_main_ok) (use with_endpoint_start in blast)
  have wf: "pm_wf m" unfolding s(2) by (rule pm_wf_startup [OF s(1)])
  have "parsed_handles (b_env plain_boot) (arg_accept plain_args) = [HKey (EndpointId [7])]"
    using printed_key_parses [OF hex_codec, of "EndpointId [7]"]
    by (simp add: parsed_handles_def plain_boot_def plain_args_def default_args_def map_filter_simps)
  then have "admission_of (pm_session m) (EndpointId [7]) \<noteq> None" unfolding s(2) admitted_startup [OF s(1)] by simp
  then obtain a where "map_of (peers m) (EndpointId [7]) = Some a"
    using member_iff_admitted [OF wf, of "EndpointId [7]"] by (auto simp: admission_of_def)
  then show thesis using that m wf by blast
qed

theorem only_the_operator_opens_witness:
  "\<exists>m cs j s a. daemon_main plain_boot SOCKET plain_args = Some (Inr (m, cs)) \<and>
     (life_step (b_env plain_boot) j)\<^sup>*\<^sup>* (life_start m) s \<and> lf_phase s = Draining \<and>
     handle_bi_stream (\<lambda>_ _. True) (lf_pm s) a (tunnel_preamble 90 @ [1]) = Inr (Tunneled (Forwarding (host (lf_pm s)) 90 [1])) \<and>
     (\<exists>line \<in> set (lf_heard s). \<exists>r. parse_req j (read_line line) = Some r \<and> asks_for plain_env 90 (EndpointId [7]) r)"
proof -
  obtain m cs a where m: "daemon_main plain_boot SOCKET plain_args = Some (Inr (m, cs))" "pm_wf m"
    "map_of (peers m) (EndpointId [7]) = Some a" by (rule plain_life)
  have env: "b_env plain_boot = plain_env" "arg_ports plain_args = [80]" by (simp_all add: plain_boot_def plain_args_def default_args_def)
  let ?j = "one_json late_request RespOk" and ?k = "EndpointId [7]"
  let ?s1 = "(life_start m)\<lparr>lf_clients := 1\<rparr>"
  let ?s2 = "?s1\<lparr>lf_phase := Draining\<rparr>"
  let ?line = "req_json ?j late_request @ [newline]"
  let ?m = "d_expose plain_env m 90 [?k]"
  let ?s3 = "?s2\<lparr>lf_pm := ?m, lf_clients := 0, lf_heard := [?line], lf_answers := [Some (resp_json ?j RespOk @ [newline])]\<rparr>"
  have line: "parse_req ?j (read_line ?line) = Some late_request"
    using one_json_ok [of late_request RespOk] read_line_whole [of "req_json ?j late_request" "[]"] by (auto simp: line_codec_def)
  have "grantees_of plain_env m [hex_show ?k] False = Inr [?k]"
    using key_codecD(1) [OF hex_codec] by (simp add: grantees_of_def resolve_grantee_def)
  then have "handle_client plain_env ?j m (Some ?line) [] 0 = (Some (resp_json ?j RespOk @ [newline]), ?m)"
    using line by (simp add: handle_client_def late_request_def)
  then have h: "life_step plain_env ?j ?s2 ?s3"
    using client_handled [of ?s2 plain_env ?j "Some ?line" "[]" 0] by (simp add: life_start_def)
  have "life_step plain_env ?j (life_start m) ?s1" using client_accepted [of "life_start m" plain_env ?j] by (simp add: life_start_def)
  moreover have "life_step plain_env ?j ?s1 ?s2" using signalled [of ?s1 plain_env ?j] by (simp add: life_start_def)
  ultimately have r: "(life_step (b_env plain_boot) ?j)\<^sup>*\<^sup>* (life_start m) ?s3"
    unfolding env using h by (meson converse_rtranclp_into_rtranclp rtranclp.rtrancl_refl)
  have k: "p_endpoint_id (heap ?m ! a) = ?k" using pm_wfD(7) [OF m(2,3)] by (simp add: d_expose_def heap_broadcast)
  then have served: "handle_bi_stream (\<lambda>_ _. True) (lf_pm ?s3) a (tunnel_preamble 90 @ [1]) = Inr (Tunneled (Forwarding (host ?m) 90 [1]))"
    using may_expose [OF m(2), of plain_env 90 "[?k]" 90 ?k] by (simp add: served_port)
  have "\<exists>line r. line \<in> set (lf_heard ?s3) \<and> parse_req ?j (read_line line) = Some r \<and> asks_for plain_env 90 ?k r"
    using only_the_operator_opens [OF m(1) r served] k unfolding env by simp
  then have "lf_phase ?s3 = Draining \<and> (\<exists>line \<in> set (lf_heard ?s3). \<exists>r. parse_req ?j (read_line line) = Some r \<and> asks_for plain_env 90 ?k r)"
    by auto
  with m(1) r served show ?thesis by (intro exI [of _ m] exI [of _ cs] exI [of _ ?j] exI [of _ ?s3] exI [of _ a]) simp
qed

text \<open>C38: a projected peer is found by its name. Once a peer was projected to an IPv4 address under a name that is in lower case
  and no other peer's or this machine's, an A query for the name under the suffix, in any letter case and with any
  records behind the question, that reaches the resolver on its socket is answered, to whoever asked, with the address of the
  peer and in the order the queries came, whatever came before and comes after it, failed receives and malformed packets included. The resolver in the
  stack answers the same from its own names, as long as it has never failed to receive; after that it answers nothing.\<close>

theorem projected_peer_is_found:
  assumes wf: "pm_wf m" and k: "resolve_peer env m q = Some k"
    and p: "project env m q (Some (V4 v4)) (Some n) = (Inr (), m')"
    and alone: "self_name m \<noteq> Some n"
      "\<And>k' a'. map_of (peers m) k' = Some a' \<Longrightarrow> k' \<noteq> k \<Longrightarrow> Option.bind (p_surface (heap m ! a')) sf_name \<noteq> Some n"
    and asked: "label_ok l" "CHR ''.'' \<notin> set l" "to_ascii_lowercase l = n" "label_ok sfx" "to_ascii_lowercase sfx = SUFFIX"
    and query: "query = dns_query ident flags flags2 [l, sfx] TYPE_A qclass extra" "length query \<le> 512"
    and answer: "answer = u16_to_be ident @ [or 0x84 (and flags 1), 0, 0, 1] @ u16_to_be 1 @ [0, 0, 0, 0] @
      question_bytes [l, sfx] TYPE_A qclass @ answer_record v4"
  shows "resolver_run (before @ (m', Datagram query who) # after) = resolver_run before @ (answer, who) # resolver_run after \<and>
    (\<forall>ns bef aft. pm_netstack m' = Some ns \<and> (\<forall>r \<in> set bef. snd r \<noteq> RecvFailed) \<longrightarrow>
       stack_resolver_run (bef @ (ns, Datagram query who) # aft) = stack_resolver_run bef @ (answer, who) # stack_resolver_run aft \<and>
       stack_resolver_run (bef @ (ns, RecvFailed) # (ns, Datagram query who) # aft) = stack_resolver_run bef)"
proof -
  obtain a where a: "map_of (peers m) k = Some a" using resolve_peer_known [OF k] by blast
  note reply = query_answered [OF asked(1,2,4,5), unfolded asked(3), of _ v4 ident flags flags2 qclass extra,
      folded query(1) answer]
  have "resolve_name m' n = Some (V4 v4)" by (rule projected_resolves [OF wf k p alone])
  then have "handle_query query (resolve_name m') = Reply answer" by (simp add: handle_query_reply reply)
  moreover have "stack_reply ns query = Reply answer" if "pm_netstack m' = Some ns" for ns
    using reply projected_surface(3) [OF wf k a p that] by (simp add: stack_reply_def)
  ultimately show ?thesis using query(2) by (simp add: resolver_run_append stack_resolver_run_append)
qed

theorem projected_peer_is_found_witness:
  "\<exists>m'. project plain_env one_peer ''box'' (Some (V4 (Ipv4 127 0 1 9))) (Some ''web'') = (Inr (), m') \<and>
     resolver_run [(m', RecvFailed), (m', Datagram [] 5), (m', Datagram (dns_query 7 1 0 [''Web'', ''pai-SHO''] TYPE_A 1 []) 6)] =
       [(u16_to_be 7 @ [or 0x84 (and 1 1), 0, 0, 1] @ u16_to_be 1 @ [0, 0, 0, 0] @
         question_bytes [''Web'', ''pai-SHO''] TYPE_A 1 @ answer_record (Ipv4 127 0 1 9), 6)]"
proof -
  have "fst (project plain_env one_peer ''box'' (Some (V4 (Ipv4 127 0 1 9))) (Some ''web'')) = Inr ()"
    by (simp add: project_def one_peer_resolves one_peer_at Let_def teardown_surface_def peer_new_def place_surface_def
        claim_addr_def one_peer_bare ensure_addr_def)
  then obtain m' where m': "project plain_env one_peer ''box'' (Some (V4 (Ipv4 127 0 1 9))) (Some ''web'') = (Inr (), m')"
    by (metis prod.collapse)
  have alone: "self_name one_peer \<noteq> Some ''web''"
    "\<And>k' a'. map_of (peers one_peer) k' = Some a' \<Longrightarrow> k' \<noteq> EndpointId [7] \<Longrightarrow>
      Option.bind (p_surface (heap one_peer ! a')) sf_name \<noteq> Some ''web''"
    by (simp_all add: one_peer_at split: if_splits)
      (simp add: one_peer_def add_peer_def plain_pm_def pm_new_def install_peer_def)
  have l: "label_ok ''Web''" "CHR ''.'' \<notin> set ''Web''" "to_ascii_lowercase ''Web'' = ''web''" "label_ok ''pai-SHO''"
    "to_ascii_lowercase ''pai-SHO'' = SUFFIX" by code_simp+
  have len: "length (dns_query 7 1 0 [''Web'', ''pai-SHO''] TYPE_A 1 []) \<le> 512"
    by (simp add: dns_query_def encode_label_def as_str_bytes_def u16_to_be_def)
  have "resolver_run ([(m', RecvFailed), (m', Datagram [] 5)] @ (m', Datagram (dns_query 7 1 0 [''Web'', ''pai-SHO''] TYPE_A 1 []) 6) # []) =
      [(u16_to_be 7 @ [or 0x84 (and 1 1), 0, 0, 1] @ u16_to_be 1 @ [0, 0, 0, 0] @
         question_bytes [''Web'', ''pai-SHO''] TYPE_A 1 @ answer_record (Ipv4 127 0 1 9), 6)]"
    using projected_peer_is_found [OF one_peer_wf one_peer_resolves m' alone l refl len refl,
        where before = "[(m', RecvFailed), (m', Datagram [] 5)]" and who = 6 and after = "[]"]
    by (simp add: handle_query_def parse_question_def)
  with m' show ?thesis by auto
qed

end
