(* ===== verification/Pair.thy ===== *)
theory Pair
  imports Network Reach Invite_Flow Forward
begin

text \<open>
  Two machines that run this program: a run of the network of \<open>Network\<close> in which one of them grants a
  port to the other, step by step, and what its theorem says of it.
\<close>

subsection \<open>Two machines\<close>

definition started :: "endpoint_id \<Rightarrow> ip_addr \<Rightarrow> pm" where
  "started me h = pm_new me h session_new (new_file ''p'') (new_file ''s'') None None"

lemma started_from_files:
  assumes "e_pins env = pin_codec" "e_surfaces env = surface_codec"
  shows "with_endpoint env me h (new_file ''p'') (new_file ''s'') None None = Inr (started me h)"
  by (simp add: with_endpoint_def assms pins.load_absent surfs.load_absent load_pins_def restore_surfaces_def started_def pm_new_def)

definition pair_net :: "env \<Rightarrow> ip_addr \<Rightarrow> endpoint_id \<Rightarrow> endpoint_id \<Rightarrow> net" where
  "pair_net env h a b = \<lparr>honest = {a, b}, n_env = (\<lambda>_. env), n_start = (\<lambda>k. started k h)\<rparr>"

lemma pair_net_at [simp]:
  "honest (pair_net env h a b) = {a, b}" "n_env (pair_net env h a b) k = env" "n_start (pair_net env h a b) k = started k h"
  by (simp_all add: pair_net_def)

lemma pair_net_ok: "net_ok (pair_net plain_env h a b)"
proof -
  have "e_encode plain_env msg = Some d \<Longrightarrow> e_decode plain_env d = Some msg" for msg d
    using message_codec_ok [of msg] by auto
  moreover have "\<exists>h' pf sf ns name. with_endpoint plain_env k h' pf sf ns name = Inr (started k h)" for k
    using started_from_files [of plain_env k h] by (metis plain_env_simps(6,7))
  ultimately show ?thesis by (simp add: net_ok_def)
qed

text \<open>They accept each other at their start; the first grants port 80 and dials, and its announcement
  arrives.\<close>

definition hello :: bytes where
  "hello = the (encode_message (ExposedPorts [80]))"

abbreviation k1 :: endpoint_id where "k1 \<equiv> EndpointId [1]"
abbreviation k2 :: endpoint_id where "k2 \<equiv> EndpointId [2]"

definition hello_events :: "net_event list" where
  "hello_events =
     [Alone k1 (Startup [hex_show k2] [80]), Alone k2 (Startup [hex_show k1] []), Handshake k1 0,
      NearEnd 0 True, FarEnd 0 True, Message 0 True 0 (UniStream 0 (Some hello))]"

lemma hex_handles: "parsed_handles plain_env [hex_show k] = [HKey k]"
  using printed_key_parses [OF hex_codec, of k] by (simp add: parsed_handles_def map_filter_simps)

definition hello_net :: net where
  "hello_net = pair_net plain_env localhost k1 k2"

lemmas run_defs = run_startup_def Let_def started_def pm_new_def d_expose_def
  broadcast_grants_def add_peer_def install_peer_def peer_new_def announce_to_def announce_def send_ports_def
  send_to_def dialed_def new_conn_def held_is_live_def resolve_held_iff install_connection_def set_peer_def
  send_message_def expose_def admit_known_def session_new_def grants_default_def grants_add_def ports_for_def

lemma hello_is: "encode_message (ExposedPorts [80]) = Some hello" "length hello \<le> READ_LIMIT"
    "decode_message hello = Some (ExposedPorts [80])"
proof -
  show e: "encode_message (ExposedPorts [80]) = Some hello" by (simp add: hello_def encode_message_def)
  show "length hello \<le> READ_LIMIT"
    by (simp add: hello_def encode_message_def length_to_unary enc_list_def enc_map_def READ_LIMIT_def)
  show "decode_message hello = Some (ExposedPorts [80])" using message_codec_ok [of "ExposedPorts [80]"] e by auto
qed

text \<open>The granting machine after its start and after its dial.\<close>

definition granter :: pm where
  "granter = daemon_run plain_env (started k1 localhost) [Startup [hex_show k2] [80]]"

lemma granter_is: "heap granter = [peer_new k2 None True None None]" "conns granter = []"
  by (simp_all add: granter_def hex_handles run_defs)

lemma granter_dials:
  "conns (daemon_step plain_env granter (Dialed 0 True)) =
     [\<lparr>c_remote = k2, c_close_reason = None, c_opens_streams = True, c_sent = [hello]\<rparr>]"
  by (simp add: granter_def hex_handles run_defs hello_is)

text \<open>The other one after its start, and when the connection has come in.\<close>

definition listener :: pm where
  "listener = daemon_run plain_env (started k2 localhost) [Startup [hex_show k1] []]"

lemma listener_is: "heap listener = [peer_new k1 None True None None]" "conns listener = []" "peers listener = [(k1, 0)]"
  by (simp_all add: listener_def hex_handles run_defs)

definition listener' :: pm where
  "listener' = daemon_step plain_env listener (Incoming k1 True)"

lemma listener_hears: "peers listener' = [(k1, 0)]" "0 < length (heap listener')" "p_endpoint_id (heap listener' ! 0) = k1"
    "c_remote (conns listener' ! 0) = k1"
proof -
  show "peers listener' = [(k1, 0)]"
    by (simp add: listener'_def listener_def hex_handles run_defs handle_connection_def on_inbound_def apply_actions_def apply_action_def
        encode_message_def)
  show "0 < length (heap listener')" "p_endpoint_id (heap listener' ! 0) = k1"
    using persists_step [of listener plain_env "Incoming k1 True"] by (auto simp: listener'_def persists_def listener_is peer_new_def)
  have "persists (new_conn listener k1 True) listener'"
    unfolding listener'_def daemon_step.simps by (rule persists_incoming)
  then show "c_remote (conns listener' ! 0) = k1" by (simp add: persists_def new_conn_def listener_is)
qed

text \<open>The worlds of the run, one step after the other.\<close>

definition hello_link :: "nat option \<Rightarrow> nat option \<Rightarrow> link" where
  "hello_link near far = \<lparr>l_from = k1, l_object = 0, l_to = k2, l_near = near, l_far = far\<rparr>"

definition hello_world :: "daemon_event list \<Rightarrow> daemon_event list \<Rightarrow> link list \<Rightarrow> (nat \<times> bool \<times> nat) list \<Rightarrow> world" where
  "hello_world h1 h2 ls ar = \<lparr>hist = (\<lambda>_. [])(k1 := h1, k2 := h2), links = ls, arrived = ar\<rparr>"

lemma hello_world_simps [simp]:
  "hist (hello_world h1 h2 ls ar) k1 = h1" "hist (hello_world h1 h2 ls ar) k2 = h2"
  "links (hello_world h1 h2 ls ar) = ls" "arrived (hello_world h1 h2 ls ar) = ar"
  "happens k1 e (hello_world h1 h2 ls ar) = hello_world (h1 @ [e]) h2 ls ar"
  "happens k2 e (hello_world h1 h2 ls ar) = hello_world h1 (h2 @ [e]) ls ar"
  "(hello_world h1 h2 ls ar)\<lparr>links := ls'\<rparr> = hello_world h1 h2 ls' ar"
  "(hello_world h1 h2 ls ar)\<lparr>arrived := ar'\<rparr> = hello_world h1 h2 ls ar'"
  "node hello_net (hello_world h1 h2 ls ar) k1 = daemon_run plain_env (started k1 localhost) h1"
  "node hello_net (hello_world h1 h2 ls ar) k2 = daemon_run plain_env (started k2 localhost) h2"
  by (auto simp: hello_world_def happens_def node_def hello_net_def)

definition hello_done :: world where
  "hello_done = hello_world [Startup [hex_show k2] [80], Dialed 0 True]
     [Startup [hex_show k1] [], Incoming k1 True, UniStream 0 (Some hello)] [hello_link (Some 0) (Some 0)] [(0, True, 0)]"

lemma hello_runs: "net_run hello_net hello_events net_start = Some hello_done"
proof -
  let ?e1 = "Startup [hex_show k2] [80]" and ?e2 = "Startup [hex_show k1] []"
  let ?w = hello_world
  have start: "net_start = ?w [] [] [] []" by (simp add: net_start_def hello_world_def fun_eq_iff)
  have h: "honest hello_net = {k1, k2}" by (simp add: hello_net_def)
  have g: "daemon_run plain_env (started k1 localhost) [?e1] = granter" by (simp add: granter_def)
  have l: "daemon_run plain_env (started k2 localhost) [?e2] = listener" by (simp add: listener_def)
  have g': "daemon_run plain_env (started k1 localhost) [?e1, Dialed 0 True] = daemon_step plain_env granter (Dialed 0 True)"
    by (simp add: granter_def)
  have l': "daemon_run plain_env (started k2 localhost) [?e2, Incoming k1 True] = listener'"
    by (simp add: listener_def listener'_def)
  have 1: "net_do hello_net (Alone k1 ?e1) (?w [] [] [] []) = Some (?w [?e1] [] [] [])"
    by (simp add: h outside_def del: daemon_step.simps)
  have 2: "net_do hello_net (Alone k2 ?e2) (?w [?e1] [] [] []) = Some (?w [?e1] [?e2] [] [])"
    by (simp add: h outside_def del: daemon_step.simps)
  have 3: "net_do hello_net (Handshake k1 0) (?w [?e1] [?e2] [] []) = Some (?w [?e1] [?e2] [hello_link None None] [])"
    by (simp add: h g granter_is peer_new_def hello_link_def del: daemon_step.simps run_all.simps)
  have 4: "net_do hello_net (NearEnd 0 True) (?w [?e1] [?e2] [hello_link None None] []) =
      Some (?w [?e1, Dialed 0 True] [?e2] [hello_link (Some 0) None] [])"
    by (simp add: g granter_is hello_link_def Let_def del: daemon_step.simps run_all.simps)
  have 5: "net_do hello_net (FarEnd 0 True) (?w [?e1, Dialed 0 True] [?e2] [hello_link (Some 0) None] []) =
      Some (?w [?e1, Dialed 0 True] [?e2, Incoming k1 True] [hello_link (Some 0) (Some 0)] [])"
    by (simp add: l listener_is hello_link_def Let_def del: daemon_step.simps run_all.simps)
  have 6: "net_do hello_net (Message 0 True 0 (UniStream 0 (Some hello)))
      (?w [?e1, Dialed 0 True] [?e2, Incoming k1 True] [hello_link (Some 0) (Some 0)] []) = Some hello_done"
    using listener_hears by (simp add: g' l' granter_dials receives_def hello_link_def writer_def reader_def hello_done_def
        del: daemon_step.simps run_all.simps)
  show ?thesis
    unfolding hello_events_def start net_run.simps 1 2 3 4 5 6 Option.bind.bind_lunit by simp
qed

lemma hello_heard:
  "map_of (peers (node hello_net hello_done k2)) k1 = Some 0"
  "p_exposed_ports (heap (node hello_net hello_done k2) ! 0) = [80]"
proof -
  have "node hello_net hello_done k2 = update_peer_ports plain_env listener' 0 [80]"
    using hello_is(2) by (simp add: hello_done_def listener'_def listener_def handle_uni_stream_def hello_is(3))
  then show "map_of (peers (node hello_net hello_done k2)) k1 = Some 0"
    "p_exposed_ports (heap (node hello_net hello_done k2) ! 0) = [80]"
    using touches_keeps(1) [OF touches_update_ports] listener_hears by (simp_all add: exposed_update)
qed

theorem listed_ports_were_granted_witness:
  "\<exists>pre e post. hist hello_done k1 = pre @ e # post \<and>
     daemon_grants plain_env 80 k2 (daemon_run plain_env (started k1 localhost) pre) e"
proof -
  have "net_reach hello_net hello_done" by (rule net_run_reach [OF hello_runs])
  moreover have "net_ok hello_net" unfolding hello_net_def by (rule pair_net_ok)
  ultimately show ?thesis
    using listed_ports_were_granted [of hello_net hello_done k1 k2 0 80] hello_heard by (simp add: hello_net_def)
qed

end
