(* ===== verification/Session_Tests.thy ===== *)
theory Session_Tests
  imports Session_Props Plain_Codec
begin

text \<open>
  The repository's own unit tests of the authorization core (\<open>src/core/session.rs\<close>), run on the model: each test is a
  definition of the same name that performs the same calls and makes the same assertions. What a test takes from
  outside (keys and their text, random bytes, the time) is an argument, so that a test is proved for
  all of them and not only for the values it happens to use.
\<close>

subsection \<open>What the tests take from outside\<close>

record bench =
  t_key :: "nat \<Rightarrow> endpoint_id"
  t_show :: "endpoint_id \<Rightarrow> string"
  t_parse :: "string \<Rightarrow> endpoint_id option"
  t_rnd :: bytes
  t_minted :: instant
  t_claimed :: instant
  t_pins :: "pin codec"
  t_file :: state_file

text \<open>Different seeds give different keys, a key's text is read back and has at least eight characters, none of the
  words the tests use is a key, the codes are claimed while they live, and the file system works.\<close>

definition bench_ok :: "bench \<Rightarrow> bool" where
  "bench_ok t \<longleftrightarrow> inj (t_key t) \<and> key_codec (t_show t) (t_parse t) \<and> (\<forall>i. SHORT_KEY \<le> length (t_show t (t_key t i))) \<and>
     (\<forall>s \<in> {''peer'', ''nobody'', ''not-a-key'', [], ''nonsense''}. t_parse t s = None) \<and>
     t_minted t \<le> t_claimed t \<and> t_claimed t < t_minted t + TOKEN_TTL \<and>
     codec_ok (t_pins t) \<and> file_usable (t_file t) \<and> contents (t_file t) = None"

lemma bench_okD:
  assumes "bench_ok t"
  shows "t_key t i = t_key t j \<longleftrightarrow> i = j" "key_codec (t_show t) (t_parse t)" "SHORT_KEY \<le> length (t_show t (t_key t i))"
    "s \<in> {''peer'', ''nobody'', ''not-a-key'', [], ''nonsense''} \<Longrightarrow> t_parse t s = None"
    "t_minted t \<le> t_claimed t" "t_claimed t < t_minted t + TOKEN_TTL"
    "codec_ok (t_pins t)" "file_usable (t_file t)" "contents (t_file t) = None"
proof -
  note ok = assms [unfolded bench_ok_def]
  show "t_key t i = t_key t j \<longleftrightarrow> i = j" using ok [THEN conjunct1] by (rule inj_eq)
  show "t_parse t s = None" if "s \<in> {''peer'', ''nobody'', ''not-a-key'', [], ''nonsense''}"
    using ok [THEN conjunct2, THEN conjunct2, THEN conjunct2, THEN conjunct1] that by (rule bspec)
  show "key_codec (t_show t) (t_parse t)" "SHORT_KEY \<le> length (t_show t (t_key t i))" "t_minted t \<le> t_claimed t"
    "t_claimed t < t_minted t + TOKEN_TTL" "codec_ok (t_pins t)" "file_usable (t_file t)" "contents (t_file t) = None"
    using ok by blast+
qed

lemma bench_text: "bench_ok t \<Longrightarrow> t_parse t (t_show t k) = Some k"
  using bench_okD(2) unfolding key_codec_def by blast

lemma bench_words:
  assumes "bench_ok t"
  shows "t_parse t ''peer'' = None" "t_parse t ''nobody'' = None" "t_parse t ''not-a-key'' = None" "t_parse t [] = None"
    "t_parse t ''nonsense'' = None"
  by (rule bench_okD(4) [OF assms], simp)+

lemmas bench_simps [simp] = bench_okD(1,6) bench_text bench_words

subsection \<open>Authorization\<close>

definition session_with :: "endpoint_id \<Rightarrow> session" where
  "session_with peer = snd (admit_known session_new peer (Some ''peer'') Added)"

definition tunnel_needs_a_grant :: "bench \<Rightarrow> bool" where
  "tunnel_needs_a_grant t =
     (let a = t_key t 1; s = session_with a
      in on_tunnel s a 4000 = RejectTunnel NotGranted)"

definition tunnel_is_served_once_granted :: "bench \<Rightarrow> bool" where
  "tunnel_is_served_once_granted t =
     (let a = t_key t 1; s = snd (expose (session_with a) 4000 [a])
      in on_tunnel s a 4000 = ServeTunnel 4000)"

definition a_grant_to_one_peer_is_not_usable_by_another :: "bench \<Rightarrow> bool" where
  "a_grant_to_one_peer_is_not_usable_by_another t =
     (let a = t_key t 1; b = t_key t 2;
          s = session_with a;
          s = snd (admit_known s b None Added);
          s = snd (expose s 4000 [a])
      in on_tunnel s b 4000 = RejectTunnel NotGranted)"

definition a_grant_covers_only_the_port_named :: "bench \<Rightarrow> bool" where
  "a_grant_covers_only_the_port_named t =
     (let a = t_key t 1; s = snd (expose (session_with a) 4000 [a])
      in on_tunnel s a 4001 = RejectTunnel NotGranted)"

subsection \<open>Grantee resolution\<close>

definition a_grantee_can_be_named_by_label :: "bench \<Rightarrow> bool" where
  "a_grantee_can_be_named_by_label t =
     (let a = t_key t 1 in resolve_grantee (t_parse t) (session_with a) ''peer'' = Inr a)"

definition a_key_is_a_grantee_even_before_admission :: "bench \<Rightarrow> bool" where
  "a_key_is_a_grantee_even_before_admission t =
     (let a = t_key t 1 in resolve_grantee (t_parse t) session_new (t_show t a) = Inr a)"

definition an_unknown_name_is_refused :: "bench \<Rightarrow> bool" where
  "an_unknown_name_is_refused t =
     (isl (resolve_grantee (t_parse t) (session_with (t_key t 1)) ''nobody''))"

definition a_name_two_peers_share_is_refused :: "bench \<Rightarrow> bool" where
  "a_name_two_peers_share_is_refused t =
     (let s = snd (admit_known (session_with (t_key t 1)) (t_key t 2) (Some ''peer'') Added)
      in isl (resolve_grantee (t_parse t) s ''peer''))"

subsection \<open>Announcement\<close>

definition a_peer_is_told_only_its_own_grants :: "bench \<Rightarrow> bool" where
  "a_peer_is_told_only_its_own_grants t =
     (let a = t_key t 1; b = t_key t 2;
          s = session_with a;
          s = snd (admit_known s b None Added);
          s = snd (expose s 4000 [a]);
          s = snd (expose s 4001 [b])
      in announce s a = Announce a [4000])"

definition revocation_announces_an_empty_list :: "bench \<Rightarrow> bool" where
  "revocation_announces_an_empty_list t =
     (let a = t_key t 1; s = snd (expose (session_with a) 4000 [a])
      in fst (unexpose s 4000 None) = [Announce a []])"

definition revoking_one_grantee_leaves_the_other :: "bench \<Rightarrow> bool" where
  "revoking_one_grantee_leaves_the_other t =
     (let a = t_key t 1; b = t_key t 2;
          s = session_with a;
          s = snd (admit_known s b None Added);
          s = snd (expose s 4000 [a, b]);
          s = snd (unexpose s 4000 (Some a))
      in on_tunnel s a 4000 = RejectTunnel NotGranted \<and> on_tunnel s b 4000 = ServeTunnel 4000)"

subsection \<open>Admission\<close>

definition an_unknown_peer_is_not_admitted_on_arrival :: "bench \<Rightarrow> bool" where
  "an_unknown_peer_is_not_admitted_on_arrival t = (fst (on_inbound session_new 1 (t_key t 9)) = [])"

definition an_unknown_peer_with_no_claim_is_refused_on_timeout :: "bench \<Rightarrow> bool" where
  "an_unknown_peer_with_no_claim_is_refused_on_timeout t =
     (let s = snd (on_inbound session_new 1 (t_key t 9));
          (actions, s) = on_enroll_timeout s 1
      in actions = [Refuse 1 EnrollTimeout] \<and> admission_of s (t_key t 9) = None)"

definition a_bad_code_is_refused :: "bench \<Rightarrow> bool" where
  "a_bad_code_is_refused t =
     (let k = t_key t 9;
          s = snd (on_inbound session_new 1 k);
          (actions, s) = on_unadmitted s 1 k (Enroll ''nope'' None) (t_claimed t)
      in actions = [Refuse 1 NotAuthorized] \<and> admission_of s k = None)"

definition a_valid_code_admits_and_pins :: "bench \<Rightarrow> bool" where
  "a_valid_code_admits_and_pins t =
     (let k = t_key t 9;
          (token, s) = mint_token session_new (Some ''rustdev'') [] (t_rnd t) (t_minted t);
          s = snd (on_inbound s 1 k);
          (actions, s) = on_unadmitted s 1 k (Enroll token None) (t_claimed t)
      in actions = [Admit 1 k False, PersistPin k (Some ''rustdev''), Announce k []] \<and>
         admission_of s k = Some Code \<and> label_of s k = Some ''rustdev'')"

definition a_code_is_single_use :: "bench \<Rightarrow> bool" where
  "a_code_is_single_use t =
     (let (token, s) = mint_token session_new (Some ''rustdev'') [] (t_rnd t) (t_minted t);
          one = t_key t 1;
          s = snd (on_inbound s 1 one);
          s = snd (on_unadmitted s 1 one (Enroll token None) (t_claimed t));
          two = t_key t 2;
          s = snd (on_inbound s 2 two);
          (actions, s) = on_unadmitted s 2 two (Enroll token None) (t_claimed t)
      in actions = [Refuse 2 NotAuthorized] \<and> admission_of s two = None)"

definition an_unadmitted_peer_announcing_ports_is_not_admitted_by_it :: "bench \<Rightarrow> bool" where
  "an_unadmitted_peer_announcing_ports_is_not_admitted_by_it t =
     (let k = t_key t 9;
          s = snd (on_inbound session_new 1 k);
          (actions, s) = on_unadmitted s 1 k (ExposedPorts [4000]) (t_claimed t)
      in actions = [] \<and> admission_of s k = None)"

definition ports_announced_before_the_claim_are_applied_after_it :: "bench \<Rightarrow> bool" where
  "ports_announced_before_the_claim_are_applied_after_it t =
     (let k = t_key t 9;
          (token, s) = mint_token session_new (Some ''rustdev'') [] (t_rnd t) (t_minted t);
          s = snd (on_inbound s 1 k);
          s = snd (on_unadmitted s 1 k (ExposedPorts [4000, 4001]) (t_claimed t));
          actions = fst (on_unadmitted s 1 k (Enroll token None) (t_claimed t))
      in ApplyPorts k [4000, 4001] \<in> set actions)"

definition a_known_peer_is_admitted_with_no_claim :: "bench \<Rightarrow> bool" where
  "a_known_peer_is_admitted_with_no_claim t =
     (let a = t_key t 1
      in fst (on_inbound (session_with a) 1 a) = [Admit 1 a True, Announce a []])"

definition admitting_a_known_peer_twice_changes_nothing :: "bench \<Rightarrow> bool" where
  "admitting_a_known_peer_twice_changes_nothing t =
     (let a = t_key t 1;
          (new, s) = admit_known (session_with a) a (Some ''other'') Key
      in \<not> new \<and> label_of s a = Some ''peer'' \<and> admission_of s a = Some Added)"

definition admission_records_how_the_peer_arrived :: "bench \<Rightarrow> bool" where
  "admission_records_how_the_peer_arrived t =
     (let s = snd (admit_known session_new (t_key t 1) None Key)
      in admission_of s (t_key t 1) = Some Key)"

subsection \<open>Eviction and carried grants\<close>

definition eviction_revokes_every_grant_naming_the_peer :: "bench \<Rightarrow> bool" where
  "eviction_revokes_every_grant_naming_the_peer t =
     (let a = t_key t 1; b = t_key t 2;
          s = session_with a;
          s = snd (admit_known s b None Added);
          s = snd (expose s 4000 [a, b]);
          s = snd (expose s 4001 [a]);
          s = snd (evict s a)
      in admission_of s a = None \<and> on_tunnel s a 4000 = RejectTunnel NotGranted \<and> granted_ports s = [4000])"

definition evicting_an_unknown_peer_does_nothing :: "bench \<Rightarrow> bool" where
  "evicting_an_unknown_peer_does_nothing t = (fst (evict session_new (t_key t 1)) = [])"

definition an_evicted_peer_is_no_longer_admitted_on_arrival :: "bench \<Rightarrow> bool" where
  "an_evicted_peer_is_no_longer_admitted_on_arrival t =
     (let a = t_key t 1; s = snd (evict (session_with a) a)
      in fst (on_inbound s 1 a) = [])"

definition an_invitation_can_carry_a_grant :: "bench \<Rightarrow> bool" where
  "an_invitation_can_carry_a_grant t =
     (let k = t_key t 9;
          (token, s) = mint_token session_new None [8080] (t_rnd t) (t_minted t);
          s = snd (on_inbound s 1 k);
          (actions, s) = on_unadmitted s 1 k (Enroll token None) (t_claimed t)
      in Announce k [8080] \<in> set actions \<and> on_tunnel s k 8080 = ServeTunnel 8080)"

definition a_carried_grant_names_only_the_claimer :: "bench \<Rightarrow> bool" where
  "a_carried_grant_names_only_the_claimer t =
     (let a = t_key t 1; b = t_key t 2;
          (token, s) = mint_token (session_with a) None [8080] (t_rnd t) (t_minted t);
          s = snd (on_inbound s 1 b);
          s = snd (on_unadmitted s 1 b (Enroll token None) (t_claimed t))
      in on_tunnel s b 8080 = ServeTunnel 8080 \<and> on_tunnel s a 8080 = RejectTunnel NotGranted)"

definition an_unnamed_peer_falls_back_to_a_short_key :: "bench \<Rightarrow> bool" where
  "an_unnamed_peer_falls_back_to_a_short_key t =
     (let k = t_key t 1; name = default_name (t_show t) k
      in length name = SHORT_KEY \<and> take (length name) (t_show t k) = name)"

named_theorems test_defs

lemmas [test_defs] = session_with_def tunnel_needs_a_grant_def tunnel_is_served_once_granted_def
  a_grant_to_one_peer_is_not_usable_by_another_def a_grant_covers_only_the_port_named_def
  a_grantee_can_be_named_by_label_def a_key_is_a_grantee_even_before_admission_def an_unknown_name_is_refused_def
  a_name_two_peers_share_is_refused_def a_peer_is_told_only_its_own_grants_def
  revocation_announces_an_empty_list_def revoking_one_grantee_leaves_the_other_def

lemma core_grants:
  "s_grants (snd (admit_known s k l adm)) = s_grants s"
  "s_grants (snd (expose s p ks)) = fold (\<lambda>k g. grants_add g p k) ks (s_grants s)"
  "s_grants (snd (unexpose s p to)) = grants_remove (s_grants s) p to" "s_grants session_new = grants_default"
  by (simp_all add: admit_known_def expose_def unexpose_def session_new_def Let_def)

lemma core_peers:
  "s_peers (snd (admit_known s k l adm)) = (if map_of (s_peers s) k \<noteq> None then s_peers s else bput k \<lparr>label = l, admission = adm\<rparr> (s_peers s))"
  "s_peers (snd (expose s p ks)) = s_peers s" "s_peers (snd (unexpose s p to)) = s_peers s" "s_peers session_new = []"
  by (simp_all add: admit_known_def expose_def unexpose_def session_new_def Let_def)

lemmas run_grants = grants_default_def grants_add_def grants_remove_def allows_def ports_for_def grants_ports_def revoke_grantee_def

lemmas [test_defs] = an_unknown_peer_is_not_admitted_on_arrival_def an_unknown_peer_with_no_claim_is_refused_on_timeout_def
  a_bad_code_is_refused_def a_valid_code_admits_and_pins_def a_code_is_single_use_def
  an_unadmitted_peer_announcing_ports_is_not_admitted_by_it_def ports_announced_before_the_claim_are_applied_after_it_def
  a_known_peer_is_admitted_with_no_claim_def admitting_a_known_peer_twice_changes_nothing_def
  admission_records_how_the_peer_arrived_def eviction_revokes_every_grant_naming_the_peer_def
  evicting_an_unknown_peer_does_nothing_def an_evicted_peer_is_no_longer_admitted_on_arrival_def
  an_invitation_can_carry_a_grant_def a_carried_grant_names_only_the_claimer_def
  an_unnamed_peer_falls_back_to_a_short_key_def

lemma authorization_tests:
  assumes "bench_ok t"
  shows "tunnel_needs_a_grant t" "tunnel_is_served_once_granted t" "a_grant_to_one_peer_is_not_usable_by_another t"
    "a_grant_covers_only_the_port_named t"
  using assms by (simp_all add: test_defs Let_def on_tunnel_def core_grants run_grants)

lemma grantee_tests:
  assumes "bench_ok t"
  shows "a_grantee_can_be_named_by_label t" "a_key_is_a_grantee_even_before_admission t" "an_unknown_name_is_refused t"
    "a_name_two_peers_share_is_refused t"
  using assms by (simp_all add: test_defs Let_def resolve_grantee_def core_peers)

lemma announcement_tests:
  assumes "bench_ok t"
  shows "a_peer_is_told_only_its_own_grants t" "revocation_announces_an_empty_list t" "revoking_one_grantee_leaves_the_other t"
proof -
  show "a_peer_is_told_only_its_own_grants t"
    using assms by (simp add: test_defs Let_def announce_def core_grants run_grants)
  show "revocation_announces_an_empty_list t"
    using assms by (simp add: test_defs Let_def announce_def core_grants core_peers run_grants unexpose_def announce_all_def)
  show "revoking_one_grantee_leaves_the_other t"
    using assms by (simp add: test_defs Let_def on_tunnel_def core_grants run_grants)
qed

lemmas run_admission = Let_def session_new_def on_inbound_def on_unadmitted_def on_enroll_timeout_def admission_of_def label_of_def
  mint_token_def mint_def mint_with_ttl_def claim_def tokens_default_def early_of_def announce_def on_tunnel_def admit_known_def

lemma core_tokens:
  "s_tokens (snd (on_inbound s c k)) = s_tokens s" "s_peers (snd (on_inbound s c k)) = s_peers s"
  "s_tokens (snd (on_unadmitted s c k (Enroll token v) now)) = snd (claim (s_tokens s) token now)"
  "s_peers (snd (on_unadmitted s c k (Enroll token v) now)) = (case fst (claim (s_tokens s) token now) of
     None \<Rightarrow> s_peers s | Some cl \<Rightarrow> bput k \<lparr>label = claimed_name cl, admission = Code\<rparr> (s_peers s))"
  "fst (claim (s_tokens s) token now) = None \<Longrightarrow> fst (on_unadmitted s c k (Enroll token v) now) = [Refuse c NotAuthorized]"
  by (auto simp: on_inbound_def on_unadmitted_def Let_def split: prod.splits option.splits)

lemma admission_tests:
  assumes "bench_ok t"
  shows "an_unknown_peer_is_not_admitted_on_arrival t" "an_unknown_peer_with_no_claim_is_refused_on_timeout t"
    "a_bad_code_is_refused t" "a_valid_code_admits_and_pins t"
    "an_unadmitted_peer_announcing_ports_is_not_admitted_by_it t" "ports_announced_before_the_claim_are_applied_after_it t"
    "a_known_peer_is_admitted_with_no_claim t" "admitting_a_known_peer_twice_changes_nothing t"
    "admission_records_how_the_peer_arrived t"
  using assms by (simp_all add: test_defs run_admission run_grants bdel_def)

lemma single_use_test:
  assumes t: "bench_ok t"
  shows "a_code_is_single_use t"
proof -
  obtain token s where m: "mint_token session_new (Some ''rustdev'') [] (t_rnd t) (t_minted t) = (token, s)" by fastforce
  let ?s1 = "snd (on_unadmitted (snd (on_inbound s 1 (t_key t 1))) 1 (t_key t 1) (Enroll token None) (t_claimed t))"
  let ?s2 = "snd (on_inbound ?s1 2 (t_key t 2))"
  have s: "tokens_wf (s_tokens s)" "s_peers s = []"
    using session_wf_step [OF session_wf_new, of "Mint (Some ''rustdev'') [] (t_rnd t) (t_minted t)"] m
    by (auto simp: session_wf_def mint_token_def session_new_def split: prod.splits)
  have "fst (claim (s_tokens ?s2) token (t_claimed t)) = None"
    unfolding core_tokens(1,3) by (rule cs.redeemed_once [OF s(1)]) simp
  then have "fst (on_unadmitted ?s2 2 (t_key t 2) (Enroll token None) (t_claimed t)) = [Refuse 2 NotAuthorized]"
    "s_peers (snd (on_unadmitted ?s2 2 (t_key t 2) (Enroll token None) (t_claimed t))) = s_peers ?s1"
    by (simp_all add: core_tokens(2,4,5))
  moreover have "map_of (s_peers ?s1) (t_key t 2) = None" using t by (simp add: core_tokens(2,4) s(2) split: option.split)
  ultimately show ?thesis
    unfolding a_code_is_single_use_def Let_def m by (simp add: admission_of_def case_prod_beta)
qed

lemma eviction_tests:
  assumes "bench_ok t"
  shows "evicting_an_unknown_peer_does_nothing t" "an_evicted_peer_is_no_longer_admitted_on_arrival t"
    "an_invitation_can_carry_a_grant t" "a_carried_grant_names_only_the_claimer t"
  using assms by (simp_all add: test_defs run_admission run_grants evict_def bdel_def)

lemma evict_leaves:
  assumes "s_grants s = \<lparr>by_port = [(4000, [b, a]), (4001, [a])]\<rparr>" "map_of (s_peers s) a \<noteq> None" "a \<noteq> b"
  shows "s_peers (snd (evict s a)) = bdel a (s_peers s)" "s_grants (snd (evict s a)) = \<lparr>by_port = [(4000, [b])]\<rparr>"
  using assms by (auto simp: evict_def revoke_grantee_def)

lemma eviction_revokes_test:
  assumes t: "bench_ok t"
  shows "eviction_revokes_every_grant_naming_the_peer t"
proof -
  let ?a = "t_key t 1" and ?b = "t_key t 2"
  let ?s = "snd (expose (snd (expose (snd (admit_known (session_with ?a) ?b None Added)) 4000 [?a, ?b])) 4001 [?a])"
  have "s_grants ?s = \<lparr>by_port = [(4000, [?b, ?a]), (4001, [?a])]\<rparr>" "map_of (s_peers ?s) ?a \<noteq> None" "?a \<noteq> ?b"
    using t by (simp_all add: session_with_def core_grants core_peers run_grants)
  note left = evict_leaves [OF this]
  have "map_of (s_peers (snd (evict ?s ?a))) ?a = None" "allows (s_grants (snd (evict ?s ?a))) 4000 ?a = False"
    "grants_ports (s_grants (snd (evict ?s ?a))) = [4000]"
    unfolding left using t by (simp_all add: map_of_bdel allows_def grants_ports_def)
  then show ?thesis
    unfolding eviction_revokes_every_grant_naming_the_peer_def Let_def admission_of_def on_tunnel_def granted_ports_def by simp
qed

lemma short_name_test:
  assumes "bench_ok t"
  shows "an_unnamed_peer_falls_back_to_a_short_key t"
proof -
  have "\<forall>c \<in> set (t_show t (t_key t 1)). graphic c" using bench_okD(2) [OF assms] by (simp add: key_codec_def)
  then have "take_chars n (t_show t (t_key t 1)) = take n (t_show t (t_key t 1))" for n
    by (rule take_chars_ascii)
  then show ?thesis using bench_okD(3) [OF assms, of 1] by (simp add: test_defs Let_def default_name_def)
qed

end
