(* ===== verification/Core_Tests.thy ===== *)
theory Core_Tests
  imports Session_Tests Dial Backoff
begin

text \<open>
  The unit tests of the other parts of the core, run on the model in the same way: the grant table
  (\<open>src/core/grants.rs\<close>), double dials (\<open>src/core/dial.rs\<close>), reconnect delays (\<open>src/core/backoff.rs\<close>),
  handles (\<open>src/core/invite.rs\<close>), and codes and pins (\<open>src/enroll.rs\<close>).
\<close>

subsection \<open>Grants\<close>

definition default_deny :: "bench \<Rightarrow> bool" where
  "default_deny t = (\<not> allows grants_default 4000 (t_key t 1) \<and> ports_for grants_default (t_key t 1) = [])"

definition grant_is_directed :: "bench \<Rightarrow> bool" where
  "grant_is_directed t =
     (let a = t_key t 1; b = t_key t 2; g = grants_add grants_default 4000 a
      in allows g 4000 a \<and> \<not> allows g 4000 b \<and> \<not> allows g 4001 a \<and> ports_for g a = [4000] \<and> ports_for g b = [])"

definition revoke_grantee_clears_all_their_grants :: "bench \<Rightarrow> bool" where
  "revoke_grantee_clears_all_their_grants t =
     (let a = t_key t 1; b = t_key t 2;
          g = grants_add grants_default 4000 a;
          g = grants_add g 4001 a;
          g = grants_add g 4000 b;
          g = revoke_grantee g a
      in \<not> allows g 4000 a \<and> \<not> allows g 4001 a \<and> allows g 4000 b \<and> grants_ports g = [4000])"

definition remove_one_grantee_keeps_others :: "bench \<Rightarrow> bool" where
  "remove_one_grantee_keeps_others t =
     (let a = t_key t 1; b = t_key t 2;
          g = grants_add grants_default 4000 a;
          g = grants_add g 4000 b;
          g1 = grants_remove g 4000 (Some a);
          g2 = grants_remove g1 4000 None
      in \<not> allows g1 4000 a \<and> allows g1 4000 b \<and> \<not> allows g2 4000 b \<and> grants_ports g2 = [])"

subsection \<open>Double dials\<close>

definition dial_pair :: "bench \<Rightarrow> endpoint_id \<times> endpoint_id" where
  "dial_pair t =
     (let a = t_key t 1; b = t_key t 2
      in if as_bytes a < as_bytes b then (a, b) else (b, a))"

definition a_reconnect_from_the_dialer_is_not_a_race :: "bench \<Rightarrow> bool" where
  "a_reconnect_from_the_dialer_is_not_a_race t =
     (let (low, high) = dial_pair t
      in resolve low high True False False = Arriving \<and> resolve high low True False False = Arriving)"

definition a_closed_slot_takes_arriving :: "bench \<Rightarrow> bool" where
  "a_closed_slot_takes_arriving t =
     (let (low, high) = dial_pair t
      in resolve low high False True False = Arriving \<and> resolve high low False True True = Arriving)"

definition the_lower_key_keeps_its_own_dial :: "bench \<Rightarrow> bool" where
  "the_lower_key_keeps_its_own_dial t =
     (let (low, high) = dial_pair t in resolve low high True True False = Held)"

definition the_higher_key_takes_theirs :: "bench \<Rightarrow> bool" where
  "the_higher_key_takes_theirs t =
     (let (low, high) = dial_pair t in resolve high low True True False = Arriving)"

definition both_ends_keep_the_lower_keys_dial :: "bench \<Rightarrow> bool" where
  "both_ends_keep_the_lower_keys_dial t =
     (let (low, high) = dial_pair t
      in resolve low high True True False = Held \<and> resolve high low True True False = Arriving)"

definition inbound_then_our_dial_still_keeps_the_lower_keys_dial :: "bench \<Rightarrow> bool" where
  "inbound_then_our_dial_still_keeps_the_lower_keys_dial t =
     (let (low, high) = dial_pair t
      in resolve low high True False True = Arriving \<and> resolve high low True False True = Held)"

subsection \<open>Reconnect delays\<close>

definition first_dial_is_immediate :: bool where
  "first_dial_is_immediate = (backoff_delay backoff_unreached = 0)"

definition a_dropped_connection_waits_a_step :: bool where
  "a_dropped_connection_waits_a_step = (backoff_delay backoff_connected = BACKOFF_INITIAL)"

text \<open>The loop of the next test: after each failure the delay is longer or at the ceiling.\<close>

fun never_stalls :: "nat \<Rightarrow> backoff \<Rightarrow> nat \<Rightarrow> bool" where
  "never_stalls 0 b seen = (seen = BACKOFF_MAX)"
| "never_stalls (Suc n) b seen =
     (let b = backoff_failed b
      in (backoff_delay b > seen \<or> backoff_delay b = BACKOFF_MAX) \<and> never_stalls n b (backoff_delay b))"

definition an_unreached_peer_backs_off :: bool where
  "an_unreached_peer_backs_off =
     (let b = backoff_failed backoff_unreached
      in backoff_delay b = BACKOFF_INITIAL \<and> never_stalls 10 b (backoff_delay b))"

fun climbs :: "backoff \<Rightarrow> nat list \<Rightarrow> bool" where
  "climbs b [] = True"
| "climbs b (expected # es) =
     (let b = backoff_failed b in backoff_delay b = secs expected \<and> climbs b es)"

definition the_delay_climbs_to_the_ceiling_and_stays :: bool where
  "the_delay_climbs_to_the_ceiling_and_stays = climbs backoff_connected [2, 4, 8, 10, 10, 10]"

definition connecting_again_clears_the_climb :: bool where
  "connecting_again_clears_the_climb =
     (let b = (backoff_failed ^^ 8) backoff_connected
      in backoff_delay b = BACKOFF_MAX \<and> backoff_delay (backoff_reset b) = BACKOFF_INITIAL)"

subsection \<open>Handles\<close>

definition parse_handle :: "bench \<Rightarrow> string \<Rightarrow> handle result" where
  "parse_handle t = handle_from_str (t_parse t)"

definition an_invitation_round_trips :: "bench \<Rightarrow> bool" where
  "an_invitation_round_trips t =
     (let invite = \<lparr>inv_key = t_key t 1, inv_code = ''abc123''\<rparr>
      in parse_handle t (invite_to_string (t_show t) invite) = Inr (HInvite invite))"

definition a_bare_key_parses_as_a_key :: "bench \<Rightarrow> bool" where
  "a_bare_key_parses_as_a_key t =
     (parse_handle t (t_show t (t_key t 1)) = Inr (HKey (t_key t 1)))"

definition an_invitation_and_a_key_agree_on_who_to_dial :: "bench \<Rightarrow> bool" where
  "an_invitation_and_a_key_agree_on_who_to_dial t =
     (let k = t_key t 1
      in case (parse_handle t (invite_to_string (t_show t) \<lparr>inv_key = k, inv_code = ''abc''\<rparr>),
               parse_handle t (t_show t k)) of
           (Inr invite, Inr bare) \<Rightarrow>
             handle_key invite = handle_key bare \<and> handle_code invite = Some ''abc'' \<and> handle_code bare = None
         | _ \<Rightarrow> False)"

definition junk_is_rejected :: "bench \<Rightarrow> bool" where
  "junk_is_rejected t = (isl (parse_handle t ''not-a-key'') \<and> isl (parse_handle t []))"

definition an_invitation_without_a_code_is_rejected :: "bench \<Rightarrow> bool" where
  "an_invitation_without_a_code_is_rejected t = isl (parse_handle t (t_show t (t_key t 1) @ ''.''))"

definition an_invitation_with_a_bad_key_is_rejected :: "bench \<Rightarrow> bool" where
  "an_invitation_with_a_bad_key_is_rejected t = isl (parse_handle t ''nonsense.abc123'')"

definition surrounding_whitespace_is_ignored :: "bench \<Rightarrow> bool" where
  "surrounding_whitespace_is_ignored t =
     (parse_handle t (''  '' @ t_show t (t_key t 1) @ ''  '') = Inr (HKey (t_key t 1)))"

subsection \<open>Codes and pins\<close>

definition token_is_single_use :: "bench \<Rightarrow> bool" where
  "token_is_single_use t =
     (let (token, ts) = mint tokens_default (Some ''rustdev'') [] (t_rnd t) (t_minted t);
          (first, ts) = claim ts token (t_claimed t)
      in first = Some \<lparr>claimed_name = Some ''rustdev'', claimed_ports = []\<rparr> \<and> fst (claim ts token (t_claimed t)) = None)"

definition unknown_token_fails :: "bench \<Rightarrow> bool" where
  "unknown_token_fails t = (fst (claim tokens_default ''nope'' (t_claimed t)) = None)"

definition expired_token_fails :: "bench \<Rightarrow> bool" where
  "expired_token_fails t =
     (let (token, ts) = mint_with_ttl tokens_default (Some ''rustdev'') [] 0 (t_rnd t) (t_minted t)
      in fst (claim ts token (t_claimed t)) = None)"

definition a_token_carries_its_ports :: "bench \<Rightarrow> bool" where
  "a_token_carries_its_ports t =
     (let (token, ts) = mint tokens_default None [8080] (t_rnd t) (t_minted t)
      in fst (claim ts token (t_claimed t)) = Some \<lparr>claimed_name = None, claimed_ports = [8080]\<rparr>)"

definition pins_roundtrip :: "bench \<Rightarrow> bool" where
  "pins_roundtrip t =
     (let c = t_pins t; f0 = t_file t;
          (r1, f1) = pins_add c f0 ''k1'' (Some ''rustdev'');
          (r2, f2) = pins_add c f1 ''k2'' (Some ''webdev'');
          (r3, f3) = pins_add c f2 ''k1'' (Some ''rustdev2'');
          (r4, f4) = pins_remove c f3 ''k2''
      in pins_load c f0 = Inr [] \<and> r1 = Inr () \<and> r2 = Inr () \<and> r3 = Inr () \<and> r4 = Inr () \<and>
         (case pins_load c f3 of
            Inl _ \<Rightarrow> False
          | Inr loaded \<Rightarrow>
              length loaded = 2 \<and>
              map_option pin_label (find (\<lambda>p. pin_key p = ''k1'') loaded) = Some (Some ''rustdev2'')) \<and>
         (case pins_load c f4 of Inl _ \<Rightarrow> False | Inr loaded \<Rightarrow> length loaded = 1))"

subsection \<open>They hold\<close>

lemma grant_tests:
  assumes "bench_ok t"
  shows "default_deny t" "grant_is_directed t" "revoke_grantee_clears_all_their_grants t" "remove_one_grantee_keeps_others t"
proof -
  let ?a = "t_key t 1" and ?b = "t_key t 2"
  have ab: "?a \<noteq> ?b" using assms by simp
  have a: "grants_add grants_default 4000 k = \<lparr>by_port = [(4000, [k])]\<rparr>" for k
    by (simp add: run_grants)
  have aa: "grants_add \<lparr>by_port = [(4000, [k])]\<rparr> 4001 k = \<lparr>by_port = [(4000, [k]), (4001, [k])]\<rparr>" for k
    by (simp add: run_grants)
  have aab: "grants_add \<lparr>by_port = [(4000, [k]), (4001, [k])]\<rparr> 4000 j = \<lparr>by_port = [(4000, [j, k]), (4001, [k])]\<rparr>" if "k \<noteq> j" for j k
    using that by (simp add: run_grants)
  have ab': "grants_add \<lparr>by_port = [(4000, [k])]\<rparr> 4000 j = \<lparr>by_port = [(4000, [j, k])]\<rparr>" if "k \<noteq> j" for j k
    using that by (simp add: run_grants)
  have r: "grants_remove \<lparr>by_port = [(4000, [j, k])]\<rparr> 4000 (Some k) = \<lparr>by_port = [(4000, [j])]\<rparr>" if "k \<noteq> j" for j k
    using that by (simp add: run_grants)
  show "default_deny t" by (simp add: default_deny_def run_grants)
  show "grant_is_directed t" unfolding grant_is_directed_def Let_def a using assms by (simp add: run_grants)
  show "revoke_grantee_clears_all_their_grants t"
    unfolding revoke_grantee_clears_all_their_grants_def Let_def a aa aab [OF ab] using assms by (simp add: run_grants)
  show "remove_one_grantee_keeps_others t"
    unfolding remove_one_grantee_keeps_others_def Let_def a ab' [OF ab] r [OF ab] using assms by (simp add: run_grants)
qed

lemma dial_pair_less:
  assumes "bench_ok t"
  obtains low high where "dial_pair t = (low, high)" "low < high"
proof (cases "t_key t 1 < t_key t 2")
  case True
  then show ?thesis using that by (simp add: dial_pair_def Let_def less_endpoint_id_def)
next
  case False
  then have "t_key t 2 < t_key t 1" using bench_okD(1) [OF assms, of 1 2] by (simp add: not_less_iff_gr_or_eq)
  then show ?thesis using False that by (simp add: dial_pair_def Let_def less_endpoint_id_def)
qed

lemma resolve_arriving_iff: "resolve o' t l h a = Arriving \<longleftrightarrow> resolve o' t l h a \<noteq> Held"
  by (cases "resolve o' t l h a") simp_all

lemma dial_tests:
  assumes "bench_ok t"
  shows "a_reconnect_from_the_dialer_is_not_a_race t" "a_closed_slot_takes_arriving t" "the_lower_key_keeps_its_own_dial t"
    "the_higher_key_takes_theirs t" "both_ends_keep_the_lower_keys_dial t"
    "inbound_then_our_dial_still_keeps_the_lower_keys_dial t"
proof -
  obtain low high where p: "dial_pair t = (low, high)" "low < high" using dial_pair_less [OF assms] .
  then have "\<not> high < low" by simp
  with p show "a_reconnect_from_the_dialer_is_not_a_race t" "a_closed_slot_takes_arriving t" "the_lower_key_keeps_its_own_dial t"
    "the_higher_key_takes_theirs t" "both_ends_keep_the_lower_keys_dial t"
    "inbound_then_our_dial_still_keeps_the_lower_keys_dial t"
    by (simp_all add: a_reconnect_from_the_dialer_is_not_a_race_def a_closed_slot_takes_arriving_def
        the_lower_key_keeps_its_own_dial_def the_higher_key_takes_theirs_def both_ends_keep_the_lower_keys_dial_def
        inbound_then_our_dial_still_keeps_the_lower_keys_dial_def resolve_held_iff resolve_arriving_iff)
qed

lemma failed_at:
  assumes "1 \<le> k" "k \<le> 10"
  shows "backoff_failed \<lparr>next_delay = secs k\<rparr> = \<lparr>next_delay = secs (min (2 * k) 10)\<rparr>"
  using failed_climb [OF _ assms, of "\<lparr>next_delay = secs k\<rparr>"] by (cases "backoff_failed \<lparr>next_delay = secs k\<rparr>") simp

lemma climbs_at:
  assumes "1 \<le> k" "k \<le> 10"
  shows "climbs \<lparr>next_delay = secs k\<rparr> (e # es) \<longleftrightarrow> e = min (2 * k) 10 \<and> climbs \<lparr>next_delay = secs (min (2 * k) 10)\<rparr> es"
  using failed_at [OF assms] by (auto simp: Let_def backoff_delay_def secs_def)

lemma never_stalls_at:
  assumes "1 \<le> k" "k \<le> 10"
  shows "never_stalls n \<lparr>next_delay = secs k\<rparr> (secs k) \<longleftrightarrow> 10 \<le> 2 ^ n * k"
  using assms
proof (induction n arbitrary: k)
  case 0
  then show ?case by (auto simp: secs_def BACKOFF_MAX_def)
next
  case (Suc n)
  have "secs (min (2 * k) 10) > secs k \<or> secs (min (2 * k) 10) = BACKOFF_MAX"
    using Suc.prems by (auto simp: secs_def BACKOFF_MAX_def min_def)
  moreover have "10 \<le> 2 ^ n * min (2 * k) 10 \<longleftrightarrow> 10 \<le> 2 ^ Suc n * k" 
  proof (cases "2 * k \<le> 10")
    case False
    then have "10 \<le> 2 * k" by simp
    also have "\<dots> \<le> 2 ^ n * (2 * k)" by simp
    finally show ?thesis using False by (simp add: mult.assoc mult.left_commute)
  qed (simp add: mult.assoc mult.left_commute)
  ultimately show ?case
    using Suc.IH [of "min (2 * k) 10"] Suc.prems failed_at [OF Suc.prems] by (simp add: Let_def backoff_delay_def)
qed

lemma backoff_tests:
  "first_dial_is_immediate" "a_dropped_connection_waits_a_step" "an_unreached_peer_backs_off"
  "the_delay_climbs_to_the_ceiling_and_stays" "connecting_again_clears_the_climb"
proof -
  show "first_dial_is_immediate" "a_dropped_connection_waits_a_step"
    by (simp_all add: first_dial_is_immediate_def a_dropped_connection_waits_a_step_def backoff_defs)
  have c: "backoff_connected = \<lparr>next_delay = secs 1\<rparr>" by (simp add: backoff_connected_def BACKOFF_INITIAL_def)
  show "an_unreached_peer_backs_off"
    unfolding an_unreached_peer_backs_off_def Let_def first_failure c backoff_delay_def backoff.simps BACKOFF_INITIAL_def
    using never_stalls_at [of 1 10] by simp
  show "the_delay_climbs_to_the_ceiling_and_stays"
    unfolding the_delay_climbs_to_the_ceiling_and_stays_def c by (simp add: climbs_at del: climbs.simps(2))
  show "connecting_again_clears_the_climb"
    unfolding connecting_again_clears_the_climb_def Let_def backoff_delay_def failures_climb by (simp add: backoff_reset_def BACKOFF_MAX_def)
qed

lemma white_space_bytes: "\<forall>w \<in> set white_space. length w = 1 \<or> (\<forall>c \<in> set w. (of_char c :: nat) \<ge> 128)"
  by (simp add: white_space_def)

lemma strip_space:
  assumes "ws = white_space \<or> ws = map rev white_space"
  shows "strip_ws ws (CHR '' '' # s) = strip_ws ws s"
proof (rule strip_ws_spaces)
  have "char_of (32 :: nat) = CHR '' ''" by (simp add: char_of_eq_iff)
  then have "[CHR '' ''] \<in> set white_space" by (simp add: white_space_def)
  then show "[CHR '' ''] \<in> set ws" using assms by (auto intro: rev_image_eqI)
  have "length w = 1 \<or> (\<forall>c \<in> set w. (of_char c :: nat) \<ge> 128)" if "w \<in> set ws" for w
    using assms that white_space_bytes by (elim disjE) (simp, fastforce)
  then show "\<forall>w \<in> set ws. w \<noteq> [] \<longrightarrow> hd w = CHR '' '' \<longrightarrow> w = [CHR '' '']"
    by (fastforce simp: length_Suc_conv neq_Nil_conv)
qed

lemma trim_spaces:
  assumes "s \<noteq> []" "graphic (hd s)" "graphic (last s)"
  shows "trim (''  '' @ s @ ''  '') = s"
proof -
  have "strip_ws white_space (s @ ''  '') = s @ ''  ''"
    using assms white_space_not_graphic by (intro strip_ws_id) auto
  moreover have "strip_ws (map rev white_space) (rev s) = rev s"
    using assms white_space_not_graphic by (intro strip_ws_id) (auto simp: hd_rev)
  ultimately show ?thesis by (simp add: trim_def strip_space)
qed

lemma handle_tests:
  assumes t: "bench_ok t"
  shows "an_invitation_round_trips t" "a_bare_key_parses_as_a_key t" "an_invitation_and_a_key_agree_on_who_to_dial t"
    "junk_is_rejected t" "an_invitation_without_a_code_is_rejected t" "an_invitation_with_a_bad_key_is_rejected t"
    "surrounding_whitespace_is_ignored t"
proof -
  note codec = bench_okD(2) [OF t]
  have invites: "parse_handle t (invite_to_string (t_show t) \<lparr>inv_key = k, inv_code = c\<rparr>) = Inr (HInvite \<lparr>inv_key = k, inv_code = c\<rparr>)"
    if "c \<noteq> []" "\<forall>x \<in> set c. graphic x" for k c
    using printed_invite_parses [OF codec] that by (simp add: parse_handle_def)
  have keys: "parse_handle t (t_show t k) = Inr (HKey k)" for k
    using printed_key_parses [OF codec] by (simp add: parse_handle_def)
  show "an_invitation_round_trips t" by (simp add: an_invitation_round_trips_def invites graphic_def)
  show "a_bare_key_parses_as_a_key t" by (simp add: a_bare_key_parses_as_a_key_def keys)
  show "an_invitation_and_a_key_agree_on_who_to_dial t"
    by (simp add: an_invitation_and_a_key_agree_on_who_to_dial_def invites keys graphic_def Let_def)
  have "trim ''not-a-key'' = ''not-a-key''" "trim [] = []" "trim ''nonsense.abc123'' = ''nonsense.abc123''"
    by (rule trim_id, simp add: graphic_def)+
  then show "junk_is_rejected t" "an_invitation_with_a_bad_key_is_rejected t"
    using t by (simp_all add: junk_is_rejected_def an_invitation_with_a_bad_key_is_rejected_def parse_handle_def handle_from_str_def
        split_once_def SEP_def Let_def)
  show "an_invitation_without_a_code_is_rejected t"
    using trim_key_code(1) [OF codec, of "[]"] split_once_append [OF key_codecD(2) [OF codec], of "t_key t 1" "[]"]
    by (simp add: an_invitation_without_a_code_is_rejected_def parse_handle_def handle_from_str_def SEP_def Let_def)
  have "trim (''  '' @ t_show t (t_key t 1) @ ''  '') = trim (t_show t (t_key t 1))"
    using codec trim_key_code(2) [OF codec, of "[]"] trim_spaces [of "t_show t (t_key t 1)"]
    by (metis key_codec_def hd_in_set last_in_set)
  then have "parse_handle t (''  '' @ t_show t (t_key t 1) @ ''  '') = parse_handle t (t_show t (t_key t 1))"
    by (simp only: parse_handle_def handle_from_str_def)
  then show "surrounding_whitespace_is_ignored t" unfolding surrounding_whitespace_is_ignored_def keys by simp
qed

lemma code_tests:
  assumes "bench_ok t"
  shows "token_is_single_use t" "unknown_token_fails t" "expired_token_fails t" "a_token_carries_its_ports t"
  using assms bench_okD(5) [OF assms] by (simp_all add: token_is_single_use_def unknown_token_fails_def expired_token_fails_def
      a_token_carries_its_ports_def mint_def mint_with_ttl_def claim_def tokens_default_def Let_def)

lemma pins_test:
  assumes t: "bench_ok t"
  shows "pins_roundtrip t"
proof -
  let ?c = "t_pins t"
  let ?p1 = "\<lparr>pin_key = ''k1'', pin_label = Some ''rustdev''\<rparr>" and ?p2 = "\<lparr>pin_key = ''k2'', pin_label = Some ''webdev''\<rparr>"
    and ?p3 = "\<lparr>pin_key = ''k1'', pin_label = Some ''rustdev2''\<rparr>"
  note ok = bench_okD(7) [OF t]
  have 0: "pins_load ?c (t_file t) = Inr []" using bench_okD(9) [OF t] by (rule pins.load_absent)
  obtain r1 f1 where 1: "pins_add ?c (t_file t) ''k1'' (Some ''rustdev'') = (r1, f1)" by fastforce
  obtain r2 f2 where 2: "pins_add ?c f1 ''k2'' (Some ''webdev'') = (r2, f2)" by fastforce
  obtain r3 f3 where 3: "pins_add ?c f2 ''k1'' (Some ''rustdev2'') = (r3, f3)" by fastforce
  obtain r4 f4 where 4: "pins_remove ?c f3 ''k2'' = (r4, f4)" by fastforce
  have f1: "r1 = Inr () \<and> file_usable f1 \<and> pins_load ?c f1 = Inr [?p1]"
    using pins.add_loaded [OF ok bench_okD(8) [OF t] 0, of ?p1] 1 by simp
  then have f2: "r2 = Inr () \<and> file_usable f2 \<and> pins_load ?c f2 = Inr [?p1, ?p2]"
    using pins.add_loaded [OF ok, of f1 "[?p1]" ?p2] 2 by simp
  then have f3: "r3 = Inr () \<and> file_usable f3 \<and> pins_load ?c f3 = Inr [?p2, ?p3]"
    using pins.add_loaded [OF ok, of f2 "[?p1, ?p2]" ?p3] 3 by simp
  then have f4: "r4 = Inr () \<and> pins_load ?c f4 = Inr [?p3]"
    using pins.remove_loaded [OF ok, of f3 "[?p2, ?p3]" "''k2''"] 4 by simp
  show ?thesis using 0 f1 f2 f3 f4 by (simp add: pins_roundtrip_def Let_def 1 2 3 4)
qed

subsection \<open>All of them\<close>

definition session_tests :: "bench \<Rightarrow> bool list" where
  "session_tests t =
     [tunnel_needs_a_grant t, tunnel_is_served_once_granted t, a_grant_to_one_peer_is_not_usable_by_another t,
      a_grant_covers_only_the_port_named t, a_grantee_can_be_named_by_label t, a_key_is_a_grantee_even_before_admission t,
      an_unknown_name_is_refused t, a_name_two_peers_share_is_refused t, a_peer_is_told_only_its_own_grants t,
      revocation_announces_an_empty_list t, revoking_one_grantee_leaves_the_other t,
      an_unknown_peer_is_not_admitted_on_arrival t, an_unknown_peer_with_no_claim_is_refused_on_timeout t,
      a_bad_code_is_refused t, a_valid_code_admits_and_pins t, a_code_is_single_use t,
      an_unadmitted_peer_announcing_ports_is_not_admitted_by_it t, ports_announced_before_the_claim_are_applied_after_it t,
      a_known_peer_is_admitted_with_no_claim t, admitting_a_known_peer_twice_changes_nothing t,
      admission_records_how_the_peer_arrived t, eviction_revokes_every_grant_naming_the_peer t,
      evicting_an_unknown_peer_does_nothing t, an_evicted_peer_is_no_longer_admitted_on_arrival t,
      an_invitation_can_carry_a_grant t, a_carried_grant_names_only_the_claimer t,
      an_unnamed_peer_falls_back_to_a_short_key t]"

definition core_tests :: "bench \<Rightarrow> bool list" where
  "core_tests t =
     [default_deny t, grant_is_directed t, revoke_grantee_clears_all_their_grants t, remove_one_grantee_keeps_others t,
      a_reconnect_from_the_dialer_is_not_a_race t, a_closed_slot_takes_arriving t, the_lower_key_keeps_its_own_dial t,
      the_higher_key_takes_theirs t, both_ends_keep_the_lower_keys_dial t,
      inbound_then_our_dial_still_keeps_the_lower_keys_dial t, first_dial_is_immediate, a_dropped_connection_waits_a_step,
      an_unreached_peer_backs_off, the_delay_climbs_to_the_ceiling_and_stays, connecting_again_clears_the_climb,
      an_invitation_round_trips t, a_bare_key_parses_as_a_key t, an_invitation_and_a_key_agree_on_who_to_dial t,
      junk_is_rejected t, an_invitation_without_a_code_is_rejected t, an_invitation_with_a_bad_key_is_rejected t,
      surrounding_whitespace_is_ignored t, token_is_single_use t, unknown_token_fails t, expired_token_fails t,
      a_token_carries_its_ports t, pins_roundtrip t]"

lemma core_tests_hold:
  assumes "bench_ok t"
  shows "list_all id (session_tests t @ core_tests t)"
  unfolding session_tests_def core_tests_def
  by (simp add: authorization_tests [OF assms] grantee_tests [OF assms] announcement_tests [OF assms] admission_tests [OF assms]
      single_use_test [OF assms] eviction_tests [OF assms] eviction_revokes_test [OF assms] short_name_test [OF assms]
      grant_tests [OF assms] dial_tests [OF assms] backoff_tests handle_tests [OF assms] code_tests [OF assms] pins_test [OF assms])

definition plain_bench :: bench where
  "plain_bench =
     \<lparr>t_key = (\<lambda>n. EndpointId (replicate n 0 @ replicate 32 1)), t_show = hex_show, t_parse = hex_parse,
      t_rnd = [1, 2, 3], t_minted = 5, t_claimed = 6, t_pins = pin_codec, t_file = new_file ''p''\<rparr>"

lemma plain_bench_ok: "bench_ok plain_bench"
proof -
  have "inj (t_key plain_bench)"
    by (rule injI) (auto simp: plain_bench_def dest: arg_cong [of _ _ length])
  moreover have "SHORT_KEY \<le> length (hex_show (EndpointId (replicate n 0 @ replicate 32 1)))" for n
    by (simp add: SHORT_KEY_def hex_show_def hex_bytes_def hex_byte_def length_concat o_def sum_list_replicate)
  ultimately show ?thesis
    unfolding bench_ok_def by (simp add: plain_bench_def hex_codec pin_codec_ok TOKEN_TTL_def secs_def)
qed

end
