(* ===== verification/Shell_Tests.thy ===== *)
theory Shell_Tests
  imports Core_Tests Resolver Tunnel Launchd_Status Requests
begin

text \<open>
  The unit tests of the parts around the core, run on the model: \<open>src/surface.rs\<close>, \<open>src/resolver.rs\<close>,
  \<open>src/tunnel.rs\<close>, \<open>src/launchd.rs\<close> and the key file of \<open>src/daemon.rs\<close>. Each test is a definition of its name that
  performs the same calls and makes the same assertions; what it takes from outside (the file, the generated keys, the
  platform and its programs) is an argument.
\<close>

subsection \<open>Surfaces\<close>

definition test_ip :: "u8 \<Rightarrow> ip_addr" where
  "test_ip h = V4 (Ipv4 127 0 1 h)"

definition allocate_skips_taken :: bool where
  "allocate_skips_taken =
     (allocate [test_ip 2, test_ip 3, test_ip 5] LOOPBACK_BASE = Inr (test_ip 4))"

definition allocate_from_empty_starts_at_two :: bool where
  "allocate_from_empty_starts_at_two = (allocate [] LOOPBACK_BASE = Inr (test_ip 2))"

definition allocate_uses_the_given_base :: bool where
  "allocate_uses_the_given_base = (allocate [] TUN_BASE = Inr (V4 (Ipv4 10 99 1 2)))"

definition allocate_errors_when_range_is_full :: bool where
  "allocate_errors_when_range_is_full =
     isl (allocate (map (\<lambda>h. test_ip (of_nat h)) [2..<255]) LOOPBACK_BASE)"

definition stock_loopback_is_never_touched :: "platform \<Rightarrow> exec \<Rightarrow> bool" where
  "stock_loopback_is_never_touched os ex =
     (ensure_addr os ex localhost = Inr () \<and> remove_addr os ex localhost = Inr ())"

subsection \<open>The resolver\<close>

text \<open>\<open>str::split\<close> with a character.\<close>

fun split_on :: "char \<Rightarrow> string \<Rightarrow> string list" where
  "split_on x [] = [[]]"
| "split_on x (c # s) =
     (if c = x then [] # split_on x s
      else case split_on x s of [] \<Rightarrow> [[c]] | p # ps \<Rightarrow> (c # p) # ps)"

definition query_for :: "string \<Rightarrow> bytes" where
  "query_for name =
     [0x12, 0x34, 0x01, 0x00, 0x00, 0x01, 0, 0, 0, 0, 0, 0] @
     concat (map (\<lambda>label. of_nat (length label) # as_str_bytes label) (split_on (CHR ''.'') name)) @
     [0] @ u16_to_be TYPE_A @ [0x00, 0x01]"

definition parses_a_query :: bool where
  "parses_a_query =
     (case parse_question (query_for ''vibenv-ndyg.pai-sho'') of
        None \<Rightarrow> False
      | Some q \<Rightarrow> q_name q = ''vibenv-ndyg.pai-sho'' \<and> q_type q = TYPE_A)"

definition host_label_strips_suffix :: bool where
  "host_label_strips_suffix \<longleftrightarrow>
     host_label ''vibenv-ndyg.pai-sho'' = Some ''vibenv-ndyg'' \<and> host_label ''broker.pai-sho'' = Some ''broker'' \<and>
     host_label ''a.b.pai-sho'' = None \<and> host_label ''nope.com'' = None \<and> host_label ''pai-sho'' = None"

definition reply_carries_the_answer :: bool where
  "reply_carries_the_answer =
     (let query = query_for ''broker.pai-sho''
      in case parse_question query of
           None \<Rightarrow> False
         | Some q \<Rightarrow>
             (case build_reply query (q_end q) (Some (Ipv4 127 0 1 5)) of
                None \<Rightarrow> False
              | Some out \<Rightarrow>
                  and (out ! 2) 0x80 = 0x80 \<and> u16_from_be (out ! 6) (out ! 7) = 1 \<and>
                  drop (length out - 4) out = [127, 0, 1, 5]))"

definition empty_answer_has_no_records :: bool where
  "empty_answer_has_no_records =
     (let query = query_for ''gone.pai-sho''
      in case parse_question query of
           None \<Rightarrow> False
         | Some q \<Rightarrow>
             (case build_reply query (q_end q) None of
                None \<Rightarrow> False
              | Some out \<Rightarrow> u16_from_be (out ! 6) (out ! 7) = 0))"

subsection \<open>Copying\<close>

definition SSE_FIRST :: bytes where
  "SSE_FIRST = as_str_bytes ''data: hello''"

definition SSE_REST :: bytes where
  "SSE_REST = [0x0A, 0x0A]"

text \<open>What the reader gives at each stage; nothing is the end.\<close>

definition split_sse :: "read_result list" where
  "split_sse = [Chunk SSE_FIRST, Chunk SSE_REST, Chunk []]"

text \<open>A writer that takes everything, and whose flush may never return. The copy loop does not look at the latter.\<close>

record writer_state = writer +
  flush_blocks :: bool

definition probe_writer :: "bool \<Rightarrow> writer_state" where
  "probe_writer blocks = \<lparr>taken_bytes = [], fails_after = None, flush_blocks = blocks\<rparr>"

definition copy_flush_writes_sse_terminator_without_waiting_for_ack :: bool where
  "copy_flush_writes_sse_terminator_without_waiting_for_ack =
     (case copy_flush split_sse (probe_writer True) of
        (Copied n, w) \<Rightarrow> taken_bytes w = SSE_FIRST @ SSE_REST
      | _ \<Rightarrow> False)"

definition copy_flush_forwards_whole_sse_event_when_flush_is_noop :: bool where
  "copy_flush_forwards_whole_sse_event_when_flush_is_noop =
     (case copy_flush split_sse (probe_writer False) of
        (Copied n, w) \<Rightarrow> taken_bytes w = SSE_FIRST @ SSE_REST
      | _ \<Rightarrow> False)"

subsection \<open>The key file\<close>

definition key_persists_across_loads :: "key_file \<Rightarrow> bytes \<Rightarrow> bytes \<Rightarrow> bool" where
  "key_persists_across_loads f generated1 generated2 =
     (let (first, f1) = load_or_create_key f generated1;
          (second, f2) = load_or_create_key f1 generated2
      in \<not> isl first \<and> second = first \<and> map_option (\<lambda>m. m mod 512) (mode f2) = Some 384)"

definition rejects_malformed_key_file :: "key_file \<Rightarrow> bytes \<Rightarrow> bool" where
  "rejects_malformed_key_file f generated =
     isl (fst (load_or_create_key (f\<lparr>contents := Some (as_str_bytes ''too short'')\<rparr>) generated))"

subsection \<open>The macOS service\<close>

definition has_lines :: "string \<Rightarrow> string list \<Rightarrow> bool" where
  "has_lines txt ls = list_all (\<lambda>l. list_ex (\<lambda>got. got = l) (text_lines txt)) ls"

definition operator_script_matches_the_service_settings :: bool where
  "operator_script_matches_the_service_settings =
     has_lines operator_script
       [''#!/bin/bash'',
        ''set -eu'',
        ''mkdir -p /etc/resolver'',
        ''printf '' @ [quote] @ ''nameserver 10.99.0.53'' @ [backslash] @ ''n'' @ [quote] @ '' > /etc/resolver/pai-sho'',
        ''KEY='' @ [dquote] @ ''/usr/local/var/pai-sho/op.key'' @ [dquote],
        ''u=$(stat -f%Su /dev/console) || exit 1'',
        ''exec /usr/local/libexec/pai-sho --socket /tmp/pai-sho.sock daemon '' @ [backslash],
        ''  --key '' @ [dquote] @ ''$KEY'' @ [dquote] @ '' --tun utun --socket-owner '' @ [dquote] @ ''$u'' @ [dquote]]"

definition plist_is_a_keepalive_launch_daemon :: bool where
  "plist_is_a_keepalive_launch_daemon =
     has_lines plist
       [''    <string>pai-sho</string>'',
        ''        <string>/usr/local/libexec/pai-sho-operator</string>'',
        ''    <key>RunAtLoad</key>'',
        ''    <true/>'',
        ''    <key>KeepAlive</key>'',
        ''    <string>/usr/local/var/log/pai-sho-operator.log</string>'',
        ''        <string>/usr/bin:/bin:/usr/sbin:/sbin</string>'']"

definition status_reads_launchd_text :: bool where
  "status_reads_launchd_text =
     (let disabled = of_lines
            [''disabled services = {'',
             [CHR 0x09, dquote] @ ''com.apple.ftpd'' @ [dquote] @ '' => disabled'',
             [CHR 0x09, dquote] @ ''pai-sho'' @ [dquote] @ '' => disabled'',
             [CHR 0x09, dquote] @ ''pai-sho-extra'' @ [dquote] @ '' => enabled'',
             ''}''];
          job = of_lines
            [''system/pai-sho = {'',
             CHR 0x09 # ''state = running'',
             CHR 0x09 # ''pid = 439'',
             CHR 0x09 # ''path = /Library/LaunchDaemons/pai-sho.plist'',
             ''}'']
      in label_disabled disabled ''pai-sho'' \<and> \<not> label_disabled disabled ''pai-sho-extra'' \<and>
         \<not> label_disabled disabled ''com.apple.ftpd.missing'' \<and>
         field job ''state'' = Some ''running'' \<and> field job ''pid'' = Some ''439'' \<and> field job ''program'' = None)"

definition status_json_for_each_state :: bool where
  "status_json_for_each_state =
     (let running = report \<lparr>st_installed = True, st_loaded = True, st_disabled = False,
            st_launchd_state = Some ''running'', st_pid = Some ''439'', st_socket_owner = Some ''ndyg'',
            st_key_present = True, st_resolver_present = True\<rparr>;
          stopped = report \<lparr>st_installed = True, st_loaded = False, st_disabled = True,
            st_launchd_state = None, st_pid = None, st_socket_owner = None,
            st_key_present = True, st_resolver_present = False\<rparr>;
          missing = report \<lparr>st_installed = False, st_loaded = False, st_disabled = False,
            st_launchd_state = None, st_pid = None, st_socket_owner = None,
            st_key_present = False, st_resolver_present = False\<rparr>;
          spawning = report \<lparr>st_installed = True, st_loaded = True, st_disabled = False,
            st_launchd_state = Some ''spawn scheduled'', st_pid = Some ''nope'', st_socket_owner = None,
            st_key_present = False, st_resolver_present = False\<rparr>
      in running = \<lparr>rp_service = ''system/pai-sho'', rp_state = ''running'', rp_pid = Some 439, rp_disabled = False,
           rp_installed = True, rp_loaded = True, rp_socket = Some ''/tmp/pai-sho.sock'', rp_socket_owner = Some ''ndyg'',
           rp_key = Some ''/usr/local/var/pai-sho/op.key'', rp_resolver = Some ''/etc/resolver/pai-sho'',
           rp_log = ''/usr/local/var/log/pai-sho-operator.log''\<rparr> \<and>
         rp_state stopped = ''stopped'' \<and> rp_disabled stopped \<and> \<not> rp_loaded stopped \<and> rp_socket stopped = None \<and>
         rp_socket_owner stopped = None \<and> rp_resolver stopped = None \<and>
         rp_key stopped = Some ''/usr/local/var/pai-sho/op.key'' \<and>
         rp_state missing = ''not installed'' \<and> \<not> rp_installed missing \<and> rp_pid missing = None \<and> rp_key missing = None \<and>
         rp_state spawning = ''spawn scheduled'' \<and> rp_pid spawning = None)"

definition install_message_introduces_a_new_machine :: bool where
  "install_message_introduces_a_new_machine =
     (install_message (Some \<lparr>view_key = ''abc'', view_peers = 0\<rparr>) =
        ''pai-sho is running.'' @ [newline, newline] @ ''This machine'' @ [quote] @ ''s key:'' @ [newline, newline] @ ''  abc'')"

definition install_message_skips_the_intro_once_peers_exist :: bool where
  "install_message_skips_the_intro_once_peers_exist \<longleftrightarrow>
     install_message (Some \<lparr>view_key = ''abc'', view_peers = 1\<rparr>) = ''pai-sho is running. 1 peer.'' \<and>
     install_message (Some \<lparr>view_key = ''abc'', view_peers = 2\<rparr>) = ''pai-sho is running. 2 peers.''"

definition install_message_when_the_socket_is_late :: bool where
  "install_message_when_the_socket_is_late =
     (install_message None = ''pai-sho is running. Not answering yet. Run `pai-sho key`.'')"

definition other_oses_are_refused_before_sudo :: "'l mac_env \<Rightarrow> nat \<Rightarrow> 'l mac \<Rightarrow> bool" where
  "other_oses_are_refused_before_sudo env now m =
     (if on_macos env then require_macos env = Inr ()
      else (case install env now m of
              Some (Returned (Inl e), _) \<Rightarrow> e = NotOnMacOS
            | _ \<Rightarrow> False))"

subsection \<open>They hold\<close>

lemma allocate_first: "allocate [] base = Inr (host_addr base 2)"
  unfolding allocate_ok_iff by (intro exI [of _ 2]) simp

lemma test_ip_host: "test_ip (of_nat h) = host_addr LOOPBACK_BASE h"
  by (simp add: test_ip_def LOOPBACK_BASE_def)

lemma surface_tests:
  "allocate_skips_taken" "allocate_from_empty_starts_at_two" "allocate_uses_the_given_base"
  "allocate_errors_when_range_is_full" "stock_loopback_is_never_touched os ex"
proof -
  show "allocate_skips_taken"
    using allocate_skips_three test_ip_host [of 2] test_ip_host [of 3] test_ip_host [of 4] test_ip_host [of 5]
    by (simp add: allocate_skips_taken_def)
  show "allocate_from_empty_starts_at_two" "allocate_uses_the_given_base"
    by (simp_all add: allocate_from_empty_starts_at_two_def allocate_uses_the_given_base_def allocate_first test_ip_def
        LOOPBACK_BASE_def TUN_BASE_def)
  have "allocate (map (\<lambda>h. test_ip (of_nat h)) [2..<255]) LOOPBACK_BASE = Inl (NoFreeAddress LOOPBACK_BASE)"
    unfolding allocate_err_iff test_ip_host set_map set_upt by (blast intro: atLeastLessThan_iff [THEN iffD2])
  then show "allocate_errors_when_range_is_full" unfolding allocate_errors_when_range_is_full_def by simp
  show "stock_loopback_is_never_touched os ex"
    by (simp add: stock_loopback_is_never_touched_def ensure_addr_def remove_addr_def is_stock_loopback_def)
qed

lemma query_for_labels:
  assumes "split_on (CHR ''.'') name = ls"
  shows "query_for name = dns_query 0x1234 1 0 ls TYPE_A 1 []"
  unfolding query_for_def assms by (simp add: dns_query_def encode_label_def [abs_def] u16_to_be_def)

lemma label_ok_graphic: "l \<noteq> [] \<Longrightarrow> length l < 64 \<Longrightarrow> \<forall>c \<in> set l. graphic c \<Longrightarrow> label_ok l"
  by (auto simp: label_ok_def graphic_def)

lemma resolver_tests:
  "parses_a_query" "host_label_strips_suffix" "reply_carries_the_answer" "empty_answer_has_no_records"
proof -
  have split: "split_on (CHR ''.'') ''vibenv-ndyg.pai-sho'' = [''vibenv-ndyg'', ''pai-sho'']"
    "split_on (CHR ''.'') ''broker.pai-sho'' = [''broker'', ''pai-sho'']"
    "split_on (CHR ''.'') ''gone.pai-sho'' = [''gone'', ''pai-sho'']" by simp_all
  have ok: "\<forall>l \<in> set ls. label_ok l" "map to_ascii_lowercase ls = ls"
    if "ls \<in> {[''vibenv-ndyg'', ''pai-sho''], [''broker'', ''pai-sho''], [''gone'', ''pai-sho'']}" for ls
    using that by (auto simp: label_ok_def to_ascii_lowercase_def lower_char_def is_upper_def)
  have parsed: "parse_question (query_for name) = Some \<lparr>q_name = join ''.'' ls, q_type = TYPE_A,
      q_end = 12 + length (question_bytes ls TYPE_A 1)\<rparr>"
    if "split_on (CHR ''.'') name = ls" "ls \<in> {[''vibenv-ndyg'', ''pai-sho''], [''broker'', ''pai-sho''], [''gone'', ''pai-sho'']}"
    for name ls
    unfolding query_for_labels [OF that(1)] using parse_question_encoded [OF ok(1) [OF that(2)]] ok(2) [OF that(2)] by simp
  show "parses_a_query" unfolding parses_a_query_def by (simp add: parsed [OF split(1)])
  show "host_label_strips_suffix"
    unfolding host_label_strips_suffix_def by (simp add: host_label_def SUFFIX_def strip_suffix_def strip_prefix_def)
  show "reply_carries_the_answer"
    unfolding reply_carries_the_answer_def Let_def
    by (simp add: parsed [OF split(2)])
      (simp add: query_for_labels [OF split(2)] build_reply_encoded u16_to_be_def u16_from_be_def answer_record_def)
  show "empty_answer_has_no_records"
    unfolding empty_answer_has_no_records_def Let_def
    by (simp add: parsed [OF split(3)])
      (simp add: query_for_labels [OF split(3)] build_reply_encoded u16_to_be_def u16_from_be_def)
qed

lemma copy_tests:
  "copy_flush_writes_sse_terminator_without_waiting_for_ack" "copy_flush_forwards_whole_sse_event_when_flush_is_noop"
proof -
  have "copy_flush split_sse (probe_writer b) = (Copied (of_nat (length (input_bytes split_sse))),
      (probe_writer b)\<lparr>taken_bytes := taken_bytes (probe_writer b) @ input_bytes split_sse\<rparr>)" for b
    unfolding copy_flush_def by (subst copy_loop_complete) (simp_all add: probe_writer_def split_sse_def)
  then show "copy_flush_writes_sse_terminator_without_waiting_for_ack" "copy_flush_forwards_whole_sse_event_when_flush_is_noop"
    by (simp_all add: copy_flush_writes_sse_terminator_without_waiting_for_ack_def
        copy_flush_forwards_whole_sse_event_when_flush_is_noop_def split_sse_def probe_writer_def
        SSE_FIRST_def SSE_REST_def as_str_bytes_def)
qed

lemma key_tests:
  assumes "contents f = None" "read_ok f" "mkdir_ok f" "create_ok f" "write_ok f" "length generated1 = 32"
  shows "key_persists_across_loads f generated1 generated2" "rejects_malformed_key_file f generated2"
  using assms by (simp_all add: key_persists_across_loads_def rejects_malformed_key_file_def load_or_create_key_def
      as_str_bytes_def)

lemma graphic_line: "l \<noteq> [] \<Longrightarrow> \<forall>c \<in> set l. graphic c \<or> c = CHR '' '' \<Longrightarrow> newline \<notin> set l \<and> strip_cr l = l"
proof -
  assume l: "l \<noteq> []" "\<forall>c \<in> set l. graphic c \<or> c = CHR '' ''"
  then have "last l \<noteq> CHR 0x0D" "newline \<notin> set l" by (auto simp: graphic_def dest: bspec [OF _ last_in_set])
  then show ?thesis using strip_cr_id l(1) by simp
qed

lemma has_lines_of:
  assumes "\<forall>l \<in> set ls. l \<noteq> [] \<and> (\<forall>c \<in> set l. graphic c \<or> c = CHR '' '')" "set ks \<subseteq> set ls"
  shows "has_lines (of_lines ls) ks"
proof -
  have "text_lines (of_lines ls) = ls" by (rule text_lines_of_lines) (use assms(1) graphic_line in blast)
  then show ?thesis using assms(2) by (auto simp: has_lines_def list_all_iff list_ex_iff)
qed

lemma script_test: "operator_script_matches_the_service_settings"
  unfolding operator_script_matches_the_service_settings_def operator_script_def
  by (rule has_lines_of) (simp_all add: graphic_def RESOLVER_ADDR_def RESOLVER_def KEY_def BIN_def SOCKET_def)

lemma plist_test: "plist_is_a_keepalive_launch_daemon"
  unfolding plist_is_a_keepalive_launch_daemon_def plist_def
  by (rule has_lines_of) (simp_all add: graphic_def LABEL_def OPERATOR_def LOG_def)

lemma status_text_test: "status_reads_launchd_text"
proof -
  let ?ds = "[(''com.apple.ftpd'', True), (''pai-sho'', True), (''pai-sho-extra'', False)]"
  let ?fs = "[(''state'', ''running''), (''pid'', ''439''), (''path'', ''/Library/LaunchDaemons/pai-sho.plist'')]"
  have d: "\<forall>e \<in> set ?ds. plain_word (fst e)" by (simp add: plain_word_def graphic_def)
  have f: "\<forall>f \<in> set ?fs. plain_word (fst f) \<and> plain_value (snd f)" by (simp add: plain_word_def plain_value_def graphic_def)
  have w: "plain_word ''pai-sho''" "plain_word ''pai-sho-extra''" "plain_word ''com.apple.ftpd.missing''"
    "plain_word ''state''" "plain_word ''pid''" "plain_word ''program''"
    by (simp_all add: plain_word_def graphic_def)
  have n: "''state'' \<noteq> domain" "''pid'' \<noteq> domain" "''program'' \<noteq> domain" by (simp_all add: domain_def LABEL_def)
  have "label_disabled (disabled_text ?ds) ''pai-sho''" "\<not> label_disabled (disabled_text ?ds) ''pai-sho-extra''"
    "\<not> label_disabled (disabled_text ?ds) ''com.apple.ftpd.missing''"
    using label_disabled_read [OF d] w by simp_all
  moreover have "field (print_text ?fs) ''state'' = Some ''running''" "field (print_text ?fs) ''pid'' = Some ''439''"
    "field (print_text ?fs) ''program'' = None"
    using field_read [OF f w(4) n(1)] field_read [OF f w(5) n(2)] field_read [OF f w(6) n(3)] by simp_all
  ultimately show ?thesis
    unfolding status_reads_launchd_text_def Let_def
    by (simp add: disabled_text_def disabled_line_def print_text_def field_text_def domain_def LABEL_def)
qed

lemma report_test: "status_json_for_each_state"
proof -
  have "digits_of 10 439 = ''439''" by (simp add: digits_of.simps hex_digits_def)
  then have "parse_unsigned 10 4294967296 ''439'' = Some 439" using parse_unsigned_digits [of 10 439 4294967296] by simp
  moreover have "parse_unsigned 10 4294967296 ''nope'' = None" by (simp add: parse_unsigned_def Let_def digit_value_def)
  ultimately show ?thesis
    by (simp add: status_json_for_each_state_def report_def state_word_def domain_def LABEL_def SOCKET_def KEY_def RESOLVER_def LOG_def Let_def)
qed

lemma message_tests:
  "install_message_introduces_a_new_machine" "install_message_skips_the_intro_once_peers_exist"
  "install_message_when_the_socket_is_late" "other_oses_are_refused_before_sudo env now m"
proof -
  have "digits_of 10 2 = ''2''" by (simp add: digits_of.simps hex_digits_def)
  then show "install_message_introduces_a_new_machine" "install_message_skips_the_intro_once_peers_exist"
    "install_message_when_the_socket_is_late"
    by (simp_all add: install_message_introduces_a_new_machine_def install_message_skips_the_intro_once_peers_exist_def
        install_message_when_the_socket_is_late_def install_message_def)
  show "other_oses_are_refused_before_sudo env now m"
    by (simp add: other_oses_are_refused_before_sudo_def require_macos_def install_def as_root_def prepare_def)
qed

subsection \<open>All of them\<close>

record 'l shell_bench =
  u_os :: platform
  u_exec :: exec
  u_key_file :: key_file
  u_generated :: "bytes \<times> bytes"
  u_mac :: "'l mac_env \<times> 'l mac"
  u_now :: nat

text \<open>The key file is absent and its file system works, and a generated key has 32 bytes; nothing is asked of
  the platform and of the programs it runs.\<close>

definition shell_bench_ok :: "'l shell_bench \<Rightarrow> bool" where
  "shell_bench_ok u \<longleftrightarrow>
     (let f = u_key_file u in contents f = None \<and> read_ok f \<and> mkdir_ok f \<and> create_ok f \<and> write_ok f) \<and>
     length (fst (u_generated u)) = 32"

definition shell_tests :: "'l shell_bench \<Rightarrow> bool list" where
  "shell_tests u =
     [allocate_skips_taken, allocate_from_empty_starts_at_two, allocate_uses_the_given_base,
      allocate_errors_when_range_is_full, stock_loopback_is_never_touched (u_os u) (u_exec u),
      parses_a_query, host_label_strips_suffix, reply_carries_the_answer, empty_answer_has_no_records,
      copy_flush_writes_sse_terminator_without_waiting_for_ack, copy_flush_forwards_whole_sse_event_when_flush_is_noop,
      key_persists_across_loads (u_key_file u) (fst (u_generated u)) (snd (u_generated u)),
      rejects_malformed_key_file (u_key_file u) (snd (u_generated u)),
      operator_script_matches_the_service_settings, plist_is_a_keepalive_launch_daemon, status_reads_launchd_text,
      status_json_for_each_state, install_message_introduces_a_new_machine,
      install_message_skips_the_intro_once_peers_exist, install_message_when_the_socket_is_late,
      other_oses_are_refused_before_sudo (fst (u_mac u)) (u_now u) (snd (u_mac u))]"

lemma shell_tests_hold:
  assumes "shell_bench_ok u"
  shows "list_all id (shell_tests u)"
proof -
  let ?f = "u_key_file u" and ?g = "u_generated u"
  have "contents ?f = None" "read_ok ?f" "mkdir_ok ?f" "create_ok ?f" "write_ok ?f" "length (fst ?g) = 32"
    using assms by (simp_all add: shell_bench_ok_def Let_def)
  note keys = key_tests [OF this]
  show ?thesis
    unfolding shell_tests_def
    by (simp add: surface_tests resolver_tests copy_tests keys script_test plist_test status_text_test report_test message_tests)
qed

definition plain_shell_bench :: "(bool \<times> bool) shell_bench" where
  "plain_shell_bench =
     \<lparr>u_os = OtherOS, u_exec = (\<lambda>_ _. SpawnFailed), u_key_file = fresh_key_file,
      u_generated = (replicate 32 1, replicate 32 2), u_mac = (plain_mac_env (\<lambda>_. []) (\<lambda>_. True), plain_mac), u_now = 0\<rparr>"

text \<open>The model passes the repository's own unit tests, for every choice of what they take from outside. Whatever
  different keys and random bytes the tests of the core are run on, whenever the codes are minted and claimed within
  their life, for every JSON codec and file system that works, and on every platform whatever its programs answer,
  all assertions hold of the tests of \<open>session.rs\<close>, \<open>grants.rs\<close>, \<open>dial.rs\<close>, \<open>backoff.rs\<close>, \<open>invite.rs\<close>, \<open>enroll.rs\<close>,
  \<open>surface.rs\<close>, \<open>resolver.rs\<close>, \<open>launchd.rs\<close>, of the key file in \<open>daemon.rs\<close> and of the copy loop in \<open>tunnel.rs\<close>.\<close>

theorem unit_tests_pass:
  assumes "bench_ok t" "shell_bench_ok u"
  shows "list_all id (session_tests t @ core_tests t @ shell_tests u)"
  using core_tests_hold [OF assms(1)] shell_tests_hold [OF assms(2)] by simp

theorem unit_tests_pass_witness: "list_all id (session_tests plain_bench @ core_tests plain_bench @ shell_tests plain_shell_bench)"
proof (rule unit_tests_pass [OF plain_bench_ok])
  show "shell_bench_ok plain_shell_bench"
    by (simp add: shell_bench_ok_def plain_shell_bench_def fresh_key_file_def new_file_def state_file.defs Let_def)
qed

end
