(* ===== verification/Spec2Isabelle.thy ===== *)
theory Spec2Isabelle
  imports Invite_Flow Locking Replies Streams Serve Lifetime Pair Shell_Tests
begin

text \<open>
  pai-sho forwards ports between machines, peer to peer over iroh. One daemon runs per machine. It
  knows its peers by key; two machines become peers by an invitation that one prints and the other
  accepts, or by naming a key. Nothing is reachable until a port is granted to a key. A peer's ports
  come up on this machine on an address and under a name of their own, its surface.

  \<^bold>\<open>Parts of the program and their theories.\<close>

  \<^item> Shared vocabulary: \<open>Prelude\<close> (machine integers, keys, maps, errors), \<open>Rust_String\<close> and \<open>Ip_Text\<close>
    (the string and address operations of the standard library that the sources use),
    \<open>Ip_Round_Trip\<close> (a printed address parses back), \<open>History\<close> (the locales \<open>machine\<close> and \<open>latch\<close>
    for invariants and causes over histories), \<open>Store\<close> (a keyed JSON file, as the locale
    \<open>keyed_store\<close>), \<open>Plain_Codec\<close> (a concrete encoding for the witnesses).
  \<^item> The core, \<open>src/core/\<close>: \<open>Grants\<close> (\<open>grants.rs\<close>), \<open>Invite\<close> (\<open>invite.rs\<close>), \<open>Backoff\<close>
    (\<open>backoff.rs\<close>), \<open>Dial\<close> (\<open>dial.rs\<close>), \<open>Session\<close> with \<open>Session_Props\<close> (\<open>session.rs\<close>). It takes events
    and returns actions, and holds every decision on who is a peer and who may reach what.
  \<^item> \<open>Protocol\<close> (\<open>protocol.rs\<close>), \<open>Enroll\<close> (\<open>enroll.rs\<close>: one-time codes and the pin file), \<open>Surface\<close>
    (\<open>surface.rs\<close>: addresses and the surface file), \<open>Persistence\<close> (both files over a restart),
    \<open>Resolver\<close> (\<open>resolver.rs\<close>), \<open>Netstack\<close> (\<open>netstack.rs\<close>: the handle and the packets), \<open>Tun_Device\<close>
    (\<open>netstack.rs\<close>: opening the device), \<open>Tunnel\<close> and \<open>Forward\<close> (\<open>tunnel.rs\<close>, and \<open>bridge\<close> of
    \<open>peer.rs\<close>), \<open>Serve\<close> (the accept loops of a bound port and the tasks of its clients).
  \<^item> The shell around the core, \<open>src/peer.rs\<close>: \<open>Peer\<close> holds its state and operations, \<open>Peer_Loop\<close> the
    task of a peer. \<open>Peer_Frame\<close> says what the operations leave alone, \<open>Peer_Bind\<close> and \<open>Peer_Wf\<close> hold the
    invariant, \<open>Peer_Ops\<close> that every operation keeps it and moves the core by its own events only,
    \<open>Peer_Props\<close> and \<open>Peer_Life\<close> the properties. \<open>Bind_Steps\<close> has the operations on announced ports and surfaces
    step by step, \<open>Lock_Free\<close> what runs without \<open>bind_lock\<close>, and \<open>Locking\<close> that the two may interleave;
    \<open>Streams\<close> is the accept loop of a connection with the tasks of its streams.
  \<^item> The daemon, \<open>src/daemon.rs\<close>: \<open>Daemon\<close> (key file, start, requests, and everything that can happen to
    a daemon as one event type), \<open>Daemon_Props\<close> (the invariant), \<open>Daemon_Access\<close> (who may reach what),
    \<open>Requests\<close>, \<open>Replies\<close> (what is answered), \<open>Invite_Flow\<close> and \<open>Reach\<close> (an invitation and a change
    of grants from one daemon to another), \<open>Boot\<close> (the start of the process and its control socket),
    \<open>Lifetime\<close> (the served control socket beside the network, to the end of the process, and the loops of the resolvers); \<open>Hearing\<close> and
    \<open>Telling\<close> (what a daemon takes over from its peers' messages, and what its own say), which
    \<open>Provenance\<close> puts together for two daemons and \<open>Network\<close> for any number of them among strangers;
    \<open>Pair\<close> runs two of them.
  \<^item> The command line, \<open>src/main.rs\<close> and \<open>src/client.rs\<close>, with the daemon's end of the exchange:
    \<open>Client\<close>. The macOS service, \<open>src/launchd.rs\<close>: \<open>Launchd\<close>, \<open>Launchd_Props\<close>, \<open>Launchd_Status\<close>.
  \<^item> The unit tests of the sources, run on the model: \<open>Session_Tests\<close>, \<open>Core_Tests\<close> (the rest of the core, and
    enrollment), \<open>Shell_Tests\<close> (everything around it).

  \<^bold>\<open>How the state corresponds.\<close> A struct is a record, an enum a datatype with the source's cases. A
  \<open>String\<close> is the list of its UTF-8 bytes. A \<open>HashMap\<close> or \<open>DashMap\<close> is an association list with
  distinct keys, a \<open>BTreeMap\<close> a sorted one; both meet the locale \<open>dict\<close>. An \<open>Arc<Peer>\<close> is an address in
  \<open>heap\<close>, since a forgotten peer's task keeps its object; a QUIC connection is an index into \<open>conns\<close>.
  \<open>Instant\<close> and \<open>Duration\<close> are nanoseconds, and time, random bytes and the outcomes of system calls are
  arguments or fields of an environment record; a counter in the state (\<open>calls\<close>, \<open>fs_calls\<close>) makes
  the n-th call's outcome the environment's. Errors are values of \<open>error\<close>, one case per message. Every
  operation of the peer manager is one step. For the operations that take the ports a peer announces,
  project it and unproject it, which hold \<open>bind_lock\<close> over many awaits, this is justified: \<open>Locking\<close>
  has them as programs of single accesses and shows that no interleaving with what runs without the
  lock can be told from one step. For the others (forgetting a peer, which also holds the lock but
  changes the peer map, and enrollment), what another task can do between the awaits inside is not
  modelled.
  Tasks and loops are step relations that interleave freely: \<open>loop_step\<close> (the task of a peer),
  \<open>stream_step\<close> (a connection and the tasks of its streams), \<open>serve_step\<close> (a bound port and the tasks
  of its clients, with what arrives from either end), \<open>tunnel_step\<close> (the two directions of a tunnel), \<open>life_step\<close> (the control
  socket, the tasks of its clients and the network, through the drain after a signal to the end), \<open>net_step\<close> (the machines of a network and the
  connections between them). The resolvers, which deal with one datagram after the other, are functions of all that
  reaches them.

  \<^bold>\<open>What is assumed of code outside the repository.\<close> \<open>key_codec\<close>: iroh's text of a key parses back and
  has no blanks and no separator. \<open>codec_ok\<close> and \<open>line_codec\<close>: serde's text of a record, a message, a
  request or a response is read back; a request or response is one line and is not complete before
  its end. \<open>binds_in_time\<close>: one of the attempts to bind a listener works. \<open>launchctl_ok\<close> and
  \<open>launchctl_works\<close>: what launchctl's manual says its subcommands do. \<open>kernel_names\<close>: the kernel writes the
  interface name into the buffer it was handed, ended by a zero, and gives its length. QUIC delivers a prefix of what was written to a stream; that
  a connection leads from one key to one other, and that what comes in on it was written at its other end, at most
  once and in any order, is how \<open>net_step\<close> describes it. Each of the others is a hypothesis of the theorems that need it, and the witness of such a
  theorem meets it with a concrete function.

  \<^bold>\<open>What is shown.\<close>

  \<^item> Default deny, for the core and for a running daemon: a tunnel is served exactly when an event
    granted the port to the key and none since took it away (below and \<open>Session_Props\<close>, both through
    the locale \<open>latch\<close>); the core refines an abstract access-control machine of plain relations.
  \<^item> A daemon's invariant in every reachable state (below); what forgetting, projecting, restarting and
    a failed request do and leave alone, to the last field; that every response is of its request's kind and every
    listing consistent.
  \<^item> What one daemon grants the other has bound and can reach, after every change of grants
    (\<open>Reach\<close>), unless two announcements cross (\<open>Streams\<close>, which also shows that the streams of a
    connection, however many are handled at once, are decided by the grants); taking announced ports and moving a surface is atomic (\<open>Locking\<close>). Conversely,
    on a network of any number of daemons among machines that may send anything, a port listed or bound for
    another of the daemons was opened there for this one (\<open>Network\<close>).
  \<^item> Codes are single use, expire, and were minted here; an invitation carries its holder in, end to
    end; a forwarded connection reaches the port it names, granted, with a prefix of the client's bytes.
  \<^item> Two daemons that dial each other keep the same connection; a peer is never abandoned; the task of
    a forgotten one stops; the wait for the daemon ends.
  \<^item> The clients of a bound port never mix, and a released port carries on those it has without cutting anything
    off (\<open>Serve\<close>); over the whole life of the process nothing but its command line and its control socket opens a port (\<open>Lifetime\<close>).
  \<^item> The resolvers never slice out of range and answer as their table says; a projected peer is found by its
    name on either of them; the TUN device is opened with exactly the requests that are due and without overrunning a buffer; the stores, the
    key file, addresses and launchctl's text survive the round trip.
  \<^item> The service's root-run files are replaced whole or not at all; the commands leave launchd as they
    say, and succeed when the system does; the command line's exchange does what the request does.
  \<^item> The model passes the repository's unit tests, with what they fix (keys, times, platforms) left open.

  \<^bold>\<open>Bounds.\<close> No operation uses fuel. Loops are structural or have a measure; \<open>wait_loop\<close>, which ends
  only if the clock moves, is a partial function, and its result is proved to exist within 51
  attempts when every sleep lasts its tenth of a second. Ports, octets and counters keep their width.

  \<^bold>\<open>Not modelled.\<close> iroh, QUIC and the router, tokio's scheduler, the userspace TCP stack, libc and the
  kernel (third-party or the system's; parameters where the code depends on their outcome); clap's
  parsing of arguments, of which the declared constraints are modelled; logging. Of the tests, those that are about
  clap, about serde's text or about iroh's keys (the ones of \<open>main.rs\<close> and \<open>protocol.rs\<close>, and
  \<open>short_names_differ_between_peers\<close>), and the
  live tests, which run daemons over real QUIC.
\<close>

subsection \<open>Every reachable daemon\<close>

text \<open>C2: the invariant of a running daemon. However a daemon that started from its files is used, and
  whatever its peers send it: the peer map and the core agree on who is a peer; a map entry is the
  object of its key and has not been removed; a connection of an object leads to the object's key;
  and a port is bound only if the peer announced it, on the peer's own surface, so that every
  local listener leads to a service its peer offers.\<close>

theorem daemon_invariant:
  assumes "with_endpoint env me h pf sf ns name = Inr m0" and "m = daemon_run env m0 es"
  shows "(\<forall>k. map_of (peers m) k \<noteq> None \<longleftrightarrow> admission_of (pm_session m) k \<noteq> None) \<and>
    (\<forall>k a. map_of (peers m) k = Some a \<longrightarrow>
       a < length (heap m) \<and> p_endpoint_id (heap m ! a) = k \<and> \<not> p_removed (heap m ! a)) \<and>
    (\<forall>a c. a < length (heap m) \<and> p_connection (heap m ! a) = Some c \<longrightarrow>
       c_remote (conns m ! c) = p_endpoint_id (heap m ! a)) \<and>
    (\<forall>a port ip. a < length (heap m) \<and> map_of (p_bindings (heap m ! a)) port = Some (Listener ip) \<longrightarrow>
       port \<in> set (p_exposed_ports (heap m ! a)) \<and> map_option sf_ip (p_surface (heap m ! a)) = Some ip)"
proof -
  have "pm_wf m0" using with_endpoint_start [OF assms(1)] by blast
  then have wf: "pm_wf m" unfolding assms(2) by (rule dm.good_run_from)
  have "port \<in> set (p_exposed_ports (heap m ! a)) \<and> map_option sf_ip (p_surface (heap m ! a)) = Some ip"
    if "a < length (heap m)" "map_of (p_bindings (heap m ! a)) port = Some (Listener ip)" for a port ip
  proof -
    have "(port, Listener ip) \<in> set (p_bindings (heap m ! a))" using map_of_SomeD [OF that(2)] .
    moreover have "bound_at_surface (on_tun m) (heap m ! a)"
      "set (keys (p_bindings (heap m ! a))) \<subseteq> set (p_exposed_ports (heap m ! a))"
      using pm_wfD(4) [OF wf that(1)] by (simp_all add: peer_wf_def)
    ultimately show ?thesis unfolding bound_at_surface_def by force
  qed
  moreover have "map_of (peers m) k \<noteq> None \<longleftrightarrow> admission_of (pm_session m) k \<noteq> None" for k
    using member_iff_admitted [OF wf] by (simp add: admission_of_def)
  ultimately show ?thesis
    using pm_wfD(6-8) [OF wf] pm_wfD(10) [OF wf] by blast
qed

theorem daemon_invariant_witness:
  "\<exists>m0. with_endpoint plain_env (EndpointId [1]) localhost (new_file ''p'') (new_file ''s'') None None = Inr m0 \<and>
     (map_of (peers (daemon_run plain_env m0 [Incoming (EndpointId [7]) True])) (EndpointId [7]) \<noteq> None \<longleftrightarrow>
      admission_of (pm_session (daemon_run plain_env m0 [Incoming (EndpointId [7]) True])) (EndpointId [7]) \<noteq> None)"
proof -
  have "pins_load pin_codec (new_file ''p'') = Inr []" by (simp add: pins.load_absent)
  then obtain m0 where m: "with_endpoint plain_env (EndpointId [1]) localhost (new_file ''p'') (new_file ''s'') None None = Inr m0"
    by (simp add: with_endpoint_def)
  show ?thesis
    by (rule exI [of _ m0], rule conjI [OF m], rule daemon_invariant [OF m refl, THEN conjunct1, rule_format])
qed

text \<open>C1: default deny, for a running daemon. A stream of a peer that asks for a port is forwarded to
  that port of this host exactly when the service answers and something that happened since the
  start gave the peer's key that port, namely the operator naming the key for it or the key
  claiming, on its own connection, a live code that carries the port, and nothing since took it
  away, namely the operator withdrawing it or forgetting the peer.\<close>

theorem daemon_forwards_only_granted:
  assumes "with_endpoint env me h pf sf ns name = Inr m0" and "m = daemon_run env m0 es"
    and "k = p_endpoint_id (heap m ! a)"
  shows "handle_bi_stream connects m a (tunnel_preamble port @ data) =
      Inr (Tunneled (Forwarding (host m) port data)) \<longleftrightarrow>
    connects (host m) port \<and>
    (\<exists>xs e ys. es = xs @ e # ys \<and> daemon_grants env port k (daemon_run env m0 xs) e \<and>
       kept_through (daemon_step env) (daemon_grants env port k) (operator_revokes env port k)
         (daemon_step env (daemon_run env m0 xs) e) ys)"
proof -
  have wf: "pm_wf m0" using with_endpoint_start [OF assms(1)] by blast
  have "\<not> may m0 port k" using started_without_grants [OF assms(1)] .
  note latch = port.holds_iff_from [OF wf this, of env es]
  show ?thesis
    using latch assms(2,3) served_port [of connects m a port data] by auto
qed

lemma plain_start:
  obtains m0 where "with_endpoint plain_env (EndpointId [1]) localhost (new_file ''p'') (new_file ''s'') None None = Inr m0"
    "m0 = pm_new (EndpointId [1]) localhost session_new (new_file ''p'') (new_file ''s'') None None"
  using that [OF started_from_files [of plain_env "EndpointId [1]" localhost]] by (simp add: started_def)

theorem daemon_forwards_only_granted_witness:
  "\<exists>m0. with_endpoint plain_env (EndpointId [1]) localhost (new_file ''p'') (new_file ''s'') None None = Inr m0 \<and>
     handle_bi_stream (\<lambda>_ _. True) (daemon_run plain_env m0
         [Request (ReqExpose 80 [hex_show (EndpointId [7])] False) [] 0, Request (ReqAccept (hex_show (EndpointId [7])) None) [] 0])
       0 (tunnel_preamble 80 @ [1, 2]) = Inr (Tunneled (Forwarding localhost 80 [1, 2]))"
proof -
  obtain m0 where m: "with_endpoint plain_env (EndpointId [1]) localhost (new_file ''p'') (new_file ''s'') None None = Inr m0"
    and m0: "m0 = pm_new (EndpointId [1]) localhost session_new (new_file ''p'') (new_file ''s'') None None"
    by (rule plain_start)
  let ?e = "Request (ReqExpose 80 [hex_show (EndpointId [7])] False) [] 0"
  let ?f = "Request (ReqAccept (hex_show (EndpointId [7])) None) [] 0"
  let ?m = "daemon_run plain_env m0 [?e, ?f]"
  have g: "grantees_of plain_env m0 [hex_show (EndpointId [7])] False = Inr [EndpointId [7]]"
    using key_codecD(1) [OF hex_codec] by (simp add: grantees_of_def resolve_grantee_def)
  have k: "EndpointId [7] = p_endpoint_id (heap ?m ! 0)" and h: "host ?m = localhost"
    using g m0 printed_key_parses [OF hex_codec, of "EndpointId [7]"]
    by (simp_all add: d_expose_def broadcast_grants_def d_accept_def add_peer_def install_peer_def pm_new_def peer_new_def)
  have "\<exists>xs e ys. [?e, ?f] = xs @ e # ys \<and> daemon_grants plain_env 80 (EndpointId [7]) (daemon_run plain_env m0 xs) e \<and>
      kept_through (daemon_step plain_env) (daemon_grants plain_env 80 (EndpointId [7]))
        (operator_revokes plain_env 80 (EndpointId [7])) (daemon_step plain_env (daemon_run plain_env m0 xs) e) ys"
    by (rule exI [of _ "[]"], rule exI [of _ ?e], rule exI [of _ "[?f]"]) (simp add: daemon_grants_def g)
  then have "handle_bi_stream (\<lambda>_ _. True) ?m 0 (tunnel_preamble 80 @ [1, 2]) =
      Inr (Tunneled (Forwarding (host ?m) 80 [1, 2]))"
    using daemon_forwards_only_granted [OF m refl k, of "\<lambda>_ _. True" 80 "[1, 2]"] by blast
  with m h show ?thesis by auto
qed

subsection \<open>From one daemon to another\<close>

text \<open>C11: an invitation works, end to end. The text one daemon prints for an invitation is accepted by
  any daemon that does not know the issuer yet; its dial presents the code as its first message;
  and the issuer, reading that message on the holder's connection within five minutes, admits the
  holder under the name the issuer chose, serves it the ports of the invitation and no others it
  did not serve before, and pins it, so that the issuer still knows the holder after a restart.\<close>

theorem invitation_admits_its_holder:
  assumes wf: "pm_wf A" and new: "map_of (peers B) (our_id A) = None" "map_of (peers A) (our_id B) = None"
    and codec: "key_codec (e_show_key env) (e_parse_key env')" "key_codec (e_show_key env) (e_parse_key env)"
    and msg: "e_encode env' (enroll_message (hex_bytes rnd)) = Some data" "length data \<le> READ_LIMIT"
      "e_decode env data = Some (enroll_message (hex_bytes rnd))"
    and pins: "codec_ok (e_pins env)" "file_usable (pins_file A)" "pins_load (e_pins env) (pins_file A) = Inr ps"
    and rnd: "rnd \<noteq> []" and time: "t < now + secs 300"
    and inv: "handle_request env A (ReqInvite None name ports) rnd now = (RespInvite txt, A1)"
    and A3: "A3 = daemon_run env A1 [Incoming (our_id B) True, EnrollmentStream (next_conn_id A) (Some data) t]"
  shows "(\<exists>B1 rest. handle_request env' B (ReqAccept txt lbl) rnd' now' = (RespOk, B1) \<and>
      c_sent (conns (daemon_step env' B1 (Dialed (length (heap B)) True)) ! length (conns B)) = data # rest) \<and>
    admission_of (pm_session A3) (our_id B) = Some Code \<and> label_of (pm_session A3) (our_id B) = name \<and>
    (\<forall>p. on_tunnel (pm_session A3) (our_id B) p = ServeTunnel p \<longleftrightarrow>
       p \<in> set ports \<or> on_tunnel (pm_session A) (our_id B) p = ServeTunnel p) \<and>
    (\<exists>m. with_endpoint env me h (pins_file A3) sf ns nm = Inr m \<and> admission_of (pm_session m) (our_id B) = Some Key)"
proof -
  note A1 = invite_mints [OF inv]
  have code: "hex_bytes rnd \<noteq> []" "graphic (last (hex_bytes rnd))" using hex_bytes_code [OF rnd] by auto
  have "\<exists>B1 rest. handle_request env' B (ReqAccept txt lbl) rnd' now' = (RespOk, B1) \<and>
      c_sent (conns (daemon_step env' B1 (Dialed (length (heap B)) True)) ! length (conns B)) = data # rest"
    unfolding A1(1) by (rule holder_presents [OF codec(1) code new(1) msg(1)])
  moreover have A3': "admission_of (pm_session A3) (our_id B) = Some Code" "label_of (pm_session A3) (our_id B) = name"
    "\<And>p. may A3 p (our_id B) \<longleftrightarrow> p \<in> set ports \<or> may A p (our_id B)"
    "pins_file A3 = snd (pins_add (e_pins env) (pins_file A) (e_show_key env (our_id B)) name)"
    using issuer_admits [OF wf new(2) msg(2,3) time inv] A3 by simp_all
  moreover have "pins_load (e_pins env) (pins_file A3) = Inr (filter (\<lambda>x. pin_key x \<noteq> e_show_key env (our_id B)) ps @
      [\<lparr>pin_key = e_show_key env (our_id B), pin_label = name\<rparr>])"
    using pins.add_loaded [OF pins, of "\<lparr>pin_key = e_show_key env (our_id B), pin_label = name\<rparr>"] A3'(4) by simp
  then have "\<exists>m. with_endpoint env me h (pins_file A3) sf ns nm = Inr m \<and> admission_of (pm_session m) (our_id B) = Some Key"
    using restarted_admits key_codecD(1) [OF codec(2)] by simp
  ultimately show ?thesis by (simp add: on_tunnel_def)
qed

theorem invitation_admits_its_holder_witness:
  "\<exists>txt A1 data. handle_request plain_env plain_pm (ReqInvite None (Some ''bob'') [80]) [171] 5 = (RespInvite txt, A1) \<and>
     encode_message (enroll_message (hex_bytes [171])) = Some data \<and>
     admission_of (pm_session (daemon_run plain_env A1
       [Incoming (EndpointId [2]) True, EnrollmentStream 1 (Some data) 7])) (EndpointId [2]) = Some Code"
proof -
  let ?B = "pm_new (EndpointId [2]) localhost session_new (new_file ''p'') (new_file ''s'') None None"
  obtain data where d: "encode_message (enroll_message (hex_bytes [171])) = Some data"
    "decode_message data = Some (enroll_message (hex_bytes [171]))"
    using message_codec_ok by blast
  have "data = to_unary (enc_message (enroll_message (hex_bytes [171])))" using d(1) by (simp add: encode_message_def)
  then have len: "length data \<le> READ_LIMIT"
    by (simp add: length_to_unary enroll_message_def VERSION_def READ_LIMIT_def hex_bytes_def hex_byte_def
        hex_digits_def enc_pair_def enc_map_def enc_list_def)
  obtain x A1 where i: "handle_request plain_env plain_pm (ReqInvite None (Some ''bob'') [80]) [171] 5 = (RespInvite x, A1)"
    by (simp add: d_invite_def mint_token_def mint_def mint_with_ttl_def Let_def)
  have "map_of (peers plain_pm) (EndpointId [2]) = None" "pins_file plain_pm = new_file ''key.peers.json''" "next_conn_id plain_pm = 1"
    by (simp_all add: plain_pm_def pm_new_def)
  then have "admission_of (pm_session (daemon_run plain_env A1
       [Incoming (EndpointId [2]) True, EnrollmentStream 1 (Some data) 7])) (EndpointId [2]) = Some Code"
    using invitation_admits_its_holder [OF plain_pm_wf, where B = ?B and env = plain_env and env' = plain_env and rnd = "[171]"
        and data = data and ps = "[]" and t = 7 and now = 5 and name = "Some ''bob''" and ports = "[80]", OF _ _ _ _ _ len _ _ _ _ _ _ i refl]
      d hex_codec pin_codec_ok
    by (simp add: pm_new_def pins.load_absent secs_def)
  with i d(1) show ?thesis by blast
qed

text \<open>C12: a forwarded connection reaches the service it names, and only that. One daemon opens a tunnel
  for a port and forwards a client into it; QUIC delivers a prefix of what was written, and if the
  other daemon serves the stream, it is on that port of its own host, granted to the opener, and
  what its service has received is always a prefix of what the client sent.\<close>

theorem forwarding_end_to_end:
  assumes opened: "open_tunnel A a port = Inr pre"
    and sender: "(tunnel_step k)\<^sup>*\<^sup>* (tunnel_start (half_start client \<lparr>taken_bytes = pre, fails_after = fa\<rparr>) (half_start replies w)) tA"
    and quic: "prefix received (taken_bytes (h_writer (outward tA)))"
    and served: "handle_bi_stream connects B b received = Inr (Tunneled (Forwarding h p data))"
    and receiver: "(tunnel_step Bidirectional)\<^sup>*\<^sup>*
        (tunnel_start (half_start service w') (half_start q \<lparr>taken_bytes = [], fails_after = fb\<rparr>)) tB" "input_bytes q = data"
  shows "p = port \<and> h = host B \<and> connects h port \<and>
    allows (s_grants (pm_session B)) port (p_endpoint_id (heap B ! b)) \<and>
    prefix (taken_bytes (h_writer (inward tB))) (input_bytes client)"
proof -
  have pre: "pre = tunnel_preamble port" using opened by (auto simp: open_tunnel_def split: option.splits if_splits)
  obtain x y where xy: "tunnel_preamble port = [x, y]" by (simp add: tunnel_preamble_def u16_to_be_def)
  have "half_wrote client \<lparr>taken_bytes = pre, fails_after = fa\<rparr> (outward tA)"
    using tunnel_inv_wrote [OF tunnel_inv_reached] sender by blast
  then have sent: "prefix received (pre @ input_bytes client)"
    using quic prefix_order.order_trans by (auto simp: half_wrote_def)
  obtain u v rest where "received = u # v # rest"
    using served by (cases received rule: read_exact2.cases) (auto simp: handle_bi_stream_def)
  then have rest: "received = tunnel_preamble port @ rest" "prefix rest (input_bytes client)" using sent pre by (simp_all add: xy)
  have "p = port \<and> h = host B \<and> connects h port \<and> data = rest \<and>
      allows (s_grants (pm_session B)) port (p_endpoint_id (heap B ! b))"
    using served unfolding rest(1) served_port by (auto split: if_splits)
  moreover have "half_wrote q \<lparr>taken_bytes = [], fails_after = fb\<rparr> (inward tB)"
    using tunnel_inv_wrote [OF tunnel_inv_reached [OF receiver(1)]] by blast
  ultimately show ?thesis using rest(2) receiver(2) prefix_order.order_trans by (auto simp: half_wrote_def)
qed

theorem forwarding_end_to_end_witness:
  "\<exists>A B tA (tB :: tunnel). open_tunnel A 0 80 = Inr (tunnel_preamble 80) \<and>
     (tunnel_step Bridge)\<^sup>*\<^sup>* (tunnel_start (half_start [Chunk [1, 2]] \<lparr>taken_bytes = tunnel_preamble 80, fails_after = None\<rparr>)
       (half_start [] \<lparr>taken_bytes = [], fails_after = None\<rparr>)) tA \<and>
     handle_bi_stream (\<lambda>_ _. True) B 0 (taken_bytes (h_writer (outward tA))) = Inr (Tunneled (Forwarding (host B) 80 [1, 2])) \<and>
     prefix (taken_bytes (h_writer (inward tB))) [1, 2] \<and> taken_bytes (h_writer (inward tB)) = [1, 2]"
proof -
  let ?p = "peer_new (EndpointId [7]) None True None (Some 0)"
  let ?A = "plain_pm\<lparr>heap := [?p], conns := [\<lparr>c_remote = EndpointId [7], c_close_reason = None, c_opens_streams = True, c_sent = []\<rparr>]\<rparr>"
  let ?B = "plain_pm\<lparr>heap := [?p], pm_session := snd (expose session_new 80 [EndpointId [7]])\<rparr>"
  let ?w = "\<lambda>bs. \<lparr>taken_bytes = bs, fails_after = None\<rparr>"
  let ?idle = "half_start [] (?w [])"
  let ?sA = "tunnel_start (half_start [Chunk [1, 2]] (?w (tunnel_preamble 80))) ?idle"
  let ?tA = "?sA\<lparr>outward := \<lparr>h_queue = [], h_writer = ?w (tunnel_preamble 80 @ [1, 2]), h_total = 2\<rparr>\<rparr>"
  let ?sB = "tunnel_start ?idle (half_start [Chunk [1, 2]] (?w []))"
  let ?tB = "?sB\<lparr>inward := \<lparr>h_queue = [], h_writer = ?w [1, 2], h_total = 2\<rparr>\<rparr>"
  have o: "open_tunnel ?A 0 80 = Inr (tunnel_preamble 80)" by (simp add: open_tunnel_def peer_new_def)
  have A: "(tunnel_step Bridge)\<^sup>*\<^sup>* ?sA ?tA"
    by (rule r_into_rtranclp, rule tunnel_step.out_again)
      (simp_all add: tunnel_start_def half_start_def copy_turn_def COPY_BUF_def write_all_def)
  have B: "(tunnel_step Bidirectional)\<^sup>*\<^sup>* ?sB ?tB"
    by (rule r_into_rtranclp, rule tunnel_step.in_again)
      (simp_all add: tunnel_start_def half_start_def copy_turn_def COPY_BUF_def write_all_def)
  have sent: "taken_bytes (h_writer (outward ?tA)) = tunnel_preamble 80 @ [1, 2]" by simp
  have h: "handle_bi_stream (\<lambda>_ _. True) ?B 0 (tunnel_preamble 80 @ [1, 2]) = Inr (Tunneled (Forwarding (host ?B) 80 [1, 2]))"
    unfolding served_port by (simp add: peer_new_def expose_def Let_def session_new_def allows_add)
  have "prefix (taken_bytes (h_writer (inward ?tB))) (input_bytes [Chunk [1, 2]])"
    using forwarding_end_to_end [OF o A _ h B] sent by simp
  then have "prefix (taken_bytes (h_writer (inward ?tB))) [1, 2]" "taken_bytes (h_writer (inward ?tB)) = [1, 2]" by simp_all
  moreover have "handle_bi_stream (\<lambda>_ _. True) ?B 0 (taken_bytes (h_writer (outward ?tA))) = Inr (Tunneled (Forwarding (host ?B) 80 [1, 2]))"
    unfolding sent by (rule h)
  ultimately show ?thesis using o A by blast
qed

end
